(* ===== verification/Prelude.thy ===== *)
theory Prelude
  imports Complex_Main "HOL-Library.AList" "HOL-Library.Char_ord" "HOL-Library.List_Lexorder"
    "HOL-Library.Product_Lexorder"
begin

text \<open>
  Shared vocabulary of the development: the exceptions the Python code raises, the table
  operations the SQL statements of the coordinator are made of (\<open>UPDATE ... WHERE\<close>,
  \<open>ORDER BY ... LIMIT 1\<close>), Python dictionaries and sets as lists, and the transition-system
  interface whose client lemmas lift a one-step invariant to every reachable state.

  Strings are the UTF-8 bytes of the Python string; \<open>length\<close> therefore counts bytes.
\<close>

section \<open>Hint collections\<close>

named_theorems row_simps \<open>how the table operations act on the rows and on the lookups\<close>
named_theorems frame_simps \<open>which parts of the state an operation leaves alone\<close>

section \<open>Exceptions\<close>

text \<open>
  The exceptions that leave a function of the coordinator. \<open>DBPartitioned\<close> is the class of
  \<open>coordinator/db.py\<close>; \<open>PoolNotConnected\<close> is its \<open>RuntimeError\<close>; \<open>DataError\<close> is what the
  database driver raises for an argument that does not fit the column type;
  \<open>UniqueViolation\<close> is the violated primary key of \<open>jobs\<close>.
  \<open>ConfigError\<close> is the \<open>RuntimeError\<close> of \<open>Database.from_env\<close>; \<open>ConnectError\<close> and
  \<open>SchemaError\<close> stand for what \<open>asyncpg.create_pool\<close> and the application of the schema raise.
\<close>

datatype exn =
    DBPartitioned
  | PoolNotConnected
  | DataError
  | UniqueViolation
  | AttributeError
  | KeyError
  | TypeError
  | ValueError
  | ZeroDivisionError
  | ConfigError
  | ConnectError
  | SchemaError

text \<open>Sequencing of code that may raise, and a loop over it.\<close>

fun sbind :: "exn + 'a \<Rightarrow> ('a \<Rightarrow> exn + 'b) \<Rightarrow> exn + 'b" where
  "sbind (Inl x) f = Inl x"
| "sbind (Inr a) f = f a"

fun smap :: "('a \<Rightarrow> exn + 'b) \<Rightarrow> 'a list \<Rightarrow> exn + 'b list" where
  "smap f [] = Inr []"
| "smap f (x # xs) = sbind (f x) (\<lambda>y. sbind (smap f xs) (\<lambda>ys. Inr (y # ys)))"

lemma smap_Inr: "(\<And>x. x \<in> set xs \<Longrightarrow> f x = Inr (g x)) \<Longrightarrow> smap f xs = Inr (map g xs)"
  by (induction xs) simp_all

section \<open>Text and environment variables\<close>

definition rstrip_char :: "char \<Rightarrow> string \<Rightarrow> string" where
  "rstrip_char c s = rev (dropWhile (\<lambda>x. x = c) (rev s))"

text \<open>\<open>os.environ.get(k, dflt)\<close>.\<close>

definition getenv :: "(string \<Rightarrow> string option) \<Rightarrow> string \<Rightarrow> string \<Rightarrow> string" where
  "getenv env k dflt = (case env k of None \<Rightarrow> dflt | Some v \<Rightarrow> v)"

section \<open>Tables as lists of rows\<close>

text \<open>\<open>UPDATE t SET f WHERE P\<close>.\<close>

definition upd_where :: "('a \<Rightarrow> bool) \<Rightarrow> ('a \<Rightarrow> 'a) \<Rightarrow> 'a list \<Rightarrow> 'a list" where
  "upd_where P f xs = map (\<lambda>x. if P x then f x else x) xs"

lemma set_upd_where:
  "set (upd_where P f xs) = (\<lambda>x. if P x then f x else x) ` set xs"
  by (simp add: upd_where_def)

lemma ball_upd_where [row_simps]:
  "(\<forall>y \<in> set (upd_where P f xs). Q y) \<longleftrightarrow> (\<forall>x \<in> set xs. if P x then Q (f x) else Q x)"
  by (auto simp: upd_where_def)

lemma bex_upd_where [row_simps]:
  "(\<exists>y \<in> set (upd_where P f xs). Q y) \<longleftrightarrow> (\<exists>x \<in> set xs. if P x then Q (f x) else Q x)"
  by (auto simp: upd_where_def)

lemma ball_upd_same:
  "(\<And>x. P x \<Longrightarrow> Q (f x) = Q x) \<Longrightarrow> (\<forall>y \<in> set (upd_where P f xs). Q y) \<longleftrightarrow> (\<forall>x \<in> set xs. Q x)"
  by (induction xs) (auto simp: upd_where_def)

lemma bex_upd_same:
  "(\<And>x. P x \<Longrightarrow> Q (f x) = Q x) \<Longrightarrow> (\<exists>y \<in> set (upd_where P f xs). Q y) \<longleftrightarrow> (\<exists>x \<in> set xs. Q x)"
  by (induction xs) (auto simp: upd_where_def)

lemma length_upd_where [row_simps]: "length (upd_where P f xs) = length xs"
  by (simp add: upd_where_def)

lemma map_upd_where [row_simps]:
  "(\<And>x. P x \<Longrightarrow> g (f x) = g x) \<Longrightarrow> map g (upd_where P f xs) = map g xs"
  by (auto simp: upd_where_def)

lemma find_upd_where:
  assumes "\<And>x. P x \<Longrightarrow> Q (f x) = Q x"
  shows "find Q (upd_where P f xs) = map_option (\<lambda>x. if P x then f x else x) (find Q xs)"
  using assms by (induction xs) (auto simp: upd_where_def)

lemma find_upd_where_other:
  "(\<And>x. P x \<Longrightarrow> \<not> Q x \<and> \<not> Q (f x)) \<Longrightarrow> find Q (upd_where P f xs) = find Q xs"
  by (induction xs) (auto simp: upd_where_def)

lemma upd_where_none: "(\<And>x. x \<in> set xs \<Longrightarrow> \<not> P x) \<Longrightarrow> upd_where P f xs = xs"
  by (induction xs) (auto simp: upd_where_def)

lemma filter_upd_where [row_simps]:
  "(\<And>x. P x \<Longrightarrow> Q (f x) = Q x) \<Longrightarrow> filter Q (upd_where P f xs) = upd_where P f (filter Q xs)"
  by (induction xs) (auto simp: upd_where_def)

lemma length_filter_upd_le:
  "(\<And>x. P x \<Longrightarrow> \<not> Q (f x)) \<Longrightarrow> length (filter Q (upd_where P f xs)) \<le> length (filter Q xs)"
  by (induction xs) (auto simp: upd_where_def)

lemma length_filter_upd_less:
  assumes "\<And>x. P x \<Longrightarrow> \<not> Q (f x)" and "x \<in> set xs" and "P x" and "Q x"
  shows "length (filter Q (upd_where P f xs)) < length (filter Q xs)"
  using assms(2-4)
proof (induction xs)
  case Nil
  then show ?case by simp
next
  case (Cons y ys)
  have "length (filter Q (upd_where P f ys)) \<le> length (filter Q ys)"
    by (rule length_filter_upd_le) (rule assms(1))
  with Cons assms(1) show ?case by (auto simp: upd_where_def)
qed

text \<open>\<open>SELECT ... ORDER BY key LIMIT 1\<close>.\<close>

definition first_by :: "('a \<Rightarrow> 'k::linorder) \<Rightarrow> 'a list \<Rightarrow> 'a option" where
  "first_by key xs = (case sort_key key xs of [] \<Rightarrow> None | x # _ \<Rightarrow> Some x)"

lemma first_by_None [simp]: "first_by key xs = None \<longleftrightarrow> xs = []"
proof -
  have "sort_key key xs = [] \<longleftrightarrow> xs = []"
    using length_sort [of key xs] by (metis length_0_conv)
  then show ?thesis by (auto simp: first_by_def split: list.splits)
qed

lemma first_by_Some:
  assumes "first_by key xs = Some x"
  shows "x \<in> set xs \<and> (\<forall>y \<in> set xs. key x \<le> key y)"
proof -
  from assms obtain ys where eq: "sort_key key xs = x # ys"
    by (auto simp: first_by_def split: list.splits)
  have "set (x # ys) = set xs" by (metis eq set_sort)
  moreover have "sorted (map key (x # ys))" by (metis eq sorted_sort_key)
  ultimately show ?thesis by auto
qed

lemma first_by_in: "first_by key xs = Some x \<Longrightarrow> x \<in> set xs"
  by (simp add: first_by_Some)

lemma first_by_least: "first_by key xs = Some x \<Longrightarrow> y \<in> set xs \<Longrightarrow> key x \<le> key y"
  by (simp add: first_by_Some)

lemma first_by_ex: "xs \<noteq> [] \<Longrightarrow> \<exists>x. first_by key xs = Some x"
  by (cases "first_by key xs") simp_all

lemma find_Some_mem: "find P xs = Some x \<Longrightarrow> x \<in> set xs \<and> P x"
  by (induction xs) (auto split: if_splits)

lemma find_append: "find P (xs @ ys) = (case find P xs of None \<Rightarrow> find P ys | Some x \<Rightarrow> Some x)"
  by (induction xs) auto

lemma find_distinct:
  "distinct (map g xs) \<Longrightarrow> x \<in> set xs \<Longrightarrow> find (\<lambda>y. g y = g x) xs = Some x"
  by (induction xs) (auto simp: image_iff)

lemma distinct_map_eq:
  "distinct (map g xs) \<Longrightarrow> x \<in> set xs \<Longrightarrow> y \<in> set xs \<Longrightarrow> g x = g y \<Longrightarrow> x = y"
  by (induction xs) (auto simp: image_iff)

lemma sorted_wrt_less_distinct: "sorted_wrt (<) (xs :: 'a::order list) \<Longrightarrow> distinct xs"
  by (induction xs) auto

section \<open>Python sets and dictionaries\<close>

text \<open>
  A set of strings is a list without repetition: \<open>add\<close> is \<^const>\<open>List.insert\<close>, \<open>discard\<close> is
  \<^const>\<open>removeAll\<close>, \<open>len\<close> is \<^const>\<open>length\<close>. A dictionary is an association list in
  insertion order: assignment is \<^const>\<open>AList.update\<close> (in place for a key that is present, at
  the end otherwise, as Python keeps it), \<open>pop(k, None)\<close> is \<^const>\<open>AList.delete\<close>, \<open>get\<close> is
  \<^const>\<open>map_of\<close>. The interface a client relies on is the locale \<open>py_dict\<close>.
\<close>

locale py_dict =
  fixes dget :: "'d \<Rightarrow> 'k \<Rightarrow> 'v option"
    and dset :: "'k \<Rightarrow> 'v \<Rightarrow> 'd \<Rightarrow> 'd"
    and dpop :: "'k \<Rightarrow> 'd \<Rightarrow> 'd"
    and dkeys :: "'d \<Rightarrow> 'k list"
    and dok :: "'d \<Rightarrow> bool"
  assumes get_set: "dok d \<Longrightarrow> dget (dset k v d) k' = (if k' = k then Some v else dget d k')"
    and get_pop: "dok d \<Longrightarrow> dget (dpop k d) k' = (if k' = k then None else dget d k')"
    and keys_iff: "dok d \<Longrightarrow> k \<in> set (dkeys d) \<longleftrightarrow> dget d k \<noteq> None"
    and ok_set: "dok d \<Longrightarrow> dok (dset k v d)"
    and ok_pop: "dok d \<Longrightarrow> dok (dpop k d)"
begin

lemma overwrite: "dok d \<Longrightarrow> dget (dset k w (dset k v d)) k = Some w"
  by (simp add: get_set ok_set)

lemma pop_after_overwrite: "dok d \<Longrightarrow> dget (dpop k (dset k w (dset k v d))) k = None"
  by (simp add: get_pop ok_set)

lemma pop_other: "dok d \<Longrightarrow> k' \<noteq> k \<Longrightarrow> dget (dpop k d) k' = dget d k'"
  by (simp add: get_pop)

lemma key_after_set: "dok d \<Longrightarrow> k \<in> set (dkeys (dset k v d))"
  by (simp add: keys_iff get_set ok_set)

end

interpretation adict: py_dict map_of AList.update AList.delete "map fst" "\<lambda>d. distinct (map fst d)"
proof
  fix d :: "('a \<times> 'b) list" and k k' v
  assume d: "distinct (map fst d)"
  show "map_of (AList.update k v d) k' = (if k' = k then Some v else map_of d k')"
    by (simp add: update_conv')
  show "map_of (AList.delete k d) k' = (if k' = k then None else map_of d k')"
    by (simp add: delete_conv')
  show "k \<in> set (map fst d) \<longleftrightarrow> map_of d k \<noteq> None"
    by (auto simp: map_of_eq_None_iff)
  show "distinct (map fst (AList.update k v d))"
    using d by (rule distinct_update)
  show "distinct (map fst (AList.delete k d))"
    using d by (rule distinct_delete)
qed

section \<open>Transition systems\<close>

text \<open>
  The interface of a state machine: an initial state, a step relation and an invariant that
  the initial state satisfies and every step keeps. What the client gets is that the
  invariant holds after any number of steps, and that a step-stable fact stays.
\<close>

locale step_system =
  fixes start :: "'s"
    and step :: "'s \<Rightarrow> 's \<Rightarrow> bool"
    and ok :: "'s \<Rightarrow> bool"
  assumes ok_start: "ok start"
    and ok_step: "ok s \<Longrightarrow> step s t \<Longrightarrow> ok t"
begin

lemma ok_steps: "step\<^sup>*\<^sup>* s t \<Longrightarrow> ok s \<Longrightarrow> ok t"
  by (induction rule: rtranclp_induct) (auto intro: ok_step)

lemma ok_reachable: "step\<^sup>*\<^sup>* start s \<Longrightarrow> ok s"
  using ok_start by (rule ok_steps [rotated])

lemma stable_steps:
  assumes "step\<^sup>*\<^sup>* s t" and "ok s" and "P s"
    and stable: "\<And>a b. ok a \<Longrightarrow> P a \<Longrightarrow> step a b \<Longrightarrow> P b"
  shows "P t"
proof -
  from assms(1-3) have "ok t \<and> P t"
    by (induction rule: rtranclp_induct) (auto intro: ok_step stable)
  then show ?thesis ..
qed

end

end
