(* ===== verification/Json.thy ===== *)
theory Json
  imports Prelude
begin

text \<open>
  The values \<open>json.loads\<close> and aiohttp's \<open>request.json()\<close> produce, with the dynamic checks the
  handlers make on them: \<open>dict.get\<close>, \<open>isinstance\<close>, truth value, and \<open>int(...)\<close>.
  An object is an association list with the dictionary's keys; a float is its exact rational
  value (NaN and the infinities are left out).
\<close>

datatype json =
    JNull
  | JBool bool
  | JInt int
  | JFloat rat
  | JStr string
  | JList "json list"
  | JObj "(string \<times> json) list"

text \<open>\<open>body.get(k)\<close>: a value that is not a \<open>dict\<close> has no attribute \<open>get\<close>.\<close>

fun jget :: "json \<Rightarrow> string \<Rightarrow> exn + json option" where
  "jget (JObj kvs) k = Inr (map_of kvs k)"
| "jget _ k = Inl AttributeError"

text \<open>\<open>d.get(k, dflt)\<close> on what is known to be a dictionary.\<close>

fun dget_or :: "json \<Rightarrow> string \<Rightarrow> json \<Rightarrow> json" where
  "dget_or (JObj kvs) k dflt = (case map_of kvs k of None \<Rightarrow> dflt | Some v \<Rightarrow> v)"
| "dget_or _ k dflt = dflt"

text \<open>\<open>x.get(k)\<close> where the absent key and \<open>null\<close> are both \<open>None\<close>.\<close>

definition dget :: "json \<Rightarrow> string \<Rightarrow> json" where
  "dget j k = dget_or j k JNull"

text \<open>Truth value of a Python object.\<close>

fun py_truth :: "json \<Rightarrow> bool" where
  "py_truth JNull = False"
| "py_truth (JBool b) = b"
| "py_truth (JInt i) = (i \<noteq> 0)"
| "py_truth (JFloat r) = (r \<noteq> 0)"
| "py_truth (JStr s) = (s \<noteq> [])"
| "py_truth (JList xs) = (xs \<noteq> [])"
| "py_truth (JObj kvs) = (kvs \<noteq> [])"

text \<open>
  \<open>isinstance(x, int)\<close> together with the number it stands for: \<open>bool\<close> is a subclass of
  \<open>int\<close>, so \<open>true\<close> and \<open>false\<close> pass the check as 1 and 0.
\<close>

fun as_int :: "json \<Rightarrow> int option" where
  "as_int (JInt i) = Some i"
| "as_int (JBool b) = Some (if b then 1 else 0)"
| "as_int _ = None"

fun as_str :: "json \<Rightarrow> string option" where
  "as_str (JStr s) = Some s"
| "as_str _ = None"

fun is_dict :: "json \<Rightarrow> bool" where
  "is_dict (JObj kvs) = True"
| "is_dict _ = False"

text \<open>\<open>isinstance(x, (int, float))\<close> followed by \<open>float(x)\<close>.\<close>

fun as_float :: "json \<Rightarrow> rat option" where
  "as_float (JInt i) = Some (of_int i)"
| "as_float (JBool b) = Some (if b then 1 else 0)"
| "as_float (JFloat r) = Some r"
| "as_float _ = None"

text \<open>
  \<open>int(s)\<close> of a string: blanks around, an optional sign, decimal digits with single
  underscores between them.
\<close>

definition is_blank :: "char \<Rightarrow> bool" where
  "is_blank c \<longleftrightarrow> c \<in> {CHR '' '', CHR 0x09, CHR 0x0A, CHR 0x0B, CHR 0x0C, CHR 0x0D,
     CHR 0x1C, CHR 0x1D, CHR 0x1E, CHR 0x1F}"

definition py_strip :: "string \<Rightarrow> string" where
  "py_strip s = rev (dropWhile is_blank (rev (dropWhile is_blank s)))"

definition digit_val :: "char \<Rightarrow> int option" where
  "digit_val c = (let n = (of_char c :: int) in if 48 \<le> n \<and> n \<le> 57 then Some (n - 48) else None)"

fun py_digits :: "int \<Rightarrow> string \<Rightarrow> int option" where
  "py_digits acc [] = Some acc"
| "py_digits acc [c] = map_option (\<lambda>v. 10 * acc + v) (digit_val c)"
| "py_digits acc (c # d # cs) =
     (case digit_val c of
        None \<Rightarrow> None
      | Some v \<Rightarrow>
          if d = CHR ''_'' then (if cs = [] then None else py_digits (10 * acc + v) cs)
          else py_digits (10 * acc + v) (d # cs))"

definition py_int_of_str :: "string \<Rightarrow> int option" where
  "py_int_of_str s =
     (case py_strip s of
        [] \<Rightarrow> None
      | c # cs \<Rightarrow>
          if c = CHR ''-'' then (if cs = [] then None else map_option uminus (py_digits 0 cs))
          else if c = CHR ''+'' then (if cs = [] then None else py_digits 0 cs)
          else py_digits 0 (c # cs))"

text \<open>\<open>int(x)\<close>: floats are truncated towards zero, other types raise.\<close>

fun py_int :: "json \<Rightarrow> exn + int" where
  "py_int (JInt i) = Inr i"
| "py_int (JBool b) = Inr (if b then 1 else 0)"
| "py_int (JFloat r) = Inr (if 0 \<le> r then floor r else - floor (- r))"
| "py_int (JStr s) = (case py_int_of_str s of None \<Rightarrow> Inl ValueError | Some i \<Rightarrow> Inr i)"
| "py_int _ = Inl TypeError"

lemma dget_obj [simp]: "dget (JObj kvs) k = (case map_of kvs k of None \<Rightarrow> JNull | Some v \<Rightarrow> v)"
  by (simp add: dget_def)

lemma py_int_examples:
  "py_int (JStr '' 42 '') = Inr 42" "py_int (JStr ''-1_000'') = Inr (-1000)"
  "py_int (JStr ''1__0'') = Inl ValueError" "py_int (JFloat (- (5 / 2))) = Inr (-2)"
  "py_int (JList []) = Inl TypeError"
  by (simp_all add: py_int_of_str_def py_strip_def is_blank_def digit_val_def floor_eq_iff)

end
