(* ===== verification/Schema.thy ===== *)
theory Schema
  imports Json
begin

text \<open>
  The persistent schema of \<open>db/schema.sql\<close>: one record per table row, the tables as lists in
  insertion order, the sequences as their last value, and the SQL statements the coordinator
  issues as operations on the database record. Every \<open>db_now_ms()\<close> is an argument: the
  model assumes nothing about the database clock, not even that it never goes back.
  Table and sequence values are \<open>bigint\<close> in the schema and unbounded integers here: the
  sequences count up from 1 and the times are milliseconds, far below \<open>2 ^ 63\<close>.
\<close>

section \<open>Rows\<close>

text \<open>\<open>jobs.state\<close>, a text column with five values.\<close>

datatype jstate = Pending | Leased | Succeeded | Failed | Cancelled

fun state_text :: "jstate \<Rightarrow> string" where
  "state_text Pending = ''pending''"
| "state_text Leased = ''leased''"
| "state_text Succeeded = ''succeeded''"
| "state_text Failed = ''failed''"
| "state_text Cancelled = ''cancelled''"

text \<open>The states can be enumerated.\<close>

instantiation jstate :: enum
begin

definition enum_jstate :: "jstate list" where
  "enum_jstate = [Pending, Leased, Succeeded, Failed, Cancelled]"

definition enum_all_jstate :: "(jstate \<Rightarrow> bool) \<Rightarrow> bool" where
  "enum_all_jstate P = list_all P Enum.enum"

definition enum_ex_jstate :: "(jstate \<Rightarrow> bool) \<Rightarrow> bool" where
  "enum_ex_jstate P = list_ex P Enum.enum"

instance
proof
  show univ: "(UNIV :: jstate set) = set Enum.enum"
    by (auto simp: enum_jstate_def intro: jstate.exhaust)
  show "distinct (Enum.enum :: jstate list)" by (simp add: enum_jstate_def)
  show "Enum.enum_all P \<longleftrightarrow> Ball UNIV P" "Enum.enum_ex P \<longleftrightarrow> Bex UNIV P" for P :: "jstate \<Rightarrow> bool"
    unfolding univ by (simp_all add: enum_all_jstate_def enum_ex_jstate_def list_all_iff list_ex_iff)
qed

end

lemma state_text_inj [simp]: "state_text a = state_text b \<longleftrightarrow> a = b"
  by (cases a; cases b) simp_all

type_synonym uuid = string

record job_row =
  j_id :: uuid
  j_key :: string
  j_payload :: json
  j_state :: jstate
  j_result :: "json option"
  j_created :: int
  j_updated :: int

record trans_row =
  t_id :: int
  t_job :: uuid
  t_from :: "jstate option"
  t_to :: jstate
  t_at :: int
  t_coord :: string

record lease_row =
  l_id :: int
  l_job :: uuid
  l_fence :: int
  l_worker :: string
  l_issued :: int
  l_expires :: int
  l_expired :: "int option"

record commit_row =
  c_id :: int
  c_job :: uuid
  c_fence :: int
  c_worker :: string
  c_accepted :: bool
  c_at :: int

text \<open>
  The database. \<open>fence_seq\<close>, \<open>tr_seq\<close>, \<open>ls_seq\<close> and \<open>cm_seq\<close> are the last values the
  sequences returned; \<open>fence_clock\<close> is the one row of the table of that name.
\<close>

record db =
  jobs :: "job_row list"
  transitions :: "trans_row list"
  leases :: "lease_row list"
  commits :: "commit_row list"
  fence_seq :: int
  fence_clock :: int
  tr_seq :: int
  ls_seq :: int
  cm_seq :: int

definition empty_db :: db where
  "empty_db = \<lparr>jobs = [], transitions = [], leases = [], commits = [],
     fence_seq = 0, fence_clock = 0, tr_seq = 0, ls_seq = 0, cm_seq = 0\<rparr>"

section \<open>Lookups\<close>

definition find_job :: "uuid \<Rightarrow> db \<Rightarrow> job_row option" where
  "find_job j d = find (\<lambda>r. j_id r = j) (jobs d)"

text \<open>\<open>SELECT state FROM jobs WHERE job_id = $1\<close>.\<close>

definition job_state :: "uuid \<Rightarrow> db \<Rightarrow> jstate option" where
  "job_state j d = map_option j_state (find_job j d)"

definition job_result :: "uuid \<Rightarrow> db \<Rightarrow> json option" where
  "job_result j d = Option.bind (find_job j d) j_result"

text \<open>\<open>SELECT job_id FROM jobs WHERE idempotency_key = $1\<close>.\<close>

definition job_of_key :: "string \<Rightarrow> db \<Rightarrow> uuid option" where
  "job_of_key k d = map_option j_id (find (\<lambda>r. j_key r = k) (jobs d))"

definition job_leases :: "uuid \<Rightarrow> db \<Rightarrow> lease_row list" where
  "job_leases j d = filter (\<lambda>l. l_job l = j) (leases d)"

text \<open>\<open>SELECT ... FROM leases WHERE job_id = $1 ORDER BY fence DESC LIMIT 1\<close>.\<close>

definition latest_lease :: "uuid \<Rightarrow> db \<Rightarrow> lease_row option" where
  "latest_lease j d = first_by (\<lambda>l. - l_fence l) (job_leases j d)"

text \<open>\<open>SELECT max(fence) FROM leases WHERE job_id = $1\<close>.\<close>

definition max_fence :: "uuid \<Rightarrow> db \<Rightarrow> int option" where
  "max_fence j d = map_option l_fence (latest_lease j d)"

text \<open>\<open>SELECT fence FROM commits WHERE job_id = $1 AND accepted\<close>.\<close>

definition accepted_fence :: "uuid \<Rightarrow> db \<Rightarrow> int option" where
  "accepted_fence j d = map_option c_fence (find (\<lambda>c. c_job c = j \<and> c_accepted c) (commits d))"

text \<open>The rows of the transition log that belong to one job, oldest first.\<close>

definition job_log :: "uuid \<Rightarrow> db \<Rightarrow> (jstate option \<times> jstate) list" where
  "job_log j d = map (\<lambda>t. (t_from t, t_to t)) (filter (\<lambda>t. t_job t = j) (transitions d))"

section \<open>Statements\<close>

text \<open>
  \<open>issue_fence()\<close>: one row-locked \<open>UPDATE\<close> of \<open>fence_clock\<close> gives the time, the sequence
  gives the token. \<open>now\<close> is the value of \<open>db_now_ms()\<close> in the \<open>UPDATE\<close>.
\<close>

definition issue_fence :: "int \<Rightarrow> db \<Rightarrow> (int \<times> int) \<times> db" where
  "issue_fence now d =
     (let ms = max now (fence_clock d + 1); f = fence_seq d + 1
      in ((f, ms), d\<lparr>fence_clock := ms, fence_seq := f\<rparr>))"

definition insert_job :: "job_row \<Rightarrow> db \<Rightarrow> db" where
  "insert_job r d = d\<lparr>jobs := jobs d @ [r]\<rparr>"

text \<open>\<open>UPDATE jobs SET state = s, updated_at = now() WHERE job_id = j\<close>.\<close>

definition set_job_state :: "uuid \<Rightarrow> jstate \<Rightarrow> int \<Rightarrow> db \<Rightarrow> db" where
  "set_job_state j s t d =
     d\<lparr>jobs := upd_where (\<lambda>r. j_id r = j) (\<lambda>r. r\<lparr>j_state := s, j_updated := t\<rparr>) (jobs d)\<rparr>"

text \<open>\<open>UPDATE jobs SET result = res, state = 'succeeded', updated_at = now() WHERE job_id = j\<close>.\<close>

definition succeed_job :: "uuid \<Rightarrow> json \<Rightarrow> int \<Rightarrow> db \<Rightarrow> db" where
  "succeed_job j res t d =
     d\<lparr>jobs := upd_where (\<lambda>r. j_id r = j)
        (\<lambda>r. r\<lparr>j_result := Some res, j_state := Succeeded, j_updated := t\<rparr>) (jobs d)\<rparr>"

definition insert_lease :: "uuid \<Rightarrow> int \<Rightarrow> string \<Rightarrow> int \<Rightarrow> int \<Rightarrow> db \<Rightarrow> db" where
  "insert_lease j f w iss expr d =
     d\<lparr>ls_seq := ls_seq d + 1,
       leases := leases d @ [\<lparr>l_id = ls_seq d + 1, l_job = j, l_fence = f, l_worker = w,
                              l_issued = iss, l_expires = expr, l_expired = None\<rparr>]\<rparr>"

text \<open>\<open>UPDATE leases SET expired_at_ms = t WHERE id = lid\<close>.\<close>

definition expire_lease :: "int \<Rightarrow> int \<Rightarrow> db \<Rightarrow> db" where
  "expire_lease lid t d =
     d\<lparr>leases := upd_where (\<lambda>l. l_id l = lid) (\<lambda>l. l\<lparr>l_expired := Some t\<rparr>) (leases d)\<rparr>"

definition insert_commit :: "uuid \<Rightarrow> int \<Rightarrow> string \<Rightarrow> bool \<Rightarrow> int \<Rightarrow> db \<Rightarrow> db" where
  "insert_commit j f w acc t d =
     d\<lparr>cm_seq := cm_seq d + 1,
       commits := commits d @ [\<lparr>c_id = cm_seq d + 1, c_job = j, c_fence = f, c_worker = w,
                                c_accepted = acc, c_at = t\<rparr>]\<rparr>"

text \<open>\<open>record_transition\<close> of \<open>app.py\<close>: the one writer of the transition log.\<close>

definition record_transition ::
    "uuid \<Rightarrow> jstate option \<Rightarrow> jstate \<Rightarrow> string \<Rightarrow> int \<Rightarrow> db \<Rightarrow> db" where
  "record_transition j fr to coord t d =
     d\<lparr>tr_seq := tr_seq d + 1,
       transitions := transitions d @ [\<lparr>t_id = tr_seq d + 1, t_job = j, t_from = fr, t_to = to,
                                        t_at = t, t_coord = coord\<rparr>]\<rparr>"

lemmas statement_defs =
  insert_job_def set_job_state_def succeed_job_def insert_lease_def expire_lease_def
  insert_commit_def record_transition_def

end
