(* ===== verification/Store.thy ===== *)
theory Store
  imports Schema
begin

text \<open>
  The correctness of the schema: how every statement acts on what the other components look
  up, and the invariants of the database that the transactions of the coordinator keep. The
  invariants are split so that each transaction is checked against each of them separately:
  \<^item> \<open>core_inv\<close> holds however the transactions interleave: unique keys, joint monotonicity of
    fences and issue times, at most one accepted commit per job, a job is succeeded exactly
    when it has an accepted commit, and only a leased (or already succeeded) job has a live
    lease, which is then its latest;
  \<^item> \<open>hist_inv\<close> needs the commit handler to run without interleaving: the accepted fence is the
    latest one and the transition log replays to the present state.
\<close>

section \<open>Observers after a statement\<close>

lemma job_state_simps [simp]:
  "job_state k (d\<lparr>leases := ls\<rparr>) = job_state k d"
  "job_state k (d\<lparr>commits := cs\<rparr>) = job_state k d"
  "job_state k (d\<lparr>transitions := ts\<rparr>) = job_state k d"
  "job_state k (d\<lparr>fence_seq := n\<rparr>) = job_state k d"
  "job_state k (d\<lparr>fence_clock := n\<rparr>) = job_state k d"
  "job_state k (d\<lparr>tr_seq := n\<rparr>) = job_state k d"
  "job_state k (d\<lparr>ls_seq := n\<rparr>) = job_state k d"
  "job_state k (d\<lparr>cm_seq := n\<rparr>) = job_state k d"
  by (simp_all add: job_state_def find_job_def)

lemma accepted_fence_simps [simp]:
  "accepted_fence k (d\<lparr>leases := ls\<rparr>) = accepted_fence k d"
  "accepted_fence k (d\<lparr>jobs := js\<rparr>) = accepted_fence k d"
  "accepted_fence k (d\<lparr>transitions := ts\<rparr>) = accepted_fence k d"
  "accepted_fence k (d\<lparr>fence_seq := n\<rparr>) = accepted_fence k d"
  "accepted_fence k (d\<lparr>fence_clock := n\<rparr>) = accepted_fence k d"
  "accepted_fence k (d\<lparr>tr_seq := n\<rparr>) = accepted_fence k d"
  "accepted_fence k (d\<lparr>ls_seq := n\<rparr>) = accepted_fence k d"
  "accepted_fence k (d\<lparr>cm_seq := n\<rparr>) = accepted_fence k d"
  by (simp_all add: accepted_fence_def)

lemma job_log_simps [simp]:
  "job_log k (d\<lparr>leases := ls\<rparr>) = job_log k d"
  "job_log k (d\<lparr>jobs := js\<rparr>) = job_log k d"
  "job_log k (d\<lparr>commits := cs\<rparr>) = job_log k d"
  "job_log k (d\<lparr>fence_seq := n\<rparr>) = job_log k d"
  "job_log k (d\<lparr>fence_clock := n\<rparr>) = job_log k d"
  "job_log k (d\<lparr>tr_seq := n\<rparr>) = job_log k d"
  "job_log k (d\<lparr>ls_seq := n\<rparr>) = job_log k d"
  "job_log k (d\<lparr>cm_seq := n\<rparr>) = job_log k d"
  by (simp_all add: job_log_def)

lemma state_insert_job [row_simps]:
  "job_state k (insert_job r d) =
     (case job_state k d of None \<Rightarrow> if j_id r = k then Some (j_state r) else None | Some s \<Rightarrow> Some s)"
  by (auto simp: insert_job_def job_state_def find_job_def find_append split: option.splits)

lemma find_job_update:
  assumes "\<And>r. j_id (f r) = j_id r"
  shows "find_job k (d\<lparr>jobs := upd_where (\<lambda>r. j_id r = j) f (jobs d)\<rparr>) =
    map_option (\<lambda>r. if k = j then f r else r) (find_job k d)"
proof -
  have "find_job k (d\<lparr>jobs := upd_where (\<lambda>r. j_id r = j) f (jobs d)\<rparr>) =
    map_option (\<lambda>r. if j_id r = j then f r else r) (find_job k d)"
    by (simp add: find_job_def find_upd_where assms)
  also have "\<dots> = map_option (\<lambda>r. if k = j then f r else r) (find_job k d)"
    by (cases "find_job k d") (auto simp: find_job_def dest: find_Some_mem)
  finally show ?thesis .
qed

lemma state_set_job_state [row_simps]:
  "job_state k (set_job_state j s t d) = (if k = j \<and> job_state j d \<noteq> None then Some s else job_state k d)"
  by (cases "find_job k d") (auto simp: job_state_def set_job_state_def find_job_update)

lemma state_succeed_job [row_simps]:
  "job_state k (succeed_job j res t d) =
     (if k = j \<and> job_state j d \<noteq> None then Some Succeeded else job_state k d)"
  by (cases "find_job k d") (auto simp: job_state_def succeed_job_def find_job_update)

lemma accepted_insert_commit [row_simps]:
  "accepted_fence k (insert_commit j f w acc t d) =
     (case accepted_fence k d of None \<Rightarrow> if acc \<and> k = j then Some f else None | Some g \<Rightarrow> Some g)"
  by (auto simp: insert_commit_def accepted_fence_def find_append split: option.splits)

lemma log_record_transition [row_simps]:
  "job_log k (record_transition j fr to co t d) =
     (if k = j then job_log k d @ [(fr, to)] else job_log k d)"
  by (simp add: record_transition_def job_log_def)

lemma statement_frames [frame_simps]:
  "accepted_fence k (insert_job r d) = accepted_fence k d"
  "accepted_fence k (set_job_state j s t d) = accepted_fence k d"
  "accepted_fence k (succeed_job j res t d) = accepted_fence k d"
  "accepted_fence k (insert_lease j f w a b d) = accepted_fence k d"
  "accepted_fence k (expire_lease lid t d) = accepted_fence k d"
  "accepted_fence k (record_transition j fr to co t d) = accepted_fence k d"
  "job_state k (insert_lease j f w a b d) = job_state k d"
  "job_state k (expire_lease lid t d) = job_state k d"
  "job_state k (insert_commit j f w acc t d) = job_state k d"
  "job_state k (record_transition j fr to co t d) = job_state k d"
  "job_log k (insert_job r d) = job_log k d"
  "job_log k (set_job_state j s t d) = job_log k d"
  "job_log k (succeed_job j res t d) = job_log k d"
  "job_log k (insert_lease j f w a b d) = job_log k d"
  "job_log k (expire_lease lid t d) = job_log k d"
  "job_log k (insert_commit j f w acc t d) = job_log k d"
  by (simp_all add: statement_defs)

lemma statement_fields [frame_simps]:
  "leases (insert_job r d) = leases d" "leases (set_job_state j s t d) = leases d"
  "leases (succeed_job j res t d) = leases d" "leases (insert_commit j f w acc t d) = leases d"
  "leases (record_transition j fr to co t d) = leases d"
  "commits (insert_job r d) = commits d" "commits (set_job_state j s t d) = commits d"
  "commits (succeed_job j res t d) = commits d" "commits (insert_lease j f w a b d) = commits d"
  "commits (expire_lease lid t d) = commits d"
  "commits (record_transition j fr to co t d) = commits d"
  "jobs (insert_lease j f w a b d) = jobs d" "jobs (expire_lease lid t d) = jobs d"
  "jobs (insert_commit j f w acc t d) = jobs d" "jobs (record_transition j fr to co t d) = jobs d"
  "transitions (insert_job r d) = transitions d" "transitions (set_job_state j s t d) = transitions d"
  "transitions (succeed_job j res t d) = transitions d"
  "transitions (insert_commit j f w acc t d) = transitions d"
  "transitions (insert_lease j f w a b d) = transitions d"
  "transitions (expire_lease lid t d) = transitions d"
  by (simp_all add: statement_defs)

lemma max_fence_frames [frame_simps]:
  "max_fence k (insert_job r d) = max_fence k d" "max_fence k (set_job_state j s t d) = max_fence k d"
  "max_fence k (succeed_job j res t d) = max_fence k d"
  "max_fence k (insert_commit j f w acc t d) = max_fence k d"
  "max_fence k (record_transition j fr to co t d) = max_fence k d"
  by (simp_all add: max_fence_def latest_lease_def job_leases_def statement_fields)

lemma accepted_fence_None_iff:
  "accepted_fence j d = None \<longleftrightarrow> (\<forall>c \<in> set (commits d). \<not> (c_job c = j \<and> c_accepted c))"
  by (auto simp: accepted_fence_def find_None_iff)

lemma latest_lease_mem: "latest_lease j d = Some l \<Longrightarrow> l \<in> set (leases d) \<and> l_job l = j"
  unfolding latest_lease_def job_leases_def by (drule first_by_in) simp

lemma latest_lease_greatest:
  "latest_lease j d = Some l \<Longrightarrow> l' \<in> set (leases d) \<Longrightarrow> l_job l' = j \<Longrightarrow> l_fence l' \<le> l_fence l"
  unfolding latest_lease_def job_leases_def by (drule first_by_least [where y = l']) auto

lemma latest_lease_ex: "l \<in> set (leases d) \<Longrightarrow> \<exists>l'. latest_lease (l_job l) d = Some l'"
  unfolding latest_lease_def job_leases_def by (rule first_by_ex) (auto simp: filter_empty_conv)

lemma max_fence_iff:
  "max_fence j d = Some f \<longleftrightarrow>
     (\<exists>l \<in> set (leases d). l_job l = j \<and> l_fence l = f) \<and>
     (\<forall>l \<in> set (leases d). l_job l = j \<longrightarrow> l_fence l \<le> f)"
proof
  assume "max_fence j d = Some f"
  then obtain l where "latest_lease j d = Some l" "l_fence l = f"
    by (auto simp: max_fence_def)
  then show "(\<exists>l \<in> set (leases d). l_job l = j \<and> l_fence l = f) \<and>
     (\<forall>l \<in> set (leases d). l_job l = j \<longrightarrow> l_fence l \<le> f)"
    using latest_lease_mem latest_lease_greatest by blast
next
  assume r: "(\<exists>l \<in> set (leases d). l_job l = j \<and> l_fence l = f) \<and>
     (\<forall>l \<in> set (leases d). l_job l = j \<longrightarrow> l_fence l \<le> f)"
  then obtain l where l: "l \<in> set (leases d)" "l_job l = j" "l_fence l = f" by blast
  then obtain l' where l': "latest_lease j d = Some l'" using latest_lease_ex by blast
  have "l_fence l' = f"
    using r l latest_lease_mem [OF l'] latest_lease_greatest [OF l' l(1,2)] by fastforce
  then show "max_fence j d = Some f" using l' by (simp add: max_fence_def)
qed

lemma max_fence_expire [frame_simps]: "max_fence k (expire_lease lid t d) = max_fence k d"
proof -
  have "max_fence k (expire_lease lid t d) = Some f \<longleftrightarrow> max_fence k d = Some f" for f
    by (simp add: max_fence_iff expire_lease_def ball_upd_same bex_upd_same)
  then show ?thesis by (metis not_None_eq)
qed

section \<open>The fence source\<close>

text \<open>
  What the rest of the system relies on: every issue returns a token and a time strictly above
  all that were issued before, whatever the clock says.
\<close>

locale fence_source =
  fixes issue :: "int \<Rightarrow> 's \<Rightarrow> (int \<times> int) \<times> 's"
    and last_fence :: "'s \<Rightarrow> int"
    and last_time :: "'s \<Rightarrow> int"
  assumes issue_fresh: "issue now s = ((f, ms), s') \<Longrightarrow> last_fence s < f \<and> last_time s < ms"
    and issue_last: "issue now s = ((f, ms), s') \<Longrightarrow> last_fence s' = f \<and> last_time s' = ms"
    and issue_now: "issue now s = ((f, ms), s') \<Longrightarrow> now \<le> ms"
begin

fun issue_all :: "int list \<Rightarrow> 's \<Rightarrow> (int \<times> int) list" where
  "issue_all [] s = []"
| "issue_all (now # nows) s = (let (p, s') = issue now s in p # issue_all nows s')"

lemma issue_all_above:
  "(f, ms) \<in> set (issue_all nows s) \<Longrightarrow> last_fence s < f \<and> last_time s < ms"
proof (induction nows arbitrary: s)
  case Nil
  then show ?case by simp
next
  case (Cons now nows)
  obtain f' ms' s' where i: "issue now s = ((f', ms'), s')" by (metis surj_pair)
  note fresh = issue_fresh [OF i] issue_last [OF i]
  from Cons.prems i have "(f, ms) = (f', ms') \<or> (f, ms) \<in> set (issue_all nows s')" by simp
  then show ?case using Cons.IH [of s'] fresh by auto
qed

lemma issue_all_increasing:
  "sorted_wrt (\<lambda>p q. fst p < fst q \<and> snd p < snd q) (issue_all nows s)"
proof (induction nows arbitrary: s)
  case Nil
  then show ?case by simp
next
  case (Cons now nows)
  obtain f ms s' where i: "issue now s = ((f, ms), s')" by (metis surj_pair)
  have "\<forall>q \<in> set (issue_all nows s'). f < fst q \<and> ms < snd q"
    using issue_all_above issue_last [OF i] by (metis prod.collapse)
  then show ?case using i Cons.IH [of s'] by simp
qed

lemma issue_all_length: "length (issue_all nows s) = length nows"
  by (induction nows arbitrary: s) (auto split: prod.splits)

end

interpretation fsrc: fence_source issue_fence fence_seq fence_clock
  by unfold_locales (auto simp: issue_fence_def Let_def)

section \<open>Invariants\<close>

definition keys_ok :: "db \<Rightarrow> bool" where
  "keys_ok d \<longleftrightarrow> distinct (map j_id (jobs d)) \<and> distinct (map j_key (jobs d))"

definition fences_ok :: "db \<Rightarrow> bool" where
  "fences_ok d \<longleftrightarrow>
     sorted_wrt (<) (map l_fence (leases d)) \<and> sorted_wrt (<) (map l_issued (leases d)) \<and>
     (\<forall>l \<in> set (leases d). l_fence l \<le> fence_seq d \<and> l_issued l \<le> fence_clock d)"

definition ids_ok :: "db \<Rightarrow> bool" where
  "ids_ok d \<longleftrightarrow>
     sorted_wrt (<) (map l_id (leases d)) \<and> (\<forall>l \<in> set (leases d). l_id l \<le> ls_seq d) \<and>
     sorted_wrt (<) (map t_id (transitions d)) \<and> (\<forall>t \<in> set (transitions d). t_id t \<le> tr_seq d) \<and>
     sorted_wrt (<) (map c_id (commits d)) \<and> (\<forall>c \<in> set (commits d). c_id c \<le> cm_seq d)"

definition one_accept :: "db \<Rightarrow> bool" where
  "one_accept d \<longleftrightarrow>
     sorted_wrt (\<lambda>a b. \<not> (c_accepted a \<and> c_accepted b \<and> c_job a = c_job b)) (commits d)"

definition status_ok :: "db \<Rightarrow> bool" where
  "status_ok d \<longleftrightarrow>
     (\<forall>j. job_state j d = Some Succeeded \<longleftrightarrow> accepted_fence j d \<noteq> None) \<and>
     (\<forall>j. job_state j d \<noteq> Some Failed)"

definition live_ok :: "db \<Rightarrow> bool" where
  "live_ok d \<longleftrightarrow>
     (\<forall>l \<in> set (leases d). job_state (l_job l) d \<noteq> None) \<and>
     (\<forall>l \<in> set (leases d). l_expired l = None \<longrightarrow>
        job_state (l_job l) d \<in> {Some Leased, Some Succeeded} \<and>
        (\<forall>l' \<in> set (leases d). l_job l' = l_job l \<longrightarrow> l_fence l' \<le> l_fence l)) \<and>
     (\<forall>j. job_state j d = Some Leased \<longrightarrow>
        (\<exists>l \<in> set (leases d). l_job l = j \<and> l_expired l = None))"

definition core_inv :: "db \<Rightarrow> bool" where
  "core_inv d \<longleftrightarrow>
     keys_ok d \<and> fences_ok d \<and> ids_ok d \<and> one_accept d \<and> status_ok d \<and> live_ok d"

lemmas core_defs =
  keys_ok_def fences_ok_def ids_ok_def one_accept_def status_ok_def live_ok_def

lemma core_invI:
  "keys_ok d \<Longrightarrow> fences_ok d \<Longrightarrow> ids_ok d \<Longrightarrow> one_accept d \<Longrightarrow> status_ok d \<Longrightarrow> live_ok d \<Longrightarrow> core_inv d"
  by (simp add: core_inv_def)

lemma core_invD:
  assumes "core_inv d"
  shows "keys_ok d" "fences_ok d" "ids_ok d" "one_accept d" "status_ok d" "live_ok d"
  using assms by (simp_all add: core_inv_def)

text \<open>The life of a job, as the handlers mean it to be.\<close>

fun legal_edge :: "jstate option \<Rightarrow> jstate \<Rightarrow> bool" where
  "legal_edge None Pending = True"
| "legal_edge (Some Pending) Leased = True"
| "legal_edge (Some Pending) Cancelled = True"
| "legal_edge (Some Leased) Pending = True"
| "legal_edge (Some Leased) Succeeded = True"
| "legal_edge _ _ = False"

text \<open>Replaying a log: every row must start where the previous one ended.\<close>

fun replay :: "jstate option \<Rightarrow> (jstate option \<times> jstate) list \<Rightarrow> jstate option option" where
  "replay s [] = Some s"
| "replay s ((a, b) # es) = (if a = s \<and> legal_edge a b then replay (Some b) es else None)"

lemma replay_snoc [simp]:
  "replay s (es @ [(a, b)]) =
     (case replay s es of
        None \<Rightarrow> None
      | Some s' \<Rightarrow> if a = s' \<and> legal_edge a b then Some (Some b) else None)"
  by (induction s es rule: replay.induct) (auto split: option.splits)

definition latest_accepted :: "db \<Rightarrow> bool" where
  "latest_accepted d \<longleftrightarrow> (\<forall>j f. accepted_fence j d = Some f \<longrightarrow> max_fence j d = Some f)"

definition log_ok :: "db \<Rightarrow> bool" where
  "log_ok d \<longleftrightarrow> (\<forall>j. replay None (job_log j d) = Some (job_state j d))"

definition hist_inv :: "db \<Rightarrow> bool" where
  "hist_inv d \<longleftrightarrow> latest_accepted d \<and> log_ok d"

lemma core_inv_empty: "core_inv empty_db"
  by (simp add: core_inv_def core_defs empty_db_def job_state_def find_job_def accepted_fence_def)

lemma hist_inv_empty: "hist_inv empty_db"
  by (simp add: hist_inv_def latest_accepted_def log_ok_def empty_db_def accepted_fence_def
      job_log_def job_state_def find_job_def)

text \<open>Consequences that the transactions use.\<close>

lemma live_lease_state:
  "core_inv d \<Longrightarrow> l \<in> set (leases d) \<Longrightarrow> l_expired l = None \<Longrightarrow>
     job_state (l_job l) d = Some Leased \<or> job_state (l_job l) d = Some Succeeded"
  by (auto simp: core_inv_def live_ok_def)

lemma live_lease_latest:
  "core_inv d \<Longrightarrow> l \<in> set (leases d) \<Longrightarrow> l_expired l = None \<Longrightarrow> max_fence (l_job l) d = Some (l_fence l)"
  by (auto simp: core_inv_def live_ok_def max_fence_iff)

lemma succeeded_iff_accepted:
  "core_inv d \<Longrightarrow> job_state j d = Some Succeeded \<longleftrightarrow> (\<exists>f. accepted_fence j d = Some f)"
  by (simp add: core_inv_def status_ok_def)

lemma not_succeeded_not_accepted:
  "status_ok d \<Longrightarrow> job_state j d \<noteq> Some Succeeded \<Longrightarrow> accepted_fence j d = None"
  by (auto simp: status_ok_def)

lemma lease_unique_fence:
  "core_inv d \<Longrightarrow> l \<in> set (leases d) \<Longrightarrow> l' \<in> set (leases d) \<Longrightarrow> l_fence l = l_fence l' \<Longrightarrow> l = l'"
  by (auto simp: core_inv_def fences_ok_def dest: sorted_wrt_less_distinct distinct_map_eq)

lemma lease_unique_id:
  "core_inv d \<Longrightarrow> l \<in> set (leases d) \<Longrightarrow> l' \<in> set (leases d) \<Longrightarrow> l_id l = l_id l' \<Longrightarrow> l = l'"
  by (auto simp: core_inv_def ids_ok_def dest: sorted_wrt_less_distinct distinct_map_eq)

lemma job_state_of_row: "keys_ok d \<Longrightarrow> r \<in> set (jobs d) \<Longrightarrow> job_state (j_id r) d = Some (j_state r)"
  by (simp add: keys_ok_def job_state_def find_job_def find_distinct)

lemma job_row_of_state:
  "job_state j d = Some s \<Longrightarrow> \<exists>r \<in> set (jobs d). j_id r = j \<and> j_state r = s"
  by (auto simp: job_state_def find_job_def dest!: find_Some_mem)

lemma accepted_rows:
  assumes "one_accept d"
  shows "length (filter (\<lambda>c. c_job c = j \<and> c_accepted c) (commits d)) =
    (if accepted_fence j d = None then 0 else 1)"
proof -
  let ?P = "\<lambda>c. c_job c = j \<and> c_accepted c"
  have count: "length (filter ?P cs) = (if find ?P cs = None then 0 else 1)"
    if "sorted_wrt (\<lambda>a b. \<not> (c_accepted a \<and> c_accepted b \<and> c_job a = c_job b)) cs" for cs
    using that
  proof (induction cs)
    case (Cons c cs)
    show ?case
    proof (cases "?P c")
      case True
      then have "filter ?P cs = []" using Cons.prems by (auto simp: filter_empty_conv)
      then show ?thesis using True by simp
    qed (use Cons in auto)
  qed simp
  show ?thesis
    using count [OF assms [unfolded one_accept_def]] by (simp only: accepted_fence_def option.map_disc_iff)
qed

section \<open>One job changes its state\<close>

text \<open>Every transaction changes the state of at most one job; what that leaves to check.\<close>

lemma status_ok_upd:
  assumes "status_ok d"
    and "\<And>k. job_state k d' = (if k = j then s else job_state k d)"
    and "\<And>k. accepted_fence k d' = (if k = j then a else accepted_fence k d)"
    and "s = Some Succeeded \<longleftrightarrow> a \<noteq> None" and "s \<noteq> Some Failed"
  shows "status_ok d'"
  using assms by (simp add: status_ok_def)

lemma log_ok_upd:
  assumes "log_ok d"
    and "\<And>k. job_state k d' = (if k = j then Some s else job_state k d)"
    and "\<And>k. job_log k d' = (if k = j then job_log j d @ [(job_state j d, s)] else job_log k d)"
    and "legal_edge (job_state j d) s"
  shows "log_ok d'"
  using assms by (simp add: log_ok_def)

lemma live_ok_upd:
  assumes "live_ok d" and "leases d' = leases d"
    and "\<And>k. job_state k d' = (if k = j then Some s else job_state k d)"
    and "s = Succeeded \<or> s \<noteq> Leased \<and> (\<forall>l \<in> set (leases d). l_job l = j \<longrightarrow> l_expired l \<noteq> None)"
  shows "live_ok d'"
  using assms by (auto simp: live_ok_def)

lemma not_leased_no_live:
  assumes "live_ok d" and "job_state j d \<noteq> Some Leased" and "job_state j d \<noteq> Some Succeeded"
  shows "\<forall>l \<in> set (leases d). l_job l = j \<longrightarrow> l_expired l \<noteq> None"
  using assms by (auto simp: live_ok_def)

end
