(* ===== verification/Coordinator.thy ===== *)
theory Coordinator
  imports Store
begin

text \<open>
  One coordinator process: the partition gate of \<open>coordinator/db.py\<close>, the worker connections
  and the registry of \<open>coordinator/ws.py\<close>, and the process state that \<open>make_app\<close> of
  \<open>coordinator/app.py\<close> sets up. Connections are mutable objects that the registry and the
  connection's own handler share, so they live in a store indexed by address.
\<close>

section \<open>What the environment supplies\<close>

text \<open>
  The answers a handler gets from outside while it runs: \<open>e_ms n\<close> is the value of the
  \<open>n\<close>-th \<open>db_now_ms()\<close> of the transaction, \<open>e_now\<close> its \<open>now()\<close>, \<open>e_mono\<close> is
  \<open>time.monotonic() * 1000\<close> (whole milliseconds), \<open>e_sec\<close> is \<open>int(time.time())\<close>,
  \<open>e_locked\<close> the job rows that other open transactions hold locked, \<open>e_fresh\<close> the next
  \<open>gen_random_uuid()\<close>, \<open>e_send\<close> whether the WebSocket send goes through, \<open>e_redis n\<close> whether
  the \<open>n\<close>-th Redis call does. \<open>e_uuid\<close> is the driver's reading of a text as a uuid (\<open>None\<close>
  when it refuses it), \<open>e_text\<close> the text the driver returns for a \<open>jsonb\<close> value and \<open>e_loads\<close>
  the reading of a JSON text.
\<close>

record env =
  e_ms :: "nat \<Rightarrow> int"
  e_now :: int
  e_mono :: int
  e_sec :: int
  e_locked :: "uuid list"
  e_fresh :: uuid
  e_send :: bool
  e_redis :: "nat \<Rightarrow> bool"
  e_uuid :: "string \<Rightarrow> uuid option"
  e_text :: "json \<Rightarrow> string"
  e_loads :: "string \<Rightarrow> json option"

text \<open>An environment with a steady clock, for concrete runs.\<close>

definition env_at :: "int \<Rightarrow> uuid \<Rightarrow> env" where
  "env_at t j = \<lparr>e_ms = (\<lambda>_. t), e_now = t, e_mono = t, e_sec = t div 1000, e_locked = [],
     e_fresh = j, e_send = True, e_redis = (\<lambda>_. True), e_uuid = Some, e_text = (\<lambda>_. []),
     e_loads = (\<lambda>_. None)\<rparr>"

lemma env_at_simps [simp]:
  "e_ms (env_at t j) n = t" "e_now (env_at t j) = t" "e_mono (env_at t j) = t"
  "e_sec (env_at t j) = t div 1000" "e_locked (env_at t j) = []" "e_fresh (env_at t j) = j"
  "e_send (env_at t j)" "e_redis (env_at t j) n" "e_uuid (env_at t j) s = Some s"
  "e_text (env_at t j) v = []" "e_loads (env_at t j) s = None"
  by (simp_all add: env_at_def)

section \<open>Worker connections\<close>

text \<open>The frames a coordinator sends to a worker.\<close>

datatype frame =
    FDispatch string json int
  | FAck string
  | FRejected string
  | FSetConcurrency json

text \<open>\<open>ConnState\<close>; \<open>w_sent\<close> records the frames its \<open>ws\<close> has carried.\<close>

record conn =
  w_id :: string
  w_limit :: int
  w_inflight :: "string list"
  w_sent :: "frame list"

definition has_capacity :: "conn \<Rightarrow> bool" where
  "has_capacity s \<longleftrightarrow> int (length (w_inflight s)) < w_limit s"

definition new_conn :: "string \<Rightarrow> int \<Rightarrow> conn" where
  "new_conn wid n = \<lparr>w_id = wid, w_limit = n, w_inflight = [], w_sent = []\<rparr>"

section \<open>The process\<close>

text \<open>Commands issued to Redis, in order.\<close>

datatype redis_cmd =
    IncrBy string int
  | Expire string int
  | Publish string json

record coord =
  co_id :: string
  co_ttl :: int
  co_pool :: bool
  co_part_until :: int
  co_paused_until :: int
  co_drop_acks :: int
  co_skew :: int
  co_wake :: bool
  co_max_late :: int
  co_conns :: "nat \<Rightarrow> conn"
  co_next :: nat
  co_reg :: "(string \<times> nat) list"
  co_mem :: "(string \<times> (int \<times> int) list) list"
  co_redis :: "redis_cmd list"

text \<open>
  The process after \<open>make_app\<close> and \<open>on_startup\<close>: pool connected, no fault, no worker. The event
  names are those \<open>RateCounters\<close> starts its in-memory buffers with.
\<close>

definition boot :: "string \<Rightarrow> int \<Rightarrow> coord" where
  "boot cid ttl = \<lparr>co_id = cid, co_ttl = ttl, co_pool = True, co_part_until = 0,
     co_paused_until = 0, co_drop_acks = 0, co_skew = 0, co_wake = False, co_max_late = 0,
     co_conns = (\<lambda>_. new_conn [] 0), co_next = 0, co_reg = [],
     co_mem = [(''submitted'', []), (''completed'', []), (''failed'', [])], co_redis = []\<rparr>"

definition upd_conn :: "nat \<Rightarrow> (conn \<Rightarrow> conn) \<Rightarrow> coord \<Rightarrow> coord" where
  "upd_conn a f co = co\<lparr>co_conns := (co_conns co)(a := f (co_conns co a))\<rparr>"

text \<open>\<open>await state.ws.send_json(msg)\<close>: the frame is carried, or the call raises.\<close>

definition ws_send :: "bool \<Rightarrow> nat \<Rightarrow> frame \<Rightarrow> coord \<Rightarrow> coord" where
  "ws_send ok a fr co = (if ok then upd_conn a (\<lambda>s. s\<lparr>w_sent := w_sent s @ [fr]\<rparr>) co else co)"

text \<open>\<open>await redis.publish(channel, msg)\<close>, best effort.\<close>

definition publish :: "bool \<Rightarrow> string \<Rightarrow> json \<Rightarrow> coord \<Rightarrow> coord" where
  "publish ok ch msg co = (if ok then co\<lparr>co_redis := co_redis co @ [Publish ch msg]\<rparr> else co)"

section \<open>The registry\<close>

definition reg_add :: "nat \<Rightarrow> coord \<Rightarrow> coord" where
  "reg_add a co = co\<lparr>co_reg := AList.update (w_id (co_conns co a)) a (co_reg co)\<rparr>"

definition reg_remove :: "string \<Rightarrow> coord \<Rightarrow> coord" where
  "reg_remove wid co = co\<lparr>co_reg := AList.delete wid (co_reg co)\<rparr>"

definition reg_get :: "string \<Rightarrow> coord \<Rightarrow> nat option" where
  "reg_get wid co = map_of (co_reg co) wid"

definition reg_all :: "coord \<Rightarrow> nat list" where
  "reg_all co = map snd (co_reg co)"

definition reg_len :: "coord \<Rightarrow> nat" where
  "reg_len co = length (co_reg co)"

definition reg_ok :: "coord \<Rightarrow> bool" where
  "reg_ok co \<longleftrightarrow> distinct (map fst (co_reg co)) \<and>
     (\<forall>(wid, a) \<in> set (co_reg co). a < co_next co \<and> w_id (co_conns co a) = wid)"

section \<open>The partition gate\<close>

definition is_partitioned :: "int \<Rightarrow> coord \<Rightarrow> bool" where
  "is_partitioned mt co \<longleftrightarrow> mt < co_part_until co"

definition partition_db :: "int \<Rightarrow> int \<Rightarrow> coord \<Rightarrow> coord" where
  "partition_db mt ms co = co\<lparr>co_part_until := mt + ms\<rparr>"

text \<open>\<open>_gate\<close>: the exception it raises, if any.\<close>

definition gate :: "int \<Rightarrow> coord \<Rightarrow> exn option" where
  "gate mt co =
     (if \<not> co_pool co then Some PoolNotConnected
      else if is_partitioned mt co then Some DBPartitioned
      else None)"

text \<open>
  \<open>transaction()\<close>: gated once at entry, then the body runs; an exception of the body rolls the
  tables back, but not the sequences.
\<close>

definition roll_back :: "db \<Rightarrow> db \<Rightarrow> db" where
  "roll_back d d' = d\<lparr>fence_seq := fence_seq d', tr_seq := tr_seq d', ls_seq := ls_seq d',
     cm_seq := cm_seq d'\<rparr>"

definition transaction ::
    "int \<Rightarrow> coord \<Rightarrow> (db \<Rightarrow> (exn + 'a) \<times> db) \<Rightarrow> db \<Rightarrow> (exn + 'a) \<times> db" where
  "transaction mt co body d =
     (case gate mt co of
        Some e \<Rightarrow> (Inl e, d)
      | None \<Rightarrow>
          (case body d of
             (Inl e, d') \<Rightarrow> (Inl e, roll_back d d')
           | (Inr x, d') \<Rightarrow> (Inr x, d')))"

text \<open>\<open>fetch\<close>, \<open>fetchrow\<close>, \<open>fetchval\<close>: a gated read.\<close>

definition fetch :: "int \<Rightarrow> coord \<Rightarrow> (db \<Rightarrow> exn + 'a) \<Rightarrow> db \<Rightarrow> exn + 'a" where
  "fetch mt co q d = (case gate mt co of Some e \<Rightarrow> Inl e | None \<Rightarrow> q d)"

text \<open>\<open>$1::uuid\<close>: the driver refuses a text that is not a uuid.\<close>

definition as_uuid :: "env \<Rightarrow> string \<Rightarrow> exn + uuid" where
  "as_uuid e s = (case e_uuid e s of None \<Rightarrow> Inl DataError | Some j \<Rightarrow> Inr j)"

section \<open>Lemmas\<close>

lemma transaction_closed: "gate mt co = Some e \<Longrightarrow> transaction mt co body d = (Inl e, d)"
  by (simp add: transaction_def)

lemma transaction_open:
  "gate mt co = None \<Longrightarrow> transaction mt co body d =
     (case body d of (Inl e, d') \<Rightarrow> (Inl e, roll_back d d') | (Inr x, d') \<Rightarrow> (Inr x, d'))"
  by (simp add: transaction_def)

lemma gate_partitioned: "co_pool co \<Longrightarrow> mt < co_part_until co \<Longrightarrow> gate mt co = Some DBPartitioned"
  by (simp add: gate_def is_partitioned_def)

lemma gate_open: "co_pool co \<Longrightarrow> co_part_until co \<le> mt \<Longrightarrow> gate mt co = None"
  by (simp add: gate_def is_partitioned_def)

lemma upd_conn_fields [simp]:
  "co_id (upd_conn a f co) = co_id co" "co_ttl (upd_conn a f co) = co_ttl co"
  "co_pool (upd_conn a f co) = co_pool co" "co_part_until (upd_conn a f co) = co_part_until co"
  "co_paused_until (upd_conn a f co) = co_paused_until co"
  "co_drop_acks (upd_conn a f co) = co_drop_acks co" "co_reg (upd_conn a f co) = co_reg co"
  "co_next (upd_conn a f co) = co_next co" "co_mem (upd_conn a f co) = co_mem co"
  "co_redis (upd_conn a f co) = co_redis co" "co_wake (upd_conn a f co) = co_wake co"
  "co_conns (upd_conn a f co) = (co_conns co)(a := f (co_conns co a))"
  by (simp_all add: upd_conn_def)

lemma ws_send_fields [simp]:
  "co_id (ws_send ok a fr co) = co_id co" "co_ttl (ws_send ok a fr co) = co_ttl co"
  "co_pool (ws_send ok a fr co) = co_pool co"
  "co_part_until (ws_send ok a fr co) = co_part_until co"
  "co_drop_acks (ws_send ok a fr co) = co_drop_acks co" "co_reg (ws_send ok a fr co) = co_reg co"
  "co_next (ws_send ok a fr co) = co_next co" "co_mem (ws_send ok a fr co) = co_mem co"
  "co_redis (ws_send ok a fr co) = co_redis co"
  by (simp_all add: ws_send_def)

lemma publish_fields [simp]:
  "co_id (publish ok ch m co) = co_id co" "co_ttl (publish ok ch m co) = co_ttl co"
  "co_pool (publish ok ch m co) = co_pool co"
  "co_part_until (publish ok ch m co) = co_part_until co"
  "co_drop_acks (publish ok ch m co) = co_drop_acks co" "co_reg (publish ok ch m co) = co_reg co"
  "co_conns (publish ok ch m co) = co_conns co" "co_next (publish ok ch m co) = co_next co"
  "co_wake (publish ok ch m co) = co_wake co"
  by (simp_all add: publish_def)

lemma boot_gate: "gate mt (boot cid ttl) = (if mt < 0 then Some DBPartitioned else None)"
  by (simp add: gate_def is_partitioned_def boot_def)

lemma boot_reg_ok: "reg_ok (boot cid ttl)"
  by (simp add: reg_ok_def boot_def)

text \<open>A registry keyed by worker id behaves as a dictionary.\<close>

lemma reg_get_add [simp]:
  "reg_get wid (reg_add a co) = (if wid = w_id (co_conns co a) then Some a else reg_get wid co)"
  by (simp add: reg_get_def reg_add_def update_conv')

lemma reg_get_remove [simp]:
  "reg_get wid (reg_remove wid' co) = (if wid = wid' then None else reg_get wid co)"
  by (simp add: reg_get_def reg_remove_def delete_conv')

lemma set_alist_update:
  "distinct (map fst al) \<Longrightarrow> set (AList.update k v al) = insert (k, v) (set (AList.delete k al))"
  by (induction al) (auto simp: image_iff AList.delete_eq filter_id_conv)

lemma reg_ok_add: "reg_ok co \<Longrightarrow> a < co_next co \<Longrightarrow> reg_ok (reg_add a co)"
  by (auto simp: reg_ok_def reg_add_def set_alist_update distinct_update AList.delete_eq)

lemma reg_ok_remove: "reg_ok co \<Longrightarrow> reg_ok (reg_remove wid co)"
  by (auto simp: reg_ok_def reg_remove_def AList.delete_eq distinct_map_filter)

lemma reg_ok_upd_conn:
  "reg_ok co \<Longrightarrow> (\<And>s. w_id (f s) = w_id s) \<Longrightarrow> reg_ok (upd_conn a f co)"
  by (auto simp: reg_ok_def)

end
