(* ===== verification/Rates.thy ===== *)
theory Rates
  imports Coordinator
begin

text \<open>
  The rolling counters of \<open>coordinator/stats.py\<close> (\<open>RateCounters\<close>): per-second buckets in Redis,
  and the per-process buffers that take over when a Redis call fails.
\<close>

section \<open>Decimal numerals\<close>

definition digit_char :: "nat \<Rightarrow> char" where
  "digit_char n = char_of (48 + n)"

fun nat_str :: "nat \<Rightarrow> string" where
  "nat_str n = (if n < 10 then [digit_char n] else nat_str (n div 10) @ [digit_char (n mod 10)])"

declare nat_str.simps [simp del]

definition int_str :: "int \<Rightarrow> string" where
  "int_str i = (if i < 0 then CHR ''-'' # nat_str (nat (- i)) else nat_str (nat i))"

section \<open>Counters\<close>

definition bucket_ttl :: int where "bucket_ttl = 90"

definition window_s :: int where "window_s = 60"

definition events :: "string list" where
  "events = [''submitted'', ''completed'', ''failed'']"

definition bucket_key :: "string \<Rightarrow> int \<Rightarrow> string" where
  "bucket_key ev sec = ''stats:'' @ ev @ '':'' @ int_str sec"

text \<open>\<open>self._mem[event]\<close>.\<close>

definition mem_of :: "string \<Rightarrow> coord \<Rightarrow> (int \<times> int) list" where
  "mem_of ev co = (case map_of (co_mem co) ev of None \<Rightarrow> [] | Some b \<Rightarrow> b)"

definition mem_add :: "string \<Rightarrow> int \<Rightarrow> int \<Rightarrow> coord \<Rightarrow> coord" where
  "mem_add ev sec n co =
     (let buf = mem_of ev co; old = (case map_of buf sec of None \<Rightarrow> 0 | Some c \<Rightarrow> c)
      in co\<lparr>co_mem := AList.update ev (AList.update sec (old + n) buf) (co_mem co)\<rparr>)"

text \<open>
  \<open>incr(event, n)\<close>; \<open>ok\<close> is whether the Redis pipeline executes. Any failure is swallowed and
  counted in memory.
\<close>

definition rates_incr :: "bool \<Rightarrow> int \<Rightarrow> string \<Rightarrow> int \<Rightarrow> coord \<Rightarrow> coord" where
  "rates_incr ok sec ev n co =
     (if ev \<notin> set events then co
      else if ok then
        co\<lparr>co_redis := co_redis co @ [IncrBy (bucket_key ev sec) n, Expire (bucket_key ev sec) bucket_ttl]\<rparr>
      else mem_add ev sec n co)"

definition window_secs :: "int \<Rightarrow> int list" where
  "window_secs now = [now - window_s + 1 .. now]"

text \<open>The fallback buffer after the prune, and the sum over the window.\<close>

definition mem_prune :: "int \<Rightarrow> (int \<times> int) list \<Rightarrow> (int \<times> int) list" where
  "mem_prune now buf = filter (\<lambda>(s, c). \<not> s < now - window_s) buf"

definition mem_total :: "int \<Rightarrow> (int \<times> int) list \<Rightarrow> int" where
  "mem_total now buf = sum_list (map snd (filter (\<lambda>(s, c). s \<in> set (window_secs now)) buf))"

text \<open>
  One event of \<open>window_counts\<close>. \<open>reply\<close> is what \<open>mget\<close> returned for the window's keys, \<open>None\<close>
  when the call (or the conversion of a value) raised.
\<close>

definition window_count ::
    "int \<Rightarrow> int option list option \<Rightarrow> string \<Rightarrow> coord \<Rightarrow> int \<times> coord" where
  "window_count now reply ev co =
     (case reply of
        Some vals \<Rightarrow> (sum_list (map (\<lambda>v. case v of None \<Rightarrow> 0 | Some n \<Rightarrow> n) vals), co)
      | None \<Rightarrow>
          (let buf = mem_prune now (mem_of ev co)
           in (mem_total now buf, co\<lparr>co_mem := AList.update ev buf (co_mem co)\<rparr>)))"

fun window_counts_loop ::
    "int \<Rightarrow> (string \<Rightarrow> int option list option) \<Rightarrow> string list \<Rightarrow> coord \<Rightarrow> (string \<times> int) list \<times> coord" where
  "window_counts_loop now reply [] co = ([], co)"
| "window_counts_loop now reply (ev # evs) co =
     (let (n, co1) = window_count now (reply ev) ev co;
          (out, co2) = window_counts_loop now reply evs co1
      in ((ev, n) # out, co2))"

definition window_counts ::
    "int \<Rightarrow> (string \<Rightarrow> int option list option) \<Rightarrow> coord \<Rightarrow> (string \<times> int) list \<times> coord" where
  "window_counts now reply co = window_counts_loop now reply events co"

section \<open>Lemmas\<close>

lemma rates_incr_fields [simp]:
  "co_id (rates_incr ok sec ev n co) = co_id co" "co_ttl (rates_incr ok sec ev n co) = co_ttl co"
  "co_pool (rates_incr ok sec ev n co) = co_pool co"
  "co_part_until (rates_incr ok sec ev n co) = co_part_until co"
  "co_drop_acks (rates_incr ok sec ev n co) = co_drop_acks co"
  "co_reg (rates_incr ok sec ev n co) = co_reg co"
  "co_conns (rates_incr ok sec ev n co) = co_conns co"
  "co_next (rates_incr ok sec ev n co) = co_next co"
  by (simp_all add: rates_incr_def mem_add_def Let_def)

lemma mem_of_add:
  "mem_of ev' (mem_add ev sec n co) =
     (if ev' = ev
      then AList.update sec ((case map_of (mem_of ev co) sec of None \<Rightarrow> 0 | Some c \<Rightarrow> c) + n) (mem_of ev co)
      else mem_of ev' co)"
  by (simp add: mem_add_def Let_def mem_of_def update_conv')

lemma set_window_secs: "s \<in> set (window_secs now) \<longleftrightarrow> now - 60 < s \<and> s \<le> now"
  by (auto simp: window_secs_def window_s_def)

text \<open>Pruning never removes a bucket of the window.\<close>

lemma mem_total_prune: "mem_total now (mem_prune now buf) = mem_total now buf"
proof -
  have "filter (\<lambda>(s, c). s \<in> set (window_secs now)) (mem_prune now buf) =
      filter (\<lambda>(s, c). s \<in> set (window_secs now)) buf"
    unfolding mem_prune_def by (induction buf) (auto simp: set_window_secs window_s_def)
  then show ?thesis by (simp add: mem_total_def)
qed

text \<open>Counting one event raises the window's total by exactly that much.\<close>

lemma mem_total_update:
  assumes "distinct (map fst buf)" and "now - 60 < sec" and "sec \<le> now"
  shows "mem_total now (AList.update sec ((case map_of buf sec of None \<Rightarrow> 0 | Some c \<Rightarrow> c) + n) buf) =
    mem_total now buf + n"
  using assms
proof (induction buf)
  case Nil
  then show ?case by (simp add: mem_total_def set_window_secs)
next
  case (Cons p buf)
  then show ?case
    by (cases p) (auto simp: mem_total_def set_window_secs map_of_eq_None_iff split: option.splits)
qed

end
