(* ===== verification/Jobs.thy ===== *)
theory Jobs
  imports Rates
begin

text \<open>
  The job endpoints of \<open>coordinator/app.py\<close>: submission with deduplication, the status read,
  cancellation, and the event stream. Each database transaction is a function on the database;
  the handler around it has the gate, the argument checks and the HTTP answers.
\<close>

type_synonym response = "int \<times> json"

definition err :: "int \<Rightarrow> string \<Rightarrow> exn + response" where
  "err status msg = Inr (status, JObj [(''error'', JStr msg)])"

definition wakeup_channel :: string where "wakeup_channel = ''jobs:wakeup''"

definition max_key_len :: nat where "max_key_len = 128"

section \<open>POST /jobs\<close>

text \<open>
  The dedup transaction: \<open>INSERT ... ON CONFLICT (idempotency_key) DO NOTHING RETURNING job_id\<close>,
  then either the first transition or the lookup of the existing row. The flag says whether
  the row is new.
\<close>

definition create_tx :: "env \<Rightarrow> string \<Rightarrow> json \<Rightarrow> string \<Rightarrow> db \<Rightarrow> (exn + bool \<times> uuid) \<times> db" where
  "create_tx e key pl coord d =
     (case job_of_key key d of
        Some j \<Rightarrow> (Inr (False, j), d)
      | None \<Rightarrow>
          if find_job (e_fresh e) d \<noteq> None then (Inl UniqueViolation, d)
          else
            (let j = e_fresh e;
                 d1 = insert_job \<lparr>j_id = j, j_key = key, j_payload = pl, j_state = Pending,
                        j_result = None, j_created = e_now e, j_updated = e_now e\<rparr> d
             in (Inr (True, j), record_transition j None Pending coord (e_ms e 0) d1)))"

definition created_response :: "bool \<Rightarrow> uuid \<Rightarrow> response" where
  "created_response created j = (if created then 201 else 200, JObj [(''job_id'', JStr j)])"

text \<open>The checks on the body, in the order of the handler.\<close>

definition parse_submit :: "json \<Rightarrow> (exn + response) + (string \<times> json)" where
  "parse_submit body =
     (case jget body ''idempotency_key'' of
        Inl x \<Rightarrow> Inl (Inl x)
      | Inr ko \<Rightarrow>
          (case Option.bind ko as_str of
             None \<Rightarrow> Inl (err 400 ''idempotency_key is required and must be a non-empty string'')
           | Some key \<Rightarrow>
               if key = [] then
                 Inl (err 400 ''idempotency_key is required and must be a non-empty string'')
               else if length key > max_key_len then
                 Inl (err 400 ''idempotency_key exceeds 128 bytes'')
               else
                 (let pl = dget_or body ''payload'' (JObj [])
                  in if \<not> is_dict pl then Inl (err 400 ''payload must be a JSON object'')
                     else Inr (key, pl))))"

text \<open>\<open>body\<close> is \<open>None\<close> when the request is not JSON.\<close>

definition handle_create_job ::
    "env \<Rightarrow> json option \<Rightarrow> coord \<Rightarrow> db \<Rightarrow> (exn + response) \<times> coord \<times> db" where
  "handle_create_job e body co d =
     (case body of
        None \<Rightarrow> (err 400 ''invalid JSON body'', co, d)
      | Some b \<Rightarrow>
          (case parse_submit b of
             Inl r \<Rightarrow> (r, co, d)
           | Inr (key, pl) \<Rightarrow>
               (case transaction (e_mono e) co (create_tx e key pl (co_id co)) d of
                  (Inl DBPartitioned, d') \<Rightarrow> (err 503 ''database partitioned; retry later'', co, d')
                | (Inl x, d') \<Rightarrow> (Inl x, co, d')
                | (Inr (created, j), d') \<Rightarrow>
                    (let co' = (if created
                       then publish (e_redis e 1) wakeup_channel (JStr j)
                              (rates_incr (e_redis e 0) (e_sec e) ''submitted'' 1 (co\<lparr>co_wake := True\<rparr>))
                       else co)
                     in (Inr (created_response created j), co', d')))))"

section \<open>GET /jobs/{job_id}\<close>

definition handle_get_job :: "env \<Rightarrow> string \<Rightarrow> coord \<Rightarrow> db \<Rightarrow> exn + response" where
  "handle_get_job e s co d =
     (case fetch (e_mono e) co (\<lambda>d. map_sum id (\<lambda>j. find_job j d) (as_uuid e s)) d of
        Inl DBPartitioned \<Rightarrow> err 503 ''database partitioned; retry later''
      | Inl x \<Rightarrow> err 400 ''invalid job_id''
      | Inr None \<Rightarrow> err 404 ''job not found''
      | Inr (Some r) \<Rightarrow>
          (case j_result r of
             None \<Rightarrow> Inr (200, JObj [(''job_id'', JStr (j_id r)),
                        (''state'', JStr (state_text (j_state r))), (''result'', JNull)])
           | Some v \<Rightarrow>
               (case e_loads e (e_text e v) of
                  None \<Rightarrow> Inl ValueError
                | Some res \<Rightarrow> Inr (200, JObj [(''job_id'', JStr (j_id r)),
                        (''state'', JStr (state_text (j_state r))), (''result'', res)]))))"

section \<open>POST /jobs/{job_id}/cancel\<close>

text \<open>
  \<open>UPDATE jobs SET state='cancelled' WHERE job_id = $1 AND state='pending' RETURNING job_id\<close>,
  and the transition if a row came back.
\<close>

definition cancel_tx :: "env \<Rightarrow> uuid \<Rightarrow> string \<Rightarrow> db \<Rightarrow> bool \<times> db" where
  "cancel_tx e j coord d =
     (if job_state j d = Some Pending
      then (True, record_transition j (Some Pending) Cancelled coord (e_ms e 0)
                    (set_job_state j Cancelled (e_now e) d))
      else (False, d))"

definition cancel_body :: "env \<Rightarrow> string \<Rightarrow> string \<Rightarrow> db \<Rightarrow> (exn + bool) \<times> db" where
  "cancel_body e s coord d =
     (case as_uuid e s of
        Inl x \<Rightarrow> (Inl x, d)
      | Inr j \<Rightarrow> (let (upd, d') = cancel_tx e j coord d in (Inr upd, d')))"

text \<open>
  The second read, made when nothing was updated, is a query of its own: \<open>e2\<close> is its
  environment and \<open>between\<close> what other sessions commit in the meantime.
\<close>

definition handle_cancel_job ::
    "env \<Rightarrow> env \<Rightarrow> (db \<Rightarrow> db) \<Rightarrow> string \<Rightarrow> coord \<Rightarrow> db \<Rightarrow> (exn + response) \<times> db" where
  "handle_cancel_job e e2 between s co d =
     (case transaction (e_mono e) co (cancel_body e s (co_id co)) d of
        (Inl DBPartitioned, d') \<Rightarrow> (err 503 ''database partitioned; retry later'', d')
      | (Inl x, d') \<Rightarrow> (err 400 ''invalid job_id'', d')
      | (Inr True, d') \<Rightarrow>
          (Inr (200, JObj [(''job_id'', JStr s), (''state'', JStr ''cancelled'')]), d')
      | (Inr False, d') \<Rightarrow>
          (let d2 = between d'
           in (case fetch (e_mono e2) co (\<lambda>d. map_sum id (\<lambda>j. job_state j d) (as_uuid e2 s)) d2 of
                 Inl DBPartitioned \<Rightarrow> err 503 ''database partitioned; retry later''
               | Inl x \<Rightarrow> err 400 ''invalid job_id''
               | Inr None \<Rightarrow> err 404 ''job not found''
               | Inr (Some st) \<Rightarrow>
                   Inr (409, JObj [(''error'', JStr (''job not cancellable in state '' @ [CHR 0x27]
                               @ state_text st @ [CHR 0x27])),
                             (''state'', JStr (state_text st))]), d2)))"

section \<open>GET /jobs/{job_id}/stream\<close>

definition terminal :: "jstate \<Rightarrow> bool" where
  "terminal s \<longleftrightarrow> s = Succeeded \<or> s = Failed \<or> s = Cancelled"

datatype sse = EvState "jstate option" jstate int string | EvDone

definition sse_of :: "trans_row \<Rightarrow> sse" where
  "sse_of t = EvState (t_from t) (t_to t) (t_at t) (t_coord t)"

text \<open>\<open>SELECT ... FROM job_transitions WHERE job_id = $1 AND id > $2 ORDER BY id\<close>.\<close>

definition new_rows :: "uuid \<Rightarrow> int \<Rightarrow> db \<Rightarrow> trans_row list" where
  "new_rows j seen d = sort_key t_id (filter (\<lambda>t. t_job t = j \<and> seen < t_id t) (transitions d))"

text \<open>
  The polling loop. Each element is what one poll before the deadline sees: \<open>None\<close> when the
  gate is closed, the database otherwise; the end of the list is the deadline (or the client
  going away).
\<close>

fun stream_loop :: "uuid \<Rightarrow> int \<Rightarrow> db option list \<Rightarrow> sse list" where
  "stream_loop j seen [] = []"
| "stream_loop j seen (None # polls) = stream_loop j seen polls"
| "stream_loop j seen (Some d # polls) =
     (let rows = new_rows j seen d;
          seen' = (if rows = [] then seen else t_id (last rows))
      in map sse_of rows @
         (if \<exists>t \<in> set rows. terminal (t_to t) then [EvDone] else stream_loop j seen' polls))"

datatype stream_answer = StreamError response | StreamEvents "sse list"

definition handle_stream_job ::
    "env \<Rightarrow> string \<Rightarrow> coord \<Rightarrow> db \<Rightarrow> db option list \<Rightarrow> stream_answer" where
  "handle_stream_job e s co d polls =
     (case fetch (e_mono e) co (\<lambda>d. map_sum id (\<lambda>j. job_state j d) (as_uuid e s)) d of
        Inl DBPartitioned \<Rightarrow>
          StreamError (503, JObj [(''error'', JStr ''database partitioned; retry later'')])
      | Inl x \<Rightarrow> StreamError (400, JObj [(''error'', JStr ''invalid job_id'')])
      | Inr None \<Rightarrow> StreamError (404, JObj [(''error'', JStr ''job not found'')])
      | Inr (Some st) \<Rightarrow>
          (case as_uuid e s of
             Inl x \<Rightarrow> StreamEvents []
           | Inr j \<Rightarrow> StreamEvents (stream_loop j 0 polls)))"

section \<open>The transactions keep the invariants\<close>

lemma create_tx_cases:
  obtains (known) j where "job_of_key key d = Some j" "create_tx e key pl coord d = (Inr (False, j), d)"
  | (clash) "job_of_key key d = None" "find_job (e_fresh e) d \<noteq> None"
      "create_tx e key pl coord d = (Inl UniqueViolation, d)"
  | (new) r where "job_of_key key d = None" "find_job (e_fresh e) d = None"
      "j_id r = e_fresh e" "j_key r = key" "j_state r = Pending" "j_payload r = pl"
      "create_tx e key pl coord d = (Inr (True, e_fresh e),
         record_transition (e_fresh e) None Pending coord (e_ms e 0) (insert_job r d))"
proof (cases "job_of_key key d")
  case (Some j)
  then show ?thesis by (auto intro: known simp: create_tx_def)
next
  case None
  show ?thesis
  proof (cases "find_job (e_fresh e) d")
    case (Some r)
    with None show ?thesis by (intro clash) (simp_all add: create_tx_def)
  next
    case none: None
    with None show ?thesis
      by (intro new [of "\<lparr>j_id = e_fresh e, j_key = key, j_payload = pl, j_state = Pending,
            j_result = None, j_created = e_now e, j_updated = e_now e\<rparr>"])
        (simp_all add: create_tx_def Let_def)
  qed
qed

lemma insert_new_core:
  assumes "core_inv d" and new: "find_job (j_id r) d = None" "job_of_key (j_key r) d = None"
    and st: "j_state r = Pending"
  shows "core_inv (record_transition (j_id r) None Pending co t (insert_job r d))"
proof (rule core_invI)
  note inv = core_invD [OF assms(1)]
  have none: "job_state (j_id r) d = None" using new by (simp add: job_state_def)
  let ?d = "record_transition (j_id r) None Pending co t (insert_job r d)"
  show "keys_ok ?d"
    using inv(1) new
    by (auto simp: keys_ok_def frame_simps insert_job_def find_job_def job_of_key_def find_None_iff)
  show "fences_ok ?d" using inv(2) by (simp add: fences_ok_def statement_defs)
  show "ids_ok ?d" using inv(3) by (auto simp: ids_ok_def statement_defs sorted_wrt_append)
  show "one_accept ?d" using inv(4) by (simp add: one_accept_def frame_simps)
  have acc: "accepted_fence (j_id r) d = None"
    using inv(5) none by (simp add: not_succeeded_not_accepted)
  have js: "job_state k ?d = (if k = j_id r then Some Pending else job_state k d)" for k
    using none st by (auto simp: frame_simps row_simps split: option.split)
  show "status_ok ?d"
    by (rule status_ok_upd [OF inv(5) js]) (use acc in \<open>auto simp: frame_simps\<close>)
  show "live_ok ?d"
    by (rule live_ok_upd [OF inv(6) _ js])
      (use not_leased_no_live [OF inv(6), of "j_id r"] none in \<open>auto simp: frame_simps\<close>)
qed

lemma insert_new_hist:
  assumes "hist_inv d" and new: "find_job (j_id r) d = None" and st: "j_state r = Pending"
  shows "hist_inv (record_transition (j_id r) None Pending co t (insert_job r d))"
proof -
  have "job_state (j_id r) d = None" using new by (simp add: job_state_def)
  then show ?thesis
    using assms(1) st
    by (auto simp: hist_inv_def latest_accepted_def log_ok_def frame_simps row_simps split: option.split)
qed

lemma create_tx_core: "core_inv d \<Longrightarrow> core_inv (snd (create_tx e key pl coord d))"
  by (rule create_tx_cases [of key d e pl coord]) (simp_all, metis insert_new_core)

lemma create_tx_hist: "hist_inv d \<Longrightarrow> hist_inv (snd (create_tx e key pl coord d))"
  by (rule create_tx_cases [of key d e pl coord]) (simp_all, metis insert_new_hist)

lemma cancel_tx_core:
  assumes "core_inv d"
  shows "core_inv (snd (cancel_tx e j coord d))"
proof (cases "job_state j d = Some Pending")
  case True
  note inv = core_invD [OF assms]
  let ?d = "record_transition j (Some Pending) Cancelled coord (e_ms e 0)
              (set_job_state j Cancelled (e_now e) d)"
  have "core_inv ?d"
  proof (rule core_invI)
    show "keys_ok ?d"
      using inv(1) by (simp add: keys_ok_def frame_simps set_job_state_def map_upd_where)
    show "fences_ok ?d" using inv(2) by (simp add: fences_ok_def statement_defs)
    show "ids_ok ?d" using inv(3) by (auto simp: ids_ok_def statement_defs sorted_wrt_append)
    show "one_accept ?d" using inv(4) by (simp add: one_accept_def frame_simps)
    have acc: "accepted_fence j d = None"
      using inv(5) True by (simp add: not_succeeded_not_accepted)
    have js: "job_state k ?d = (if k = j then Some Cancelled else job_state k d)" for k
      using True by (simp add: frame_simps row_simps)
    show "status_ok ?d"
      by (rule status_ok_upd [OF inv(5) js]) (use acc in \<open>auto simp: frame_simps\<close>)
    show "live_ok ?d"
      by (rule live_ok_upd [OF inv(6) _ js])
        (use not_leased_no_live [OF inv(6), of j] True in \<open>auto simp: frame_simps\<close>)
  qed
  then show ?thesis using True by (simp add: cancel_tx_def)
qed (simp add: cancel_tx_def assms)

lemma cancel_tx_hist: "hist_inv d \<Longrightarrow> hist_inv (snd (cancel_tx e j coord d))"
  by (auto simp: cancel_tx_def hist_inv_def latest_accepted_def log_ok_def frame_simps row_simps
      split: option.splits)

end
