(* ===== verification/Dispatch.thy ===== *)
theory Dispatch
  imports Jobs
begin

text \<open>
  The dispatch loop of \<open>coordinator/dispatch.py\<close>: the claim transaction, which leases the oldest
  pending job to a worker, and the round that hands work to every connected worker with spare
  capacity.
\<close>

section \<open>The claim transaction\<close>

text \<open>
  \<open>SELECT job_id FROM jobs WHERE state='pending' ORDER BY created_at FOR UPDATE SKIP LOCKED
  LIMIT 1\<close>: rows that another transaction holds locked are skipped. Rows with the same
  \<open>created_at\<close> come in table order, one of the orders the query allows.
\<close>

definition pick_pending :: "uuid list \<Rightarrow> db \<Rightarrow> job_row option" where
  "pick_pending locked d =
     first_by j_created (filter (\<lambda>r. j_state r = Pending \<and> j_id r \<notin> set locked) (jobs d))"

text \<open>
  \<open>_default_issue\<close>: fence and issue time from \<open>issue_fence()\<close>, the lease row with its deadline,
  and the transition pending to leased. Returns the fence.
\<close>

definition default_issue :: "env \<Rightarrow> int \<Rightarrow> string \<Rightarrow> uuid \<Rightarrow> string \<Rightarrow> db \<Rightarrow> int \<times> db" where
  "default_issue e ttl coord j w d =
     (let ((f, ms), d1) = issue_fence (e_ms e 0) d;
          d2 = insert_lease j f w ms (ms + ttl) d1
      in (f, record_transition j (Some Pending) Leased coord (e_ms e 1) d2))"

text \<open>The whole transaction: \<open>None\<close> when no job is pending, else job, payload and fence.\<close>

definition claim_tx ::
    "env \<Rightarrow> int \<Rightarrow> string \<Rightarrow> string \<Rightarrow> db \<Rightarrow> (uuid \<times> json \<times> int) option \<times> db" where
  "claim_tx e ttl coord w d =
     (case pick_pending (e_locked e) d of
        None \<Rightarrow> (None, d)
      | Some r \<Rightarrow>
          (let (f, d') = default_issue e ttl coord (j_id r) w
                           (set_job_state (j_id r) Leased (e_now e) d)
           in (Some (j_id r, j_payload r, f), d')))"

definition claim_body ::
    "env \<Rightarrow> int \<Rightarrow> string \<Rightarrow> string \<Rightarrow> db \<Rightarrow> (exn + (uuid \<times> json \<times> int) option) \<times> db" where
  "claim_body e ttl coord w d = (let (r, d') = claim_tx e ttl coord w d in (Inr r, d'))"

section \<open>One claim, and the push to the worker\<close>

definition inflight_add :: "string \<Rightarrow> conn \<Rightarrow> conn" where
  "inflight_add j s = s\<lparr>w_inflight := List.insert j (w_inflight s)\<rparr>"

definition inflight_discard :: "string \<Rightarrow> conn \<Rightarrow> conn" where
  "inflight_discard j s = s\<lparr>w_inflight := removeAll j (w_inflight s)\<rparr>"

text \<open>
  \<open>_claim_one(state)\<close> for the connection at address \<open>a\<close>: true when a job was claimed, also when
  the push then failed.
\<close>

definition claim_one :: "env \<Rightarrow> nat \<Rightarrow> coord \<Rightarrow> db \<Rightarrow> (exn + bool) \<times> coord \<times> db" where
  "claim_one e a co d =
     (case transaction (e_mono e) co (claim_body e (co_ttl co) (co_id co) (w_id (co_conns co a))) d of
        (Inl x, d') \<Rightarrow> (Inl x, co, d')
      | (Inr None, d') \<Rightarrow> (Inr False, co, d')
      | (Inr (Some (j, pl, f)), d') \<Rightarrow>
          (let co1 = upd_conn a (inflight_add j) co
           in if e_send e
              then (Inr True, ws_send True a (FDispatch j (JStr (e_text e pl)) f) co1, d')
              else (Inr True, upd_conn a (inflight_discard j) co1, d')))"

section \<open>The round\<close>

definition num_pending :: "db \<Rightarrow> nat" where
  "num_pending d = length (filter (\<lambda>r. j_state r = Pending) (jobs d))"

text \<open>
  The inner loop \<open>while state.has_capacity\<close>, with the environment of the \<open>k\<close>-th claim of the
  round given by \<open>es k\<close>. It stops on the first claim that finds nothing and on an exception.
  Fuel: every claim takes one job out of the pending ones, so one more than their number is
  enough (\<open>claim_loop_fuel\<close> below).
\<close>

fun claim_loop ::
    "nat \<Rightarrow> (nat \<Rightarrow> env) \<Rightarrow> nat \<Rightarrow> nat \<Rightarrow> coord \<Rightarrow> db \<Rightarrow> ((exn + nat) \<times> coord \<times> db) option" where
  "claim_loop 0 es k a co d = None"
| "claim_loop (Suc fuel) es k a co d =
     (if has_capacity (co_conns co a)
      then (case claim_one (es k) a co d of
              (Inl x, co', d') \<Rightarrow> Some (Inl x, co', d')
            | (Inr False, co', d') \<Rightarrow> Some (Inr (Suc k), co', d')
            | (Inr True, co', d') \<Rightarrow> claim_loop fuel es (Suc k) a co' d')
      else Some (Inr k, co, d))"

fun round_loop ::
    "(nat \<Rightarrow> env) \<Rightarrow> nat \<Rightarrow> nat list \<Rightarrow> coord \<Rightarrow> db \<Rightarrow> ((exn + nat) \<times> coord \<times> db) option" where
  "round_loop es k [] co d = Some (Inr k, co, d)"
| "round_loop es k (a # as) co d =
     (case claim_loop (Suc (num_pending d)) es k a co d of
        None \<Rightarrow> None
      | Some (Inl x, co', d') \<Rightarrow> Some (Inl x, co', d')
      | Some (Inr k', co', d') \<Rightarrow> round_loop es k' as co' d')"

definition dispatch_round ::
    "(nat \<Rightarrow> env) \<Rightarrow> coord \<Rightarrow> db \<Rightarrow> ((exn + nat) \<times> coord \<times> db) option" where
  "dispatch_round es co d = round_loop es 0 (reg_all co) co d"

definition paused :: "int \<Rightarrow> coord \<Rightarrow> bool" where
  "paused mt co \<longleftrightarrow> mt < co_paused_until co"

text \<open>
  One turn of \<open>_run\<close> after the wait: the wakeup is consumed, a paused coordinator does nothing,
  and an exception of the round is swallowed.
\<close>

definition run_turn :: "int \<Rightarrow> (nat \<Rightarrow> env) \<Rightarrow> coord \<Rightarrow> db \<Rightarrow> (coord \<times> db) option" where
  "run_turn mt es co d =
     (let co0 = co\<lparr>co_wake := False\<rparr>
      in if paused mt co0 then Some (co0, d)
         else map_option (\<lambda>(r, co', d'). (co', d')) (dispatch_round es co0 d))"

section \<open>What the claim does\<close>

lemma pick_pending_mem:
  "pick_pending locked d = Some r \<Longrightarrow> r \<in> set (jobs d) \<and> j_state r = Pending \<and> j_id r \<notin> set locked"
  unfolding pick_pending_def by (drule first_by_in) simp

lemma pick_pending_oldest:
  "pick_pending locked d = Some r \<Longrightarrow> r' \<in> set (jobs d) \<Longrightarrow> j_state r' = Pending \<Longrightarrow>
     j_id r' \<notin> set locked \<Longrightarrow> j_created r \<le> j_created r'"
  unfolding pick_pending_def by (drule first_by_least [where y = r']) auto

lemma pick_pending_None:
  "pick_pending locked d = None \<longleftrightarrow> (\<forall>r \<in> set (jobs d). j_state r = Pending \<longrightarrow> j_id r \<in> set locked)"
  by (auto simp: pick_pending_def filter_empty_conv)

text \<open>The database after leasing \<open>j\<close>.\<close>

definition leased_db :: "env \<Rightarrow> int \<Rightarrow> string \<Rightarrow> uuid \<Rightarrow> string \<Rightarrow> db \<Rightarrow> db" where
  "leased_db e ttl coord j w d = snd (default_issue e ttl coord j w (set_job_state j Leased (e_now e) d))"

lemma claim_tx_cases:
  obtains (none) "pick_pending (e_locked e) d = None" "claim_tx e ttl coord w d = (None, d)"
  | (claimed) r where "pick_pending (e_locked e) d = Some r"
      "claim_tx e ttl coord w d =
         (Some (j_id r, j_payload r, fence_seq d + 1), leased_db e ttl coord (j_id r) w d)"
proof (cases "pick_pending (e_locked e) d")
  case None
  then show ?thesis by (intro none) (simp_all add: claim_tx_def)
next
  case (Some r)
  then show ?thesis
    by (intro claimed)
      (simp_all add: claim_tx_def leased_db_def default_issue_def issue_fence_def set_job_state_def Let_def)
qed

text \<open>The four ways a claim can go.\<close>

lemma claim_one_cases:
  obtains (closed) x where "gate (e_mono e) co = Some x" "claim_one e a co d = (Inl x, co, d)"
  | (empty) "gate (e_mono e) co = None" "pick_pending (e_locked e) d = None"
      "claim_one e a co d = (Inr False, co, d)"
  | (pushed) r where "gate (e_mono e) co = None" "pick_pending (e_locked e) d = Some r" "e_send e"
      "claim_one e a co d = (Inr True,
         ws_send True a (FDispatch (j_id r) (JStr (e_text e (j_payload r))) (fence_seq d + 1))
           (upd_conn a (inflight_add (j_id r)) co),
         leased_db e (co_ttl co) (co_id co) (j_id r) (w_id (co_conns co a)) d)"
  | (lost) r where "gate (e_mono e) co = None" "pick_pending (e_locked e) d = Some r" "\<not> e_send e"
      "claim_one e a co d = (Inr True,
         upd_conn a (inflight_discard (j_id r)) (upd_conn a (inflight_add (j_id r)) co),
         leased_db e (co_ttl co) (co_id co) (j_id r) (w_id (co_conns co a)) d)"
proof (cases "gate (e_mono e) co")
  case (Some x)
  then show ?thesis by (intro closed) (simp_all add: claim_one_def transaction_closed)
next
  case g: None
  show ?thesis
  proof (cases rule: claim_tx_cases [of e d "co_ttl co" "co_id co" "w_id (co_conns co a)"])
    case none
    then show ?thesis using g
      by (intro empty) (simp_all add: claim_one_def transaction_open claim_body_def)
  next
    case (claimed r)
    then show ?thesis using g
      by (cases "e_send e"; intro pushed lost)
        (simp_all add: claim_one_def transaction_open claim_body_def Let_def)
  qed
qed

lemma leased_db_fields:
  "fence_seq (leased_db e ttl coord j w d) = fence_seq d + 1"
  "fence_clock (leased_db e ttl coord j w d) = max (e_ms e 0) (fence_clock d + 1)"
  "commits (leased_db e ttl coord j w d) = commits d"
  "leases (leased_db e ttl coord j w d) = leases d @
     [\<lparr>l_id = ls_seq d + 1, l_job = j, l_fence = fence_seq d + 1, l_worker = w,
       l_issued = max (e_ms e 0) (fence_clock d + 1),
       l_expires = max (e_ms e 0) (fence_clock d + 1) + ttl, l_expired = None\<rparr>]"
  "jobs (leased_db e ttl coord j w d) = jobs (set_job_state j Leased (e_now e) d)"
  "job_state k (leased_db e ttl coord j w d) = job_state k (set_job_state j Leased (e_now e) d)"
  "job_log k (leased_db e ttl coord j w d) =
     (if k = j then job_log j d @ [(Some Pending, Leased)] else job_log k d)"
  "accepted_fence k (leased_db e ttl coord j w d) = accepted_fence k d"
  by (simp_all add: leased_db_def default_issue_def issue_fence_def Let_def insert_lease_def
      record_transition_def set_job_state_def job_log_def accepted_fence_def job_state_def find_job_def)

lemma leased_ids_ok: "ids_ok d \<Longrightarrow> ids_ok (leased_db e ttl coord j w d)"
  by (auto simp: ids_ok_def leased_db_def default_issue_def issue_fence_def Let_def statement_defs
      sorted_wrt_append)

lemma leased_fences_ok: "fences_ok d \<Longrightarrow> fences_ok (leased_db e ttl coord j w d)"
  by (force simp: fences_ok_def leased_db_fields sorted_wrt_append)

lemma leased_core:
  assumes "core_inv d" and pend: "job_state j d = Some Pending"
  shows "core_inv (leased_db e ttl coord j w d)"
proof (rule core_invI)
  note inv = core_invD [OF assms(1)]
  let ?d = "leased_db e ttl coord j w d"
  have js: "job_state k ?d = (if k = j then Some Leased else job_state k d)" for k
    using pend by (simp add: leased_db_fields row_simps)
  have acc: "accepted_fence j d = None" using inv(5) pend by (simp add: not_succeeded_not_accepted)
  show "keys_ok ?d"
    using inv(1) by (simp add: keys_ok_def leased_db_fields set_job_state_def map_upd_where)
  show "fences_ok ?d" using inv(2) by (rule leased_fences_ok)
  show "ids_ok ?d" using inv(3) by (rule leased_ids_ok)
  show "one_accept ?d" using inv(4) by (simp add: one_accept_def leased_db_fields)
  show "status_ok ?d"
    by (rule status_ok_upd [OF inv(5) js]) (use acc in \<open>auto simp: leased_db_fields\<close>)
  have none: "\<forall>l \<in> set (leases d). l_job l = j \<longrightarrow> l_expired l \<noteq> None"
    using not_leased_no_live [OF inv(6), of j] pend by simp
  have below: "\<forall>l \<in> set (leases d). l_fence l \<le> fence_seq d + 1"
    using inv(2) by (auto simp: fences_ok_def)
  show "live_ok ?d"
    unfolding live_ok_def js leased_db_fields(4) using inv(6) none below
    by (auto simp: live_ok_def)
qed

lemma leased_hist:
  assumes "core_inv d" and "hist_inv d" and pend: "job_state j d = Some Pending"
  shows "hist_inv (leased_db e ttl coord j w d)"
  unfolding hist_inv_def
proof
  note inv = core_invD [OF assms(1)]
  let ?d = "leased_db e ttl coord j w d"
  have acc: "accepted_fence j d = None" using inv(5) pend by (simp add: not_succeeded_not_accepted)
  then show "latest_accepted ?d"
    using assms(2) by (auto simp: hist_inv_def latest_accepted_def leased_db_fields max_fence_iff)
  show "log_ok ?d"
    by (rule log_ok_upd [where j = j and s = Leased])
      (use assms(2) pend in \<open>auto simp: hist_inv_def leased_db_fields row_simps\<close>)
qed

lemma picked_pending:
  "core_inv d \<Longrightarrow> pick_pending locked d = Some r \<Longrightarrow> job_state (j_id r) d = Some Pending"
  by (auto dest!: pick_pending_mem simp: core_inv_def job_state_of_row)

lemma claim_tx_core: "core_inv d \<Longrightarrow> core_inv (snd (claim_tx e ttl coord w d))"
  by (rule claim_tx_cases [of e d ttl coord w]) (simp_all add: leased_core picked_pending)

lemma claim_tx_hist: "core_inv d \<Longrightarrow> hist_inv d \<Longrightarrow> hist_inv (snd (claim_tx e ttl coord w d))"
  by (rule claim_tx_cases [of e d ttl coord w]) (simp_all add: leased_hist picked_pending)

section \<open>The round terminates\<close>

lemma num_pending_leased:
  assumes "r \<in> set (jobs d)" and "j_state r = Pending"
  shows "num_pending (leased_db e ttl coord (j_id r) w d) < num_pending d"
  unfolding num_pending_def leased_db_fields set_job_state_def
  using assms by (simp, intro length_filter_upd_less [where x = r]) auto

lemma claim_one_pending:
  assumes "claim_one e a co d = (Inr True, co', d')"
  shows "num_pending d' < num_pending d"
proof -
  obtain j pl f where "claim_tx e (co_ttl co) (co_id co) (w_id (co_conns co a)) d = (Some (j, pl, f), d')"
    using assms
    by (auto simp: claim_one_def transaction_def claim_body_def Let_def split: option.splits prod.splits if_splits)
  then show ?thesis
    by (cases rule: claim_tx_cases [of e d "co_ttl co" "co_id co" "w_id (co_conns co a)"])
      (auto dest!: pick_pending_mem intro: num_pending_leased)
qed

lemma claim_loop_fuel:
  "num_pending d < fuel \<Longrightarrow> \<exists>r. claim_loop fuel es k a co d = Some r"
proof (induction fuel arbitrary: k co d)
  case 0
  then show ?case by simp
next
  case (Suc fuel)
  show ?case
  proof (cases "claim_one (es k) a co d")
    case (fields r co' d')
    show ?thesis
    proof (cases "r = Inr True")
      case True
      then have "num_pending d' < fuel"
        using claim_one_pending [of "es k" a co d co' d'] fields Suc.prems by simp
      from Suc.IH [OF this] show ?thesis using fields True by simp
    next
      case False
      then show ?thesis using fields by (auto split: sum.split bool.split)
    qed
  qed
qed

lemma round_loop_returns: "\<exists>r. round_loop es k as co d = Some r"
proof (induction as arbitrary: k co d)
  case Nil
  then show ?case by simp
next
  case (Cons a as)
  obtain r co' d' where "claim_loop (Suc (num_pending d)) es k a co d = Some (r, co', d')"
    using claim_loop_fuel [of d "Suc (num_pending d)" es k a co] by auto
  then show ?case using Cons.IH by (cases r) simp_all
qed

end
