(* ===== verification/Reaper.thy ===== *)
theory Reaper
  imports Dispatch
begin

text \<open>
  The reaper of \<open>coordinator/reaper.py\<close>: leases past their deadline are expired and their jobs
  put back into the queue.
\<close>

section \<open>Definitions\<close>

text \<open>
  The scan: live overdue leases, oldest deadline first, at most 100. The \<open>n\<close>-th row of the
  table is compared with the clock reading \<open>e_ms e n\<close>.
\<close>

definition overdue_rows :: "env \<Rightarrow> db \<Rightarrow> lease_row list" where
  "overdue_rows e d =
     map snd (filter (\<lambda>(n, l). l_expired l = None \<and> l_expires l < e_ms e n)
       (zip [0..<length (leases d)] (leases d)))"

definition reap_scan :: "env \<Rightarrow> db \<Rightarrow> lease_row list" where
  "reap_scan e d = take 100 (sort_key l_expires (overdue_rows e d))"

text \<open>What \<open>_reap_one\<close> did: nothing, expired the lease only, or also requeued the job.\<close>

datatype reap_outcome = NotReaped | ExpiredOnly int | Requeued int

definition find_lease :: "int \<Rightarrow> db \<Rightarrow> lease_row option" where
  "find_lease lid d = find (\<lambda>l. l_id l = lid) (leases d)"

text \<open>
  The transaction of \<open>_reap_one\<close>. Clock readings: 0 in the \<open>WHERE\<close> of the lease update, 1 in
  its \<open>SET\<close>, 2 in its \<open>RETURNING\<close>, 3 in the transition row. The requeue is conditional on the
  job being leased, on this being its latest fence and on the absence of an accepted commit.
\<close>

definition reap_tx :: "env \<Rightarrow> string \<Rightarrow> int \<Rightarrow> uuid \<Rightarrow> int \<Rightarrow> db \<Rightarrow> reap_outcome \<times> db" where
  "reap_tx e coord lid j f d =
     (case find_lease lid d of
        None \<Rightarrow> (NotReaped, d)
      | Some l \<Rightarrow>
          if l_expired l = None \<and> l_expires l < e_ms e 0 then
            (let d1 = expire_lease lid (e_ms e 1) d; overdue = e_ms e 2 - l_expires l
             in if job_state j d1 = Some Leased \<and> max_fence j d1 = Some f \<and> accepted_fence j d1 = None
                then (Requeued overdue,
                      record_transition j (Some Leased) Pending coord (e_ms e 3)
                        (set_job_state j Pending (e_now e) d1))
                else (ExpiredOnly overdue, d1))
          else (NotReaped, d))"

definition reap_body ::
    "env \<Rightarrow> string \<Rightarrow> int \<Rightarrow> uuid \<Rightarrow> int \<Rightarrow> db \<Rightarrow> (exn + reap_outcome) \<times> db" where
  "reap_body e coord lid j f d = (let (r, d') = reap_tx e coord lid j f d in (Inr r, d'))"

text \<open>\<open>_reap_one\<close>: the latency maximum is updated inside, the wakeup after the commit.\<close>

definition reap_one :: "env \<Rightarrow> int \<Rightarrow> uuid \<Rightarrow> int \<Rightarrow> coord \<Rightarrow> db \<Rightarrow> (exn + unit) \<times> coord \<times> db" where
  "reap_one e lid j f co d =
     (case transaction (e_mono e) co (reap_body e (co_id co) lid j f) d of
        (Inl x, d') \<Rightarrow> (Inl x, co, d')
      | (Inr (Requeued overdue), d') \<Rightarrow>
          (let co1 = (if overdue > co_max_late co then co\<lparr>co_max_late := overdue\<rparr> else co)
           in (Inr (), publish (e_redis e 0) wakeup_channel (JStr j) (co1\<lparr>co_wake := True\<rparr>), d'))
      | (Inr _, d') \<Rightarrow> (Inr (), co, d'))"

fun reap_rows ::
    "(nat \<Rightarrow> env) \<Rightarrow> nat \<Rightarrow> lease_row list \<Rightarrow> coord \<Rightarrow> db \<Rightarrow> (exn + unit) \<times> coord \<times> db" where
  "reap_rows es k [] co d = (Inr (), co, d)"
| "reap_rows es k (l # ls) co d =
     (case reap_one (es k) (l_id l) (l_job l) (l_fence l) co d of
        (Inl x, co', d') \<Rightarrow> (Inl x, co', d')
      | (Inr _, co', d') \<Rightarrow> reap_rows es (Suc k) ls co' d')"

text \<open>\<open>_reap_round\<close>: \<open>es 0\<close> is the environment of the scan, \<open>es (k + 1)\<close> that of the \<open>k\<close>-th row.\<close>

definition reap_round :: "(nat \<Rightarrow> env) \<Rightarrow> coord \<Rightarrow> db \<Rightarrow> (exn + unit) \<times> coord \<times> db" where
  "reap_round es co d =
     (case fetch (e_mono (es 0)) co (\<lambda>d. Inr (reap_scan (es 0) d)) d of
        Inl x \<Rightarrow> (Inl x, co, d)
      | Inr rows \<Rightarrow> reap_rows es 1 rows co d)"

section \<open>What the reap does\<close>

text \<open>
  A row returned by some earlier scan: the scan does not lock it, so deadline and expiry may
  have changed since, but its id, job and fence have not.
\<close>

definition lease_known :: "int \<Rightarrow> uuid \<Rightarrow> int \<Rightarrow> db \<Rightarrow> bool" where
  "lease_known lid j f d \<longleftrightarrow> (\<exists>l \<in> set (leases d). l_id l = lid \<and> l_job l = j \<and> l_fence l = f)"

lemma reap_scan_mem:
  assumes "l \<in> set (reap_scan e d)"
  shows "l \<in> set (leases d) \<and> l_expired l = None"
proof -
  have "l \<in> set (overdue_rows e d)"
    using assms by (auto simp: reap_scan_def dest: in_set_takeD)
  then show ?thesis by (auto simp: overdue_rows_def dest: set_zip_rightD)
qed

lemma reap_scan_known: "l \<in> set (reap_scan e d) \<Longrightarrow> lease_known (l_id l) (l_job l) (l_fence l) d"
  by (auto simp: lease_known_def dest: reap_scan_mem)

lemma reap_scan_bound: "length (reap_scan e d) \<le> 100"
  by (simp add: reap_scan_def)

definition requeued_db :: "env \<Rightarrow> string \<Rightarrow> int \<Rightarrow> uuid \<Rightarrow> db \<Rightarrow> db" where
  "requeued_db e coord lid j d =
     record_transition j (Some Leased) Pending coord (e_ms e 3)
       (set_job_state j Pending (e_now e) (expire_lease lid (e_ms e 1) d))"

lemma find_lease_known:
  assumes "core_inv d" and "lease_known lid j f d"
  obtains l where "find_lease lid d = Some l" "l \<in> set (leases d)" "l_id l = lid" "l_job l = j" "l_fence l = f"
proof -
  obtain l where l: "l \<in> set (leases d)" "l_id l = lid" "l_job l = j" "l_fence l = f"
    using assms(2) by (auto simp: lease_known_def)
  have "distinct (map l_id (leases d))"
    using assms(1) by (auto simp: core_inv_def ids_ok_def dest: sorted_wrt_less_distinct)
  from find_distinct [OF this l(1)] show ?thesis using l by (intro that) (auto simp: find_lease_def)
qed

lemma reap_tx_cases:
  assumes "core_inv d" and "lease_known lid j f d"
  obtains (untouched) "reap_tx e coord lid j f d = (NotReaped, d)"
      "\<forall>l \<in> set (leases d). l_id l = lid \<longrightarrow> l_expired l \<noteq> None \<or> e_ms e 0 \<le> l_expires l"
  | (requeued) l where "l \<in> set (leases d)" "l_id l = lid" "l_job l = j" "l_fence l = f"
      "l_expired l = None" "l_expires l < e_ms e 0" "job_state j d = Some Leased"
      "reap_tx e coord lid j f d = (Requeued (e_ms e 2 - l_expires l), requeued_db e coord lid j d)"
  | (expired) l where "l \<in> set (leases d)" "l_id l = lid" "l_job l = j" "l_fence l = f"
      "l_expired l = None" "l_expires l < e_ms e 0" "job_state j d = Some Succeeded"
      "reap_tx e coord lid j f d = (ExpiredOnly (e_ms e 2 - l_expires l), expire_lease lid (e_ms e 1) d)"
proof -
  obtain l where l: "find_lease lid d = Some l" "l \<in> set (leases d)" "l_id l = lid" "l_job l = j" "l_fence l = f"
    using assms by (rule find_lease_known)
  show ?thesis
  proof (cases "l_expired l = None \<and> l_expires l < e_ms e 0")
    case False
    show ?thesis
    proof (rule untouched)
      show "reap_tx e coord lid j f d = (NotReaped, d)" using False l(1) by (auto simp: reap_tx_def)
      have "l' = l" if "l' \<in> set (leases d)" "l_id l' = lid" for l'
        using lease_unique_id [OF assms(1) that(1) l(2)] that(2) l(3) by simp
      then show "\<forall>l \<in> set (leases d). l_id l = lid \<longrightarrow> l_expired l \<noteq> None \<or> e_ms e 0 \<le> l_expires l"
        using False by (metis not_le_imp_less)
    qed
  next
    case True
    have maxf: "max_fence j d = Some f" using live_lease_latest [OF assms(1) l(2)] True l by simp
    consider "job_state j d = Some Leased" | "job_state j d = Some Succeeded"
      using live_lease_state [OF assms(1) l(2)] True l by auto
    then show ?thesis
    proof cases
      case 1
      have "accepted_fence j d = None"
        using core_invD(5) [OF assms(1)] 1 by (simp add: not_succeeded_not_accepted)
      then show ?thesis using True l maxf 1
        by (intro requeued [of l]) (simp_all add: reap_tx_def frame_simps Let_def requeued_db_def)
    next
      case 2
      then show ?thesis using True l maxf
        by (intro expired [of l]) (simp_all add: reap_tx_def frame_simps Let_def)
    qed
  qed
qed

lemma expire_keeps:
  "keys_ok d \<Longrightarrow> keys_ok (expire_lease lid t d)" "fences_ok d \<Longrightarrow> fences_ok (expire_lease lid t d)"
  "ids_ok d \<Longrightarrow> ids_ok (expire_lease lid t d)" "one_accept d \<Longrightarrow> one_accept (expire_lease lid t d)"
  "status_ok d \<Longrightarrow> status_ok (expire_lease lid t d)"
  by (simp_all add: core_defs frame_simps)
    (auto simp: expire_lease_def map_upd_where ball_upd_where)

lemma live_after_expiry:
  assumes "l \<in> set (leases (expire_lease lid t d))" and "l_expired l = None"
  shows "l \<in> set (leases d) \<and> l_id l \<noteq> lid"
  using assms by (auto simp: expire_lease_def set_upd_where split: if_splits)

lemma lease_after_expiry:
  assumes "l \<in> set (leases (expire_lease lid t d))"
  shows "\<exists>l0 \<in> set (leases d). l_job l = l_job l0 \<and> l_fence l = l_fence l0"
  using assms by (auto simp: expire_lease_def set_upd_where split: if_splits)

lemma other_live_after_expiry:
  "l \<in> set (leases d) \<Longrightarrow> l_id l \<noteq> lid \<Longrightarrow> l \<in> set (leases (expire_lease lid t d))"
  by (force simp: expire_lease_def set_upd_where)

lemma expired_live_ok:
  assumes inv: "core_inv d" and l: "l \<in> set (leases d)" "l_expired l = None"
    and d': "leases d' = leases (expire_lease (l_id l) t d)"
    and js: "\<And>k. job_state k d' = (if k = l_job l then Some s else job_state k d)"
    and s: "s \<noteq> Leased"
  shows "live_ok d'"
proof -
  note live = core_invD(6) [OF inv, unfolded live_ok_def]
  have other: "l_job l0 \<noteq> l_job l" if l0: "l0 \<in> set (leases d)" "l_expired l0 = None" "l_id l0 \<noteq> l_id l" for l0
  proof
    assume "l_job l0 = l_job l"
    then have "l_fence l0 = l_fence l"
      using live_lease_latest [OF inv l] live_lease_latest [OF inv l0(1,2)] by simp
    then show False using lease_unique_fence [OF inv l0(1) l(1)] l0(3) by simp
  qed
  show ?thesis
    unfolding live_ok_def d' js
  proof (intro conjI ballI impI allI)
    fix l0 assume "l0 \<in> set (leases (expire_lease (l_id l) t d))"
    then show "(if l_job l0 = l_job l then Some s else job_state (l_job l0) d) \<noteq> None"
      using live by (auto dest!: lease_after_expiry)
  next
    fix l0 assume "l0 \<in> set (leases (expire_lease (l_id l) t d))" "l_expired l0 = None"
    then have l0: "l0 \<in> set (leases d)" "l_expired l0 = None" "l_id l0 \<noteq> l_id l"
      by (auto dest: live_after_expiry)
    then show "(if l_job l0 = l_job l then Some s else job_state (l_job l0) d) \<in> {Some Leased, Some Succeeded}"
      using live other by auto
    fix l' assume "l' \<in> set (leases (expire_lease (l_id l) t d))" "l_job l' = l_job l0"
    then show "l_fence l' \<le> l_fence l0" using live l0 by (fastforce dest!: lease_after_expiry)
  next
    fix k assume "(if k = l_job l then Some s else job_state k d) = Some Leased"
    then have "k \<noteq> l_job l" "job_state k d = Some Leased" using s by (auto split: if_splits)
    then obtain l0 where "l0 \<in> set (leases d)" "l_job l0 = k" "l_expired l0 = None" "l0 \<noteq> l"
      using live by blast
    then show "\<exists>l0 \<in> set (leases (expire_lease (l_id l) t d)). l_job l0 = k \<and> l_expired l0 = None"
      using lease_unique_id [OF inv _ l(1)] other_live_after_expiry by blast
  qed
qed

lemma requeued_core:
  assumes "core_inv d" and l: "l \<in> set (leases d)" "l_expired l = None"
    and st: "job_state (l_job l) d = Some Leased"
  shows "core_inv (requeued_db e coord (l_id l) (l_job l) d)"
proof (rule core_invI)
  note inv = core_invD [OF assms(1)]
  let ?d = "requeued_db e coord (l_id l) (l_job l) d"
  have js: "job_state k ?d = (if k = l_job l then Some Pending else job_state k d)" for k
    using st by (simp add: requeued_db_def frame_simps row_simps)
  have acc: "accepted_fence (l_job l) d = None" using inv(5) st by (simp add: not_succeeded_not_accepted)
  show "keys_ok ?d"
    using inv(1) by (simp add: keys_ok_def requeued_db_def frame_simps set_job_state_def map_upd_where)
  show "fences_ok ?d"
    using inv(2) by (simp add: fences_ok_def requeued_db_def statement_defs row_simps)
  show "ids_ok ?d"
    using inv(3) by (auto simp: ids_ok_def requeued_db_def statement_defs row_simps sorted_wrt_append)
  show "one_accept ?d" using inv(4) by (simp add: one_accept_def requeued_db_def frame_simps)
  show "status_ok ?d"
    by (rule status_ok_upd [OF inv(5) js]) (use acc in \<open>auto simp: requeued_db_def frame_simps\<close>)
  show "live_ok ?d"
    by (rule expired_live_ok [OF assms(1) l _ js]) (auto simp: requeued_db_def frame_simps)
qed

lemma expired_core:
  assumes "core_inv d" and l: "l \<in> set (leases d)" "l_expired l = None"
    and st: "job_state (l_job l) d = Some Succeeded"
  shows "core_inv (expire_lease (l_id l) t d)"
  using assms by (intro core_invI) (auto simp: core_invD expire_keeps frame_simps
      intro: expired_live_ok [where s = Succeeded])

lemma reap_tx_core:
  assumes "core_inv d" and "lease_known lid j f d"
  shows "core_inv (snd (reap_tx e coord lid j f d))"
  by (cases rule: reap_tx_cases [OF assms, of e coord])
    (use assms requeued_core expired_core in auto)

lemma requeued_hist:
  "hist_inv d \<Longrightarrow> job_state j d = Some Leased \<Longrightarrow> accepted_fence j d = None \<Longrightarrow>
     hist_inv (requeued_db e coord lid j d)"
  by (auto simp: hist_inv_def latest_accepted_def log_ok_def requeued_db_def frame_simps row_simps
      split: option.splits)

lemma reap_tx_hist:
  assumes "core_inv d" and "hist_inv d" and "lease_known lid j f d"
  shows "hist_inv (snd (reap_tx e coord lid j f d))"
  using assms(1,3)
proof (cases rule: reap_tx_cases [where e = e and coord = coord])
  case untouched
  then show ?thesis using assms(2) by simp
next
  case (requeued l)
  have "accepted_fence j d = None"
    using core_invD(5) [OF assms(1)] requeued(7) by (simp add: not_succeeded_not_accepted)
  then show ?thesis using requeued assms(2) by (simp add: requeued_hist)
next
  case (expired l)
  then show ?thesis
    using assms(2) by (simp add: hist_inv_def latest_accepted_def log_ok_def frame_simps)
qed

end
