(* ===== verification/Commit.thy ===== *)
theory Commit
  imports Reaper
begin

text \<open>
  The commit handler of \<open>coordinator/commit.py\<close>: lease renewal on a heartbeat, the fenced commit,
  and the reply to the worker.
\<close>

section \<open>Heartbeat\<close>

text \<open>
  \<open>UPDATE leases SET expires_at_ms = db_now_ms() + ttl WHERE job_id = j AND fence = f AND
  expired_at_ms IS NULL\<close>; the number is the row count in the status.
\<close>

definition renew_tx :: "env \<Rightarrow> int \<Rightarrow> uuid \<Rightarrow> int \<Rightarrow> db \<Rightarrow> nat \<times> db" where
  "renew_tx e ttl j f d =
     (let P = (\<lambda>l. l_job l = j \<and> l_fence l = f \<and> l_expired l = None)
      in (length (filter P (leases d)),
          d\<lparr>leases := upd_where P (\<lambda>l. l\<lparr>l_expires := e_ms e 0 + ttl\<rparr>) (leases d)\<rparr>))"

text \<open>The \<open>bigint\<close> range; the driver refuses an argument outside it.\<close>

definition fits_bigint :: "int \<Rightarrow> bool" where
  "fits_bigint i \<longleftrightarrow> - (2 ^ 63) \<le> i \<and> i < 2 ^ 63"

definition json_uuid :: "env \<Rightarrow> json \<Rightarrow> exn + uuid" where
  "json_uuid e v = (case as_str v of None \<Rightarrow> Inl DataError | Some s \<Rightarrow> as_uuid e s)"

definition handle_heartbeat :: "env \<Rightarrow> json \<Rightarrow> coord \<Rightarrow> db \<Rightarrow> (exn + unit) \<times> db" where
  "handle_heartbeat e data co d =
     (let jv = dget data ''job_id''
      in case as_int (dget data ''fence'') of
           None \<Rightarrow> (Inr (), d)
         | Some f \<Rightarrow>
             if jv = JNull then (Inr (), d)
             else
               (case gate (e_mono e) co of
                  Some x \<Rightarrow> (Inl x, d)
                | None \<Rightarrow>
                    (case json_uuid e jv of
                       Inl x \<Rightarrow> (Inl x, d)
                     | Inr j \<Rightarrow>
                         if \<not> fits_bigint f then (Inl DataError, d)
                         else (Inr (), snd (renew_tx e (co_ttl co) j f d)))))"

section \<open>The commit transaction\<close>

text \<open>
  Its two reads, on the state they see: the fence of the accepted commit if there is one, and
  whether the lease the worker names is the latest and live on the database clock (reading 0).
\<close>

definition commit_reads :: "env \<Rightarrow> uuid \<Rightarrow> int \<Rightarrow> db \<Rightarrow> int option \<times> bool" where
  "commit_reads e j f d =
     (accepted_fence j d,
      (case latest_lease j d of
         None \<Rightarrow> False
       | Some l \<Rightarrow> l_fence l = f \<and> l_expired l = None \<and> e_ms e 0 < l_expires l))"

datatype commit_outcome = Replay bool | LostRace | Accepted | Rejected

text \<open>
  What it then writes, on the state it finds. \<open>ON CONFLICT (job_id) WHERE accepted DO NOTHING\<close>
  against the unique index \<open>one_accept\<close>: with an accepted row present no row comes back (the
  sequence has moved all the same).
\<close>

definition commit_writes ::
    "env \<Rightarrow> string \<Rightarrow> uuid \<Rightarrow> int \<Rightarrow> string \<Rightarrow> json \<Rightarrow> int option \<times> bool \<Rightarrow> db \<Rightarrow>
       (exn + commit_outcome) \<times> db" where
  "commit_writes e coord j f w res rd d =
     (case rd of
        (Some a, _) \<Rightarrow> (Inr (Replay (a = f)), d)
      | (None, True) \<Rightarrow>
          if accepted_fence j d \<noteq> None then (Inr LostRace, d\<lparr>cm_seq := cm_seq d + 1\<rparr>)
          else (Inr Accepted,
                record_transition j (Some Leased) Succeeded coord (e_ms e 2)
                  (succeed_job j res (e_now e) (insert_commit j f w True (e_ms e 1) d)))
      | (None, False) \<Rightarrow>
          if \<not> fits_bigint f then (Inl DataError, d)
          else (Inr Rejected, insert_commit j f w False (e_ms e 1) d))"

definition commit_tx ::
    "env \<Rightarrow> string \<Rightarrow> uuid \<Rightarrow> int \<Rightarrow> string \<Rightarrow> json \<Rightarrow> db \<Rightarrow> (exn + commit_outcome) \<times> db" where
  "commit_tx e coord j f w res d = commit_writes e coord j f w res (commit_reads e j f d) d"

section \<open>The reply\<close>

text \<open>
  \<open>_finish\<close>: the slot is freed under the id the worker sent; a positive \<open>drop_acks\<close> counter
  swallows an acknowledgement, never a rejection.
\<close>

definition finish :: "env \<Rightarrow> nat \<Rightarrow> string \<Rightarrow> bool \<Rightarrow> coord \<Rightarrow> coord" where
  "finish e a s acc co =
     (let co1 = upd_conn a (inflight_discard s) co
      in if acc \<and> co_drop_acks co1 > 0 then co1\<lparr>co_drop_acks := co_drop_acks co1 - 1\<rparr>
         else ws_send (e_send e) a (if acc then FAck s else FRejected s) co1)"

fun outcome_accepted :: "commit_outcome \<Rightarrow> bool" where
  "outcome_accepted (Replay b) = b"
| "outcome_accepted LostRace = True"
| "outcome_accepted Accepted = True"
| "outcome_accepted Rejected = False"

text \<open>The effects on the process for each outcome, in the order of the handler.\<close>

definition commit_effects :: "env \<Rightarrow> nat \<Rightarrow> string \<Rightarrow> commit_outcome \<Rightarrow> coord \<Rightarrow> coord" where
  "commit_effects e a s out co =
     finish e a s (outcome_accepted out)
       (case out of
          Accepted \<Rightarrow> rates_incr (e_redis e 0) (e_sec e) ''completed'' 1 co
        | Rejected \<Rightarrow> rates_incr (e_redis e 0) (e_sec e) ''failed'' 1 co
        | _ \<Rightarrow> co)"

text \<open>\<open>result if result is not None else {}\<close>.\<close>

definition result_json :: "json \<Rightarrow> json" where
  "result_json v = (if v = JNull then JObj [] else v)"

definition commit_body ::
    "env \<Rightarrow> string \<Rightarrow> json \<Rightarrow> int \<Rightarrow> string \<Rightarrow> json \<Rightarrow> db \<Rightarrow> (exn + commit_outcome) \<times> db" where
  "commit_body e coord jv f w res d =
     (case json_uuid e jv of
        Inl x \<Rightarrow> (Inl x, d)
      | Inr j \<Rightarrow> commit_tx e coord j f w res d)"

definition raw_id :: "json \<Rightarrow> string" where
  "raw_id v = (case as_str v of None \<Rightarrow> [] | Some s \<Rightarrow> s)"

definition handle_commit :: "env \<Rightarrow> nat \<Rightarrow> json \<Rightarrow> coord \<Rightarrow> db \<Rightarrow> (exn + unit) \<times> coord \<times> db" where
  "handle_commit e a data co d =
     (let jv = dget data ''job_id''; res = result_json (dget data ''result'')
      in case as_int (dget data ''fence'') of
           None \<Rightarrow> (Inr (), co, d)
         | Some f \<Rightarrow>
             if jv = JNull then (Inr (), co, d)
             else
               (case transaction (e_mono e) co
                       (commit_body e (co_id co) jv f (w_id (co_conns co a)) res) d of
                  (Inl x, d') \<Rightarrow> (Inl x, co, d')
                | (Inr out, d') \<Rightarrow> (Inr (), commit_effects e a (raw_id jv) out co, d')))"

section \<open>What a heartbeat does\<close>

lemma renew_tx_state [frame_simps]:
  "job_state k (snd (renew_tx e ttl j f d)) = job_state k d"
  "accepted_fence k (snd (renew_tx e ttl j f d)) = accepted_fence k d"
  "job_log k (snd (renew_tx e ttl j f d)) = job_log k d"
  by (simp_all add: renew_tx_def Let_def)

lemma renew_tx_max_fence [frame_simps]: "max_fence k (snd (renew_tx e ttl j f d)) = max_fence k d"
proof -
  have "max_fence k (snd (renew_tx e ttl j f d)) = Some g \<longleftrightarrow> max_fence k d = Some g" for g
    by (simp add: max_fence_iff renew_tx_def Let_def ball_upd_same bex_upd_same)
  then show ?thesis by (metis not_None_eq)
qed

lemma renew_tx_core:
  assumes "core_inv d"
  shows "core_inv (snd (renew_tx e ttl j f d))"
proof (rule core_invI)
  note inv = core_invD [OF assms]
  let ?d = "snd (renew_tx e ttl j f d)"
  show "keys_ok ?d" using inv(1) by (simp add: keys_ok_def renew_tx_def Let_def)
  show "fences_ok ?d"
    using inv(2) by (simp add: fences_ok_def renew_tx_def Let_def map_upd_where ball_upd_same)
  show "ids_ok ?d"
    using inv(3) by (simp add: ids_ok_def renew_tx_def Let_def map_upd_where ball_upd_same)
  show "one_accept ?d" using inv(4) by (simp add: one_accept_def renew_tx_def Let_def)
  show "status_ok ?d" using inv(5) by (simp add: status_ok_def frame_simps)
  show "live_ok ?d"
    using inv(6) unfolding live_ok_def frame_simps
    by (simp add: renew_tx_def Let_def ball_upd_same bex_upd_same)
qed

lemma renew_tx_hist: "hist_inv d \<Longrightarrow> hist_inv (snd (renew_tx e ttl j f d))"
  by (simp add: hist_inv_def latest_accepted_def log_ok_def frame_simps)

section \<open>What a commit does\<close>

definition accepted_db :: "env \<Rightarrow> string \<Rightarrow> uuid \<Rightarrow> int \<Rightarrow> string \<Rightarrow> json \<Rightarrow> db \<Rightarrow> db" where
  "accepted_db e coord j f w res d =
     record_transition j (Some Leased) Succeeded coord (e_ms e 2)
       (succeed_job j res (e_now e) (insert_commit j f w True (e_ms e 1) d))"

lemma commit_writes_cases:
  obtains (replay) a b where "rd = (Some a, b)"
      "commit_writes e coord j f w res rd d = (Inr (Replay (a = f)), d)"
  | (lost) "rd = (None, True)" "accepted_fence j d \<noteq> None"
      "commit_writes e coord j f w res rd d = (Inr LostRace, d\<lparr>cm_seq := cm_seq d + 1\<rparr>)"
  | (accepted) "rd = (None, True)" "accepted_fence j d = None"
      "commit_writes e coord j f w res rd d = (Inr Accepted, accepted_db e coord j f w res d)"
  | (refused) "rd = (None, False)" "\<not> fits_bigint f"
      "commit_writes e coord j f w res rd d = (Inl DataError, d)"
  | (rejected) "rd = (None, False)" "fits_bigint f"
      "commit_writes e coord j f w res rd d = (Inr Rejected, insert_commit j f w False (e_ms e 1) d)"
proof (cases rd)
  case (Pair ao v)
  show ?thesis
  proof (cases ao)
    case (Some a)
    with Pair show ?thesis by (intro replay) (auto simp: commit_writes_def)
  next
    case None
    with Pair lost accepted refused rejected show ?thesis
      by (cases v; cases "accepted_fence j d"; cases "fits_bigint f")
        (auto simp: commit_writes_def accepted_db_def)
  qed
qed

lemma commit_reads_valid:
  assumes "core_inv d" and "commit_reads e j f d = (None, True)"
  shows "job_state j d = Some Leased \<and> max_fence j d = Some f \<and> accepted_fence j d = None \<and>
    (\<exists>l \<in> set (leases d). l_job l = j \<and> l_fence l = f \<and> l_expired l = None \<and> e_ms e 0 < l_expires l)"
proof -
  obtain l where l: "latest_lease j d = Some l" "l_fence l = f" "l_expired l = None" "e_ms e 0 < l_expires l"
    and acc: "accepted_fence j d = None"
    using assms(2) by (auto simp: commit_reads_def split: option.splits)
  from latest_lease_mem [OF l(1)] have m: "l \<in> set (leases d)" "l_job l = j" by auto
  have "job_state j d = Some Leased"
    using live_lease_state [OF assms(1) m(1) l(3)] succeeded_iff_accepted [OF assms(1)] acc m(2) by auto
  then show ?thesis using l m acc by (auto simp: max_fence_def)
qed

lemma accepted_core:
  assumes "core_inv d" and ex: "job_state j d \<noteq> None" and acc: "accepted_fence j d = None"
  shows "core_inv (accepted_db e coord j f w res d)"
proof (rule core_invI)
  note inv = core_invD [OF assms(1)]
  let ?d = "accepted_db e coord j f w res d"
  have js: "job_state k ?d = (if k = j then Some Succeeded else job_state k d)" for k
    using ex by (simp add: accepted_db_def frame_simps row_simps)
  have af: "accepted_fence k ?d = (if k = j then Some f else accepted_fence k d)" for k
    using acc by (auto simp: accepted_db_def frame_simps row_simps split: option.split)
  show "keys_ok ?d"
    using inv(1) by (simp add: keys_ok_def accepted_db_def frame_simps succeed_job_def map_upd_where)
  show "fences_ok ?d" using inv(2) by (simp add: fences_ok_def accepted_db_def statement_defs)
  show "ids_ok ?d"
    using inv(3) by (auto simp: ids_ok_def accepted_db_def statement_defs sorted_wrt_append)
  show "one_accept ?d"
    using inv(4) acc
    by (auto simp: one_accept_def accepted_db_def statement_defs sorted_wrt_append accepted_fence_None_iff)
  show "status_ok ?d" by (rule status_ok_upd [OF inv(5) js af]) auto
  show "live_ok ?d"
    by (rule live_ok_upd [OF inv(6) _ js]) (auto simp: accepted_db_def frame_simps)
qed

lemma accepted_hist:
  assumes "hist_inv d" and st: "job_state j d = Some Leased" and acc: "accepted_fence j d = None"
    and mx: "max_fence j d = Some f"
  shows "hist_inv (accepted_db e coord j f w res d)"
  using assms
  by (auto simp: hist_inv_def latest_accepted_def log_ok_def accepted_db_def frame_simps row_simps
      split: option.splits)

lemma core_inv_cm_seq: "core_inv d \<Longrightarrow> core_inv (d\<lparr>cm_seq := cm_seq d + 1\<rparr>)"
  by (auto simp: core_inv_def core_defs)

lemma hist_inv_cm_seq: "hist_inv d \<Longrightarrow> hist_inv (d\<lparr>cm_seq := n\<rparr>)"
  by (simp add: hist_inv_def latest_accepted_def log_ok_def max_fence_def latest_lease_def job_leases_def)

lemma rejected_core:
  "core_inv d \<Longrightarrow> core_inv (insert_commit j f w False t d)"
  by (intro core_invI)
    (auto simp: core_inv_def core_defs frame_simps row_simps insert_commit_def sorted_wrt_append
      accepted_fence_def find_append split: option.split)

lemma rejected_hist: "hist_inv d \<Longrightarrow> hist_inv (insert_commit j f w False t d)"
  by (auto simp: hist_inv_def latest_accepted_def log_ok_def frame_simps row_simps split: option.splits)

text \<open>
  The writes keep the core invariant whatever happened since the reads, as long as the job of
  a positive read exists.
\<close>

lemma commit_writes_core:
  assumes "core_inv d" and "snd rd \<Longrightarrow> job_state j d \<noteq> None"
  shows "core_inv (snd (commit_writes e coord j f w res rd d))"
  by (cases rule: commit_writes_cases [of rd e coord j f w res d])
    (use assms in \<open>auto simp: core_inv_cm_seq rejected_core intro: accepted_core\<close>)

lemma commit_tx_core:
  assumes "core_inv d"
  shows "core_inv (snd (commit_tx e coord j f w res d))"
  unfolding commit_tx_def
proof (rule commit_writes_core [OF assms])
  assume "snd (commit_reads e j f d)"
  then obtain l where "latest_lease j d = Some l"
    by (auto simp: commit_reads_def split: option.splits)
  from latest_lease_mem [OF this] show "job_state j d \<noteq> None"
    using core_invD(6) [OF assms] by (auto simp: live_ok_def)
qed

lemma commit_tx_hist:
  assumes "core_inv d" and "hist_inv d"
  shows "hist_inv (snd (commit_tx e coord j f w res d))"
  unfolding commit_tx_def
  by (cases rule: commit_writes_cases [of "commit_reads e j f d" e coord j f w res d])
    (use assms commit_reads_valid [OF assms(1), of e j f] in
      \<open>auto simp: hist_inv_cm_seq rejected_hist accepted_hist\<close>)

end
