(* ===== verification/Transactions.thy ===== *)
theory Transactions
  imports Commit
begin

text \<open>
  The system as the database sees it when every transaction runs without interleaving: a step
  relation with one rule per transaction of the coordinators, its invariants, the facts that
  no step can undo, and a refinement to the abstract life of a job.
\<close>

section \<open>The step relation\<close>

text \<open>
  Any coordinator, any worker, any clock. \<open>reap\<close> takes a row that some scan returned at any
  earlier time. \<open>burn\<close> is a transaction that was rolled back or whose coordinator was killed
  before the commit: the sequences may have moved, the tables have not.
\<close>

inductive tx_step :: "db \<Rightarrow> db \<Rightarrow> bool" where
  submit: "tx_step d (snd (create_tx e key pl coord d))"
| cancel: "tx_step d (snd (cancel_tx e j coord d))"
| claim: "tx_step d (snd (claim_tx e ttl coord w d))"
| renew: "tx_step d (snd (renew_tx e ttl j f d))"
| reap: "lease_known lid j f d \<Longrightarrow> tx_step d (snd (reap_tx e coord lid j f d))"
| commit: "tx_step d (snd (commit_tx e coord j f w res d))"
| burn: "fence_seq d \<le> a \<Longrightarrow> tr_seq d \<le> b \<Longrightarrow> ls_seq d \<le> c \<Longrightarrow> cm_seq d \<le> n \<Longrightarrow>
    tx_step d (d\<lparr>fence_seq := a, tr_seq := b, ls_seq := c, cm_seq := n\<rparr>)"

inductive_cases tx_stepE: "tx_step d d'"

lemma burn_core:
  "core_inv d \<Longrightarrow> fence_seq d \<le> a \<Longrightarrow> tr_seq d \<le> b \<Longrightarrow> ls_seq d \<le> c \<Longrightarrow> cm_seq d \<le> n \<Longrightarrow>
     core_inv (d\<lparr>fence_seq := a, tr_seq := b, ls_seq := c, cm_seq := n\<rparr>)"
  by (force simp: core_inv_def core_defs)

lemma burn_hist:
  "hist_inv d \<Longrightarrow> hist_inv (d\<lparr>fence_seq := a, tr_seq := b, ls_seq := c, cm_seq := n\<rparr>)"
  by (simp add: hist_inv_def latest_accepted_def log_ok_def max_fence_def latest_lease_def job_leases_def)

lemmas tx_core =
  create_tx_core cancel_tx_core claim_tx_core renew_tx_core reap_tx_core commit_tx_core burn_core

lemmas tx_hist =
  create_tx_hist cancel_tx_hist claim_tx_hist renew_tx_hist reap_tx_hist commit_tx_hist burn_hist

lemma tx_step_core: "tx_step d d' \<Longrightarrow> core_inv d \<Longrightarrow> core_inv d'"
  by (induction rule: tx_step.induct) (simp_all add: tx_core)

lemma tx_step_hist: "tx_step d d' \<Longrightarrow> core_inv d \<Longrightarrow> hist_inv d \<Longrightarrow> hist_inv d'"
  by (induction rule: tx_step.induct) (simp_all add: tx_hist)

definition db_inv :: "db \<Rightarrow> bool" where
  "db_inv d \<longleftrightarrow> core_inv d \<and> hist_inv d"

interpretation txs: step_system empty_db tx_step db_inv
  by unfold_locales (auto simp: db_inv_def core_inv_empty hist_inv_empty tx_step_core tx_step_hist)

section \<open>What no step can undo\<close>

text \<open>How each statement acts on the key index.\<close>

lemma key_frames [frame_simps]:
  "job_of_key k (insert_lease j f w a b d) = job_of_key k d"
  "job_of_key k (expire_lease lid t d) = job_of_key k d"
  "job_of_key k (insert_commit j f w acc t d) = job_of_key k d"
  "job_of_key k (record_transition j fr to co t d) = job_of_key k d"
  "job_of_key k (set_job_state j s t d) = job_of_key k d"
  "job_of_key k (succeed_job j res t d) = job_of_key k d"
proof -
  have upd: "map_option j_id (find (\<lambda>r. j_key r = k) (upd_where P g js)) =
      map_option j_id (find (\<lambda>r. j_key r = k) js)"
    if "\<And>r. j_key (g r) = j_key r" "\<And>r. j_id (g r) = j_id r" for P g and js :: "job_row list"
    using that by (simp add: find_upd_where option.map_comp o_def if_distrib [of j_id] cong: if_cong)
  show "job_of_key k (set_job_state j s t d) = job_of_key k d"
    "job_of_key k (succeed_job j res t d) = job_of_key k d"
    by (simp_all add: job_of_key_def statement_defs upd)
qed (simp_all add: job_of_key_def statement_defs)

lemma key_insert_job:
  "job_of_key k (insert_job r d) =
     (case job_of_key k d of None \<Rightarrow> if j_key r = k then Some (j_id r) else None | Some j \<Rightarrow> Some j)"
  by (auto simp: job_of_key_def insert_job_def find_append split: option.splits)

lemma result_frames [frame_simps]:
  "job_result k (insert_lease j f w a b d) = job_result k d"
  "job_result k (expire_lease lid t d) = job_result k d"
  "job_result k (insert_commit j f w acc t d) = job_result k d"
  "job_result k (record_transition j fr to co t d) = job_result k d"
  "job_result k (set_job_state j s t d) = job_result k d"
proof -
  show "job_result k (set_job_state j s t d) = job_result k d"
    by (cases "find_job k d") (simp_all add: job_result_def set_job_state_def find_job_update)
qed (simp_all add: job_result_def find_job_def statement_defs)

lemma result_succeed_job:
  "job_result k (succeed_job j res t d) =
     (if k = j \<and> job_state j d \<noteq> None then Some res else job_result k d)"
  by (cases "find_job k d") (auto simp: job_result_def succeed_job_def find_job_update job_state_def)

lemma result_insert_job:
  "job_state k d \<noteq> None \<Longrightarrow> job_result k (insert_job r d) = job_result k d"
  by (auto simp: job_result_def insert_job_def find_job_def find_append job_state_def)

lemma leased_db_frames [frame_simps]:
  "job_of_key k (leased_db e ttl coord j w d) = job_of_key k d"
  "job_result k (leased_db e ttl coord j w d) = job_result k d"
proof -
  have "job_of_key k (leased_db e ttl coord j w d) = job_of_key k (set_job_state j Leased (e_now e) d)"
    by (simp add: job_of_key_def leased_db_fields)
  then show "job_of_key k (leased_db e ttl coord j w d) = job_of_key k d" by (simp add: frame_simps)
  have "job_result k (leased_db e ttl coord j w d) = job_result k (set_job_state j Leased (e_now e) d)"
    by (simp add: job_result_def find_job_def leased_db_fields)
  then show "job_result k (leased_db e ttl coord j w d) = job_result k d" by (simp add: frame_simps)
qed

lemma burn_frames [simp]:
  "job_of_key k (d\<lparr>fence_seq := n\<rparr>) = job_of_key k d" "job_of_key k (d\<lparr>tr_seq := n\<rparr>) = job_of_key k d"
  "job_of_key k (d\<lparr>ls_seq := n\<rparr>) = job_of_key k d" "job_of_key k (d\<lparr>cm_seq := n\<rparr>) = job_of_key k d"
  "job_result k (d\<lparr>fence_seq := n\<rparr>) = job_result k d" "job_result k (d\<lparr>tr_seq := n\<rparr>) = job_result k d"
  "job_result k (d\<lparr>ls_seq := n\<rparr>) = job_result k d" "job_result k (d\<lparr>cm_seq := n\<rparr>) = job_result k d"
  by (simp_all add: job_of_key_def job_result_def find_job_def)

lemma renew_frames [frame_simps]:
  "job_of_key k (snd (renew_tx e ttl j f d)) = job_of_key k d"
  "job_result k (snd (renew_tx e ttl j f d)) = job_result k d"
  by (simp_all add: renew_tx_def Let_def job_of_key_def job_result_def find_job_def)

lemma claim_tx_snd:
  "snd (claim_tx e ttl coord w d) =
     (case pick_pending (e_locked e) d of None \<Rightarrow> d | Some r \<Rightarrow> leased_db e ttl coord (j_id r) w d)"
  by (rule claim_tx_cases [of e d ttl coord w]) simp_all

lemma commit_writes_snd:
  "snd (commit_writes e coord j f w res rd d) =
     (case rd of
        (Some a, _) \<Rightarrow> d
      | (None, True) \<Rightarrow> if accepted_fence j d \<noteq> None then d\<lparr>cm_seq := cm_seq d + 1\<rparr>
                          else accepted_db e coord j f w res d
      | (None, False) \<Rightarrow> if fits_bigint f then insert_commit j f w False (e_ms e 1) d else d)"
  by (rule commit_writes_cases [of rd e coord j f w res d]) simp_all

lemma commit_writes_key:
  "job_of_key k (snd (commit_writes e coord j f w res rd d)) = job_of_key k d"
  by (simp add: commit_writes_snd accepted_db_def frame_simps split: option.split prod.split bool.split)

lemma commit_writes_exists:
  "job_state k d \<noteq> None \<Longrightarrow> job_state k (snd (commit_writes e coord j f w res rd d)) \<noteq> None"
  by (simp add: commit_writes_snd accepted_db_def frame_simps row_simps split: option.split prod.split bool.split)

text \<open>An idempotency key keeps its job for ever, and a job never disappears.\<close>

lemma tx_step_key: "tx_step d d' \<Longrightarrow> job_of_key k d = Some j \<Longrightarrow> job_of_key k d' = Some j"
proof (induction rule: tx_step.induct)
  case (submit d e key pl coord)
  then show ?case
    by (cases rule: create_tx_cases [of key d e pl coord]) (auto simp: frame_simps key_insert_job)
next
  case (commit d e coord j f w res)
  then show ?case by (simp add: commit_tx_def commit_writes_key)
qed (auto simp: frame_simps cancel_tx_def claim_tx_snd reap_tx_def Let_def split: option.splits)

lemma tx_step_exists: "tx_step d d' \<Longrightarrow> job_state j d \<noteq> None \<Longrightarrow> job_state j d' \<noteq> None"
proof (induction rule: tx_step.induct)
  case (submit d e key pl coord)
  then show ?case
    by (cases rule: create_tx_cases [of key d e pl coord]) (auto simp: frame_simps row_simps)
next
  case (commit d e coord j f w res)
  then show ?case unfolding commit_tx_def by (intro commit_writes_exists)
next
  case (claim d e ttl coord w)
  then show ?case by (auto simp: claim_tx_snd leased_db_fields row_simps split: option.split)
qed (auto simp: frame_simps row_simps cancel_tx_def reap_tx_def Let_def split: option.splits)

text \<open>
  A succeeded job keeps its state, its result and its accepted commit; a cancelled job stays
  cancelled.
\<close>

definition settled :: "uuid \<Rightarrow> jstate option \<times> json option \<times> int option \<Rightarrow> db \<Rightarrow> bool" where
  "settled j v d \<longleftrightarrow> (job_state j d, job_result j d, accepted_fence j d) = v"

lemma commit_writes_settled:
  assumes "core_inv d" and "settled j (Some Succeeded, r, a) d"
  shows "settled j (Some Succeeded, r, a) (snd (commit_writes e coord j' f w res rd d))"
proof (cases rule: commit_writes_cases [of rd e coord j' f w res d])
  case accepted
  then have "j \<noteq> j'" using assms succeeded_iff_accepted [OF assms(1), of j'] by (auto simp: settled_def)
  then show ?thesis
    using accepted assms(2)
    by (auto simp: settled_def accepted_db_def frame_simps row_simps result_succeed_job split: option.split)
qed (use assms succeeded_iff_accepted [OF assms(1), of j] in
    \<open>auto simp: settled_def frame_simps row_simps split: option.split\<close>)

lemma tx_step_succeeded:
  assumes "tx_step d d'" and "core_inv d" and "settled j (Some Succeeded, r, a) d"
  shows "settled j (Some Succeeded, r, a) d'"
  using assms
proof (induction rule: tx_step.induct)
  case (submit d e key pl coord)
  then show ?case
    by (cases rule: create_tx_cases [of key d e pl coord])
      (auto simp: settled_def frame_simps row_simps result_insert_job split: option.split)
next
  case (claim d e ttl coord w)
  then show ?case
    by (auto simp: claim_tx_snd settled_def leased_db_fields frame_simps row_simps
        dest!: picked_pending split: option.split)
next
  case (commit d e coord j' f w res)
  then show ?case unfolding commit_tx_def by (intro commit_writes_settled)
qed (auto simp: settled_def frame_simps row_simps cancel_tx_def reap_tx_def Let_def split: option.splits)

lemma tx_step_cancelled:
  assumes "tx_step d d'" and "core_inv d" and "job_state j d = Some Cancelled"
  shows "job_state j d' = Some Cancelled"
  using assms
proof (induction rule: tx_step.induct)
  case (submit d e key pl coord)
  then show ?case
    by (cases rule: create_tx_cases [of key d e pl coord]) (auto simp: frame_simps row_simps)
next
  case (claim d e ttl coord w)
  then show ?case
    by (auto simp: claim_tx_snd leased_db_fields row_simps dest!: picked_pending split: option.split)
next
  case (commit d e coord j' f w res)
  then show ?case
    using commit_reads_valid [of d e j' f]
    by (auto simp: commit_tx_def commit_writes_snd accepted_db_def frame_simps row_simps
        split: option.splits prod.split bool.split)
qed (auto simp: frame_simps row_simps cancel_tx_def reap_tx_def Let_def split: option.splits)

end
