(* ===== verification/Lifecycle.thy ===== *)
theory Lifecycle
  imports Transactions
begin

text \<open>
  The abstract life of a job, which is what the coordinators promise their clients, and the
  refinement: every transaction is at most one step of that life for one job. Then the
  handlers: whatever a request, a worker message, a dispatch round or a reap round does to the
  database is a sequence of the transactions.
\<close>

section \<open>The abstract dispatcher\<close>

text \<open>
  \<open>Held f\<close>: leased under token \<open>f\<close>; \<open>Done f\<close>: the result committed under token \<open>f\<close> is accepted.
\<close>

datatype astate = Absent | Queued | Held int | Done int | Gone

record spec =
  sp_jobs :: "uuid \<Rightarrow> astate"
  sp_last :: int

inductive spec_step :: "spec \<Rightarrow> spec \<Rightarrow> bool" where
  enqueue: "sp_jobs s j = Absent \<Longrightarrow> spec_step s (s\<lparr>sp_jobs := (sp_jobs s)(j := Queued)\<rparr>)"
| lease: "sp_jobs s j = Queued \<Longrightarrow> sp_last s < f \<Longrightarrow>
    spec_step s (s\<lparr>sp_jobs := (sp_jobs s)(j := Held f), sp_last := f\<rparr>)"
| requeue: "sp_jobs s j = Held f \<Longrightarrow> spec_step s (s\<lparr>sp_jobs := (sp_jobs s)(j := Queued)\<rparr>)"
| complete: "sp_jobs s j = Held f \<Longrightarrow> spec_step s (s\<lparr>sp_jobs := (sp_jobs s)(j := Done f)\<rparr>)"
| withdraw: "sp_jobs s j = Queued \<Longrightarrow> spec_step s (s\<lparr>sp_jobs := (sp_jobs s)(j := Gone)\<rparr>)"
| skip: "sp_last s \<le> f \<Longrightarrow> spec_step s (s\<lparr>sp_last := f\<rparr>)"

inductive_cases spec_stepE: "spec_step s t"

definition spec_start :: spec where
  "spec_start = \<lparr>sp_jobs = (\<lambda>_. Absent), sp_last = 0\<rparr>"

text \<open>No token of the abstract system is above the last one issued.\<close>

definition spec_ok :: "spec \<Rightarrow> bool" where
  "spec_ok s \<longleftrightarrow> (\<forall>j f. sp_jobs s j = Held f \<or> sp_jobs s j = Done f \<longrightarrow> f \<le> sp_last s)"

interpretation spc: step_system spec_start spec_step spec_ok
proof
  show "spec_ok spec_start" by (simp add: spec_ok_def spec_start_def)
next
  fix s t assume "spec_ok s" and "spec_step s t"
  from this(2,1) show "spec_ok t"
    by cases (fastforce simp: spec_ok_def)+
qed

lemma spec_done_final: "spec_step s t \<Longrightarrow> sp_jobs s j = Done f \<Longrightarrow> sp_jobs t j = Done f"
  by (erule spec_stepE) (auto simp: fun_upd_def)

section \<open>The abstraction\<close>

fun abs_of :: "jstate option \<Rightarrow> int option \<Rightarrow> int option \<Rightarrow> astate" where
  "abs_of (Some Pending) _ _ = Queued"
| "abs_of (Some Leased) (Some f) _ = Held f"
| "abs_of (Some Succeeded) _ (Some f) = Done f"
| "abs_of (Some Failed) _ _ = Gone"
| "abs_of (Some Cancelled) _ _ = Gone"
| "abs_of _ _ _ = Absent"

definition abs_job :: "db \<Rightarrow> uuid \<Rightarrow> astate" where
  "abs_job d j = abs_of (job_state j d) (max_fence j d) (accepted_fence j d)"

definition abs_db :: "db \<Rightarrow> spec" where
  "abs_db d = \<lparr>sp_jobs = abs_job d, sp_last = fence_seq d\<rparr>"

lemma abs_upd:
  assumes "\<And>k. k \<noteq> j \<Longrightarrow> job_state k d' = job_state k d \<and> max_fence k d' = max_fence k d \<and>
      accepted_fence k d' = accepted_fence k d"
    and "abs_job d' j = v"
  shows "abs_job d' = (sp_jobs (abs_db d))(j := v)"
  using assms by (auto simp: abs_db_def abs_job_def fun_eq_iff)

lemma abs_step:
  assumes "spec_step (abs_db d) ((abs_db d)\<lparr>sp_jobs := (sp_jobs (abs_db d))(j := v)\<rparr>)"
    and "\<And>k. k \<noteq> j \<Longrightarrow> job_state k d' = job_state k d \<and> max_fence k d' = max_fence k d \<and>
      accepted_fence k d' = accepted_fence k d"
    and "abs_job d' j = v" and "fence_seq d' = fence_seq d"
  shows "spec_step\<^sup>=\<^sup>= (abs_db d) (abs_db d')"
proof -
  have "abs_db d' = (abs_db d)\<lparr>sp_jobs := (sp_jobs (abs_db d))(j := v)\<rparr>"
    using abs_upd [OF assms(2,3)] assms(4) by (simp add: abs_db_def)
  then show ?thesis using assms(1) by simp
qed

lemma abs_same:
  assumes "\<And>k. job_state k d' = job_state k d" "\<And>k. max_fence k d' = max_fence k d"
    "\<And>k. accepted_fence k d' = accepted_fence k d" "fence_seq d' = fence_seq d"
  shows "spec_step\<^sup>=\<^sup>= (abs_db d) (abs_db d')"
proof -
  have "abs_db d' = abs_db d" using assms by (simp add: abs_db_def abs_job_def fun_eq_iff)
  then show ?thesis by simp
qed

lemma seq_frames [simp]:
  "fence_seq (insert_job r d) = fence_seq d" "fence_seq (set_job_state j s t d) = fence_seq d"
  "fence_seq (succeed_job j res t d) = fence_seq d" "fence_seq (expire_lease lid t d) = fence_seq d"
  "fence_seq (insert_commit j f w acc t d) = fence_seq d"
  "fence_seq (record_transition j fr to co t d) = fence_seq d"
  "fence_seq (snd (renew_tx e ttl j f d)) = fence_seq d"
  by (simp_all add: statement_defs renew_tx_def Let_def)

lemma abs_leased: "core_inv d \<Longrightarrow> job_state j d = Some Leased \<Longrightarrow> \<exists>f. abs_job d j = Held f \<and> max_fence j d = Some f"
  using core_invD(6) [of d] live_lease_latest [of d]
  by (fastforce simp: abs_job_def live_ok_def)

lemma abs_create: "spec_step\<^sup>=\<^sup>= (abs_db d) (abs_db (snd (create_tx e key pl coord d)))"
proof (cases rule: create_tx_cases [of key d e pl coord])
  case (new r)
  have none: "job_state (e_fresh e) d = None" using new by (simp add: job_state_def)
  then have "spec_step (abs_db d) ((abs_db d)\<lparr>sp_jobs := (sp_jobs (abs_db d))(e_fresh e := Queued)\<rparr>)"
    by (intro spec_step.enqueue) (simp add: abs_db_def abs_job_def)
  then show ?thesis
    by (rule abs_step)
      (use new none in \<open>auto simp: abs_job_def frame_simps row_simps split: option.split\<close>)
qed simp_all

lemma abs_cancel: "spec_step\<^sup>=\<^sup>= (abs_db d) (abs_db (snd (cancel_tx e j coord d)))"
proof (cases "job_state j d = Some Pending")
  case True
  then have "spec_step (abs_db d) ((abs_db d)\<lparr>sp_jobs := (sp_jobs (abs_db d))(j := Gone)\<rparr>)"
    by (intro spec_step.withdraw) (simp add: abs_db_def abs_job_def)
  then show ?thesis
    by (rule abs_step) (use True in \<open>auto simp: abs_job_def cancel_tx_def frame_simps row_simps\<close>)
qed (simp add: cancel_tx_def)

lemma max_fence_leased:
  assumes "core_inv d"
  shows "max_fence k (leased_db e ttl coord j w d) =
    (if k = j then Some (fence_seq d + 1) else max_fence k d)"
proof -
  have le: "\<forall>l \<in> set (leases d). l_fence l < fence_seq d + 1"
    using core_invD(2) [OF assms] by (auto simp: fences_ok_def)
  then have "max_fence k (leased_db e ttl coord j w d) = Some f \<longleftrightarrow>
      (if k = j then f = fence_seq d + 1 else max_fence k d = Some f)" for f
    by (auto simp: max_fence_iff leased_db_fields)
  then show ?thesis by (metis not_None_eq)
qed

lemma abs_claim:
  assumes "core_inv d"
  shows "spec_step\<^sup>=\<^sup>= (abs_db d) (abs_db (snd (claim_tx e ttl coord w d)))"
proof (cases rule: claim_tx_cases [of e d ttl coord w])
  case (claimed r)
  let ?j = "j_id r" and ?d = "leased_db e ttl coord (j_id r) w d" and ?f = "fence_seq d + 1"
  have pend: "job_state ?j d = Some Pending" using assms claimed(1) by (rule picked_pending)
  then have step: "spec_step (abs_db d)
      ((abs_db d)\<lparr>sp_jobs := (sp_jobs (abs_db d))(?j := Held ?f), sp_last := ?f\<rparr>)"
    by (intro spec_step.lease) (simp_all add: abs_db_def abs_job_def)
  have "abs_job ?d = (sp_jobs (abs_db d))(?j := Held ?f)"
    by (rule abs_upd)
      (use pend in \<open>simp_all add: abs_job_def max_fence_leased [OF assms] leased_db_fields row_simps\<close>)
  then have "abs_db ?d = (abs_db d)\<lparr>sp_jobs := (sp_jobs (abs_db d))(?j := Held ?f), sp_last := ?f\<rparr>"
    by (simp add: abs_db_def leased_db_fields)
  then show ?thesis using step claimed(2) by simp
qed simp

lemma abs_reap:
  assumes "core_inv d" and "lease_known lid j f d"
  shows "spec_step\<^sup>=\<^sup>= (abs_db d) (abs_db (snd (reap_tx e coord lid j f d)))"
  using assms
proof (cases rule: reap_tx_cases [where e = e and coord = coord])
  case (requeued l)
  obtain g where "abs_job d j = Held g" using abs_leased [OF assms(1) requeued(7)] by blast
  then have "spec_step (abs_db d) ((abs_db d)\<lparr>sp_jobs := (sp_jobs (abs_db d))(j := Queued)\<rparr>)"
    by (intro spec_step.requeue [where f = g]) (simp add: abs_db_def)
  then show ?thesis
    by (rule abs_step)
      (use requeued in \<open>auto simp: abs_job_def requeued_db_def frame_simps row_simps\<close>)
next
  case (expired l)
  then show ?thesis by (simp add: frame_simps abs_same del: sup_apply)
qed simp

lemma abs_commit:
  assumes "core_inv d"
  shows "spec_step\<^sup>=\<^sup>= (abs_db d) (abs_db (snd (commit_tx e coord j f w res d)))"
  unfolding commit_tx_def
proof (rule commit_writes_cases [of "commit_reads e j f d" e coord j f w res d], goal_cases)
  case 3
  from commit_reads_valid [OF assms 3(1)]
  have v: "job_state j d = Some Leased" "max_fence j d = Some f" "accepted_fence j d = None" by blast+
  then have "spec_step (abs_db d) ((abs_db d)\<lparr>sp_jobs := (sp_jobs (abs_db d))(j := Done f)\<rparr>)"
    by (intro spec_step.complete) (simp add: abs_db_def abs_job_def)
  then show ?case
    by (rule abs_step)
      (use 3 v in \<open>auto simp: abs_job_def accepted_db_def frame_simps row_simps split: option.split\<close>)
next
  case 5
  show ?case unfolding 5(3) snd_conv
    by (rule abs_same) (auto simp: frame_simps row_simps split: option.split)
qed (auto simp: commit_reads_def)

text \<open>The simulation.\<close>

lemma abs_burn:
  assumes "fence_seq d \<le> a"
  shows "spec_step\<^sup>=\<^sup>= (abs_db d) (abs_db (d\<lparr>fence_seq := a, tr_seq := b, ls_seq := c, cm_seq := n\<rparr>))"
proof -
  have "abs_db (d\<lparr>fence_seq := a, tr_seq := b, ls_seq := c, cm_seq := n\<rparr>) = (abs_db d)\<lparr>sp_last := a\<rparr>"
    by (simp add: abs_db_def abs_job_def fun_eq_iff max_fence_def latest_lease_def job_leases_def)
  then show ?thesis using spec_step.skip [of "abs_db d" a] assms by (simp add: abs_db_def)
qed

lemma abs_renew: "spec_step\<^sup>=\<^sup>= (abs_db d) (abs_db (snd (renew_tx e ttl j f d)))"
  by (rule abs_same) (simp_all add: frame_simps)

lemma tx_step_refines: "tx_step d d' \<Longrightarrow> core_inv d \<Longrightarrow> spec_step\<^sup>=\<^sup>= (abs_db d) (abs_db d')"
proof (induction rule: tx_step.induct)
  case submit then show ?case by (intro abs_create)
next
  case cancel then show ?case by (intro abs_cancel)
next
  case claim then show ?case by (intro abs_claim)
next
  case renew then show ?case by (intro abs_renew)
next
  case reap then show ?case by (intro abs_reap)
next
  case commit then show ?case by (intro abs_commit)
next
  case burn then show ?case by (intro abs_burn)
qed

end
