(* ===== verification/Handlers.thy ===== *)
theory Handlers
  imports Lifecycle
begin

text \<open>
  From the handlers to the transactions: whatever a request, a worker message, a dispatch
  round or a reap round does to the database is a sequence of transaction steps, and while the
  gate is closed it does nothing. Every invariant and every stable fact of the transactions
  therefore holds for the handlers.
\<close>

section \<open>Handlers are sequences of transactions\<close>

lemma roll_back_same [simp]: "roll_back d d = d"
  by (simp add: roll_back_def)

text \<open>
  A body that raises has not touched the database yet (the sequences excepted, which no body
  of the coordinators moves before it raises).
\<close>

lemma transaction_step:
  assumes "\<And>x. fst (body d) = Inl x \<Longrightarrow> snd (body d) = d" and "tx_step\<^sup>*\<^sup>* d (snd (body d))"
  shows "tx_step\<^sup>*\<^sup>* d (snd (transaction mt co body d))"
proof (cases "gate mt co")
  case None
  then show ?thesis
    using assms by (cases "body d"; cases "fst (body d)") (simp_all add: transaction_def)
qed (simp add: transaction_def)

lemma create_tx_raises: "fst (create_tx e key pl coord d) = Inl x \<Longrightarrow> snd (create_tx e key pl coord d) = d"
  by (auto simp: create_tx_def Let_def split: option.splits if_splits)

lemma commit_body_raises:
  "fst (commit_body e coord jv f w res d) = Inl x \<Longrightarrow> snd (commit_body e coord jv f w res d) = d"
  by (auto simp: commit_body_def commit_tx_def commit_writes_def
      split: sum.splits option.splits prod.splits bool.splits if_splits)

lemma create_job_db:
  "snd (snd (handle_create_job e body co d)) =
     (case body of
        None \<Rightarrow> d
      | Some b \<Rightarrow>
          (case parse_submit b of
             Inl r \<Rightarrow> d
           | Inr (key, pl) \<Rightarrow> snd (transaction (e_mono e) co (create_tx e key pl (co_id co)) d)))"
  by (auto simp: handle_create_job_def Let_def split: option.split sum.split prod.split exn.split)

lemma create_job_steps: "tx_step\<^sup>*\<^sup>* d (snd (snd (handle_create_job e body co d)))"
  unfolding create_job_db
  by (auto split: option.split sum.split prod.split
      intro!: transaction_step create_tx_raises tx_step.submit)

lemma cancel_body_raises:
  "fst (cancel_body e s coord d) = Inl x \<Longrightarrow> snd (cancel_body e s coord d) = d"
  by (auto simp: cancel_body_def split: sum.splits prod.splits)

lemma cancel_body_step: "tx_step\<^sup>*\<^sup>* d (snd (cancel_body e s coord d))"
proof (cases "as_uuid e s")
  case (Inr j)
  have "tx_step d (snd (cancel_tx e j coord d))" by (rule tx_step.cancel)
  then show ?thesis using Inr by (auto simp: cancel_body_def split: prod.split)
qed (simp add: cancel_body_def)

lemma cancel_job_db:
  "snd (handle_cancel_job e e2 between s co d) =
     (case transaction (e_mono e) co (cancel_body e s (co_id co)) d of
        (r, d') \<Rightarrow> if r = Inr False then between d' else d')"
proof -
  obtain r d' where t: "transaction (e_mono e) co (cancel_body e s (co_id co)) d = (r, d')"
    by (metis surj_pair)
  show ?thesis
  proof (cases r)
    case (Inl x)
    with t show ?thesis by (cases x) (simp_all add: handle_cancel_job_def)
  next
    case (Inr b)
    with t show ?thesis by (cases b) (simp_all add: handle_cancel_job_def Let_def)
  qed
qed

lemma cancel_job_steps:
  assumes "\<And>d. tx_step\<^sup>*\<^sup>* d (between d)"
  shows "tx_step\<^sup>*\<^sup>* d (snd (handle_cancel_job e e2 between s co d))"
proof -
  let ?t = "transaction (e_mono e) co (cancel_body e s (co_id co)) d"
  have "tx_step\<^sup>*\<^sup>* d (snd ?t)"
    by (rule transaction_step) (auto intro: cancel_body_raises cancel_body_step)
  then show ?thesis
    unfolding cancel_job_db using assms by (auto split: prod.split intro: rtranclp_trans)
qed

lemma claim_one_steps: "tx_step\<^sup>*\<^sup>* d (snd (snd (claim_one e a co d)))"
proof -
  let ?body = "claim_body e (co_ttl co) (co_id co) (w_id (co_conns co a))"
  have "tx_step\<^sup>*\<^sup>* d (snd (transaction (e_mono e) co ?body d))"
    by (rule transaction_step)
      (auto simp: claim_body_def split: prod.split intro!: r_into_rtranclp,
       metis snd_conv tx_step.claim)
  moreover have "snd (snd (claim_one e a co d)) = snd (transaction (e_mono e) co ?body d)"
    by (auto simp: claim_one_def Let_def split: prod.split sum.split option.split)
  ultimately show ?thesis by simp
qed

lemma claim_loop_steps:
  "claim_loop fuel es k a co d = Some (r, co', d') \<Longrightarrow> tx_step\<^sup>*\<^sup>* d d'"
proof (induction fuel arbitrary: k co d)
  case (Suc fuel)
  obtain r1 co1 d1 where c: "claim_one (es k) a co d = (r1, co1, d1)" by (metis surj_pair)
  have "tx_step\<^sup>*\<^sup>* d d1" using claim_one_steps [of d "es k" a co] c by simp
  then show ?case
    using Suc c by (auto split: if_splits sum.splits bool.splits intro: rtranclp_trans)
qed simp

lemma round_loop_steps: "round_loop es k as co d = Some (r, co', d') \<Longrightarrow> tx_step\<^sup>*\<^sup>* d d'"
proof (induction as arbitrary: k co d)
  case (Cons a as)
  then show ?case
    by (auto split: option.splits sum.splits dest!: claim_loop_steps intro: rtranclp_trans
        simp del: claim_loop.simps)
qed simp

lemma run_turn_steps: "run_turn mt es co d = Some (co', d') \<Longrightarrow> tx_step\<^sup>*\<^sup>* d d'"
  by (auto simp: run_turn_def dispatch_round_def Let_def split: if_splits dest: round_loop_steps)

lemma reap_one_steps:
  assumes "lease_known lid j f d"
  shows "tx_step\<^sup>*\<^sup>* d (snd (snd (reap_one e lid j f co d)))"
proof -
  let ?body = "reap_body e (co_id co) lid j f"
  have "tx_step\<^sup>*\<^sup>* d (snd (transaction (e_mono e) co ?body d))"
    by (rule transaction_step)
      (use assms in \<open>auto simp: reap_body_def split: prod.split intro!: r_into_rtranclp\<close>,
       metis snd_conv tx_step.reap)
  moreover have "snd (snd (reap_one e lid j f co d)) = snd (transaction (e_mono e) co ?body d)"
    by (auto simp: reap_one_def Let_def split: prod.split sum.split reap_outcome.split)
  ultimately show ?thesis by simp
qed

lemma lease_known_append: "lease_known lid j f d \<Longrightarrow> leases d' = leases d @ ls \<Longrightarrow> lease_known lid j f d'"
  by (auto simp: lease_known_def)

lemma lease_known_expire: "lease_known lid j f (expire_lease lid' t d) = lease_known lid j f d"
  by (simp add: lease_known_def expire_lease_def bex_upd_same)

lemma lease_known_renew: "lease_known lid j f (snd (renew_tx e ttl j' f' d)) = lease_known lid j f d"
  by (simp add: lease_known_def renew_tx_def Let_def bex_upd_same)

lemma tx_step_lease_known: "tx_step d d' \<Longrightarrow> lease_known lid j f d \<Longrightarrow> lease_known lid j f d'"
proof (induction rule: tx_step.induct)
  case (submit d e key pl coord)
  then show ?case
    by (cases rule: create_tx_cases [of key d e pl coord]) (simp_all add: lease_known_def frame_simps)
next
  case (claim d e ttl coord w)
  then show ?case
    by (auto simp: claim_tx_snd leased_db_fields elim!: lease_known_append split: option.split)
next
  case (commit d e coord j' f' w res)
  then show ?case
    by (auto simp: commit_tx_def commit_writes_snd lease_known_def accepted_db_def frame_simps
        split: option.split prod.split bool.split)
next
  case (reap lid' j' f' d e coord)
  then show ?case
    using lease_known_expire [unfolded lease_known_def]
    by (auto simp: reap_tx_def Let_def lease_known_def frame_simps split: option.split)
next
  case (renew d e ttl j f)
  then show ?case by (simp add: lease_known_renew)
qed (auto simp: lease_known_def cancel_tx_def frame_simps)

lemma tx_steps_lease_known: "tx_step\<^sup>*\<^sup>* d d' \<Longrightarrow> lease_known lid j f d \<Longrightarrow> lease_known lid j f d'"
  by (induction rule: rtranclp_induct) (auto intro: tx_step_lease_known)

lemma reap_rows_steps:
  "\<forall>l \<in> set ls. lease_known (l_id l) (l_job l) (l_fence l) d \<Longrightarrow>
     tx_step\<^sup>*\<^sup>* d (snd (snd (reap_rows es k ls co d)))"
proof (induction ls arbitrary: k co d)
  case (Cons l ls)
  obtain r co1 d1 where o: "reap_one (es k) (l_id l) (l_job l) (l_fence l) co d = (r, co1, d1)"
    by (metis surj_pair)
  have s1: "tx_step\<^sup>*\<^sup>* d d1"
    using reap_one_steps [of "l_id l" "l_job l" "l_fence l" d "es k" co] Cons.prems o by simp
  have "tx_step\<^sup>*\<^sup>* d1 (snd (snd (reap_rows es (Suc k) ls co1 d1)))"
    using Cons.prems s1 by (intro Cons.IH) (auto intro: tx_steps_lease_known)
  then show ?case using o s1 by (cases r) (auto intro: rtranclp_trans)
qed simp

lemma reap_round_steps: "tx_step\<^sup>*\<^sup>* d (snd (snd (reap_round es co d)))"
  unfolding reap_round_def fetch_def
  by (auto split: option.split intro!: reap_rows_steps reap_scan_known)

lemma heartbeat_steps: "tx_step\<^sup>*\<^sup>* d (snd (handle_heartbeat e data co d))"
  by (auto simp: handle_heartbeat_def Let_def split: option.split sum.split
      intro: tx_step.renew r_into_rtranclp)

lemma commit_body_step: "tx_step\<^sup>*\<^sup>* d (snd (commit_body e coord jv f w res d))"
  by (auto simp: commit_body_def split: sum.split intro: tx_step.commit r_into_rtranclp)

lemma handle_commit_db:
  "snd (snd (handle_commit e a data co d)) =
     (case as_int (dget data ''fence'') of
        None \<Rightarrow> d
      | Some f \<Rightarrow>
          if dget data ''job_id'' = JNull then d
          else snd (transaction (e_mono e) co
                 (commit_body e (co_id co) (dget data ''job_id'') f (w_id (co_conns co a))
                    (result_json (dget data ''result''))) d))"
  by (auto simp: handle_commit_def Let_def split: option.split prod.split sum.split)

lemma handle_commit_steps: "tx_step\<^sup>*\<^sup>* d (snd (snd (handle_commit e a data co d)))"
  unfolding handle_commit_db
  by (auto split: option.split intro!: transaction_step commit_body_raises commit_body_step)

section \<open>Fail-closed\<close>

text \<open>The promise of the gate to an operation behind it.\<close>

locale gated =
  fixes run :: "env \<Rightarrow> coord \<Rightarrow> db \<Rightarrow> db"
  assumes closed: "gate (e_mono e) co \<noteq> None \<Longrightarrow> run e co d = d"
begin

lemma partitioned_unchanged:
  "co_pool co \<Longrightarrow> e_mono e < co_part_until co \<Longrightarrow> run e co d = d"
  by (rule closed) (simp add: gate_partitioned)

lemma inv_while_closed: "gate (e_mono e) co \<noteq> None \<Longrightarrow> P d \<Longrightarrow> P (run e co d)"
  by (simp add: closed)

end

interpretation gcreate: gated "\<lambda>e co d. snd (snd (handle_create_job e body co d))"
  by unfold_locales
    (auto simp: create_job_db transaction_closed split: option.split sum.split prod.split)

interpretation gclaim: gated "\<lambda>e co d. snd (snd (claim_one e a co d))"
  by unfold_locales (auto simp: claim_one_def transaction_closed)

interpretation greap: gated "\<lambda>e co d. snd (snd (reap_one e lid j f co d))"
  by unfold_locales (auto simp: reap_one_def transaction_closed)

interpretation gbeat: gated "\<lambda>e co d. snd (handle_heartbeat e data co d)"
  by unfold_locales (auto simp: handle_heartbeat_def Let_def split: option.split)

interpretation gcommit: gated "\<lambda>e co d. snd (snd (handle_commit e a data co d))"
  by unfold_locales (auto simp: handle_commit_db transaction_closed split: option.split)

end
