(* ===== verification/Interleaving.thy ===== *)
theory Interleaving
  imports Handlers
begin

text \<open>
  The commit handler as it really runs. The database works at READ COMMITTED and the two reads
  of \<open>handle_commit\<close> take no row lock, so other transactions may commit between the reads and
  the writes; and the reply to the worker is sent before the transaction commits, so the
  coordinator may be killed in between. This theory gives every other transaction as an atomic
  step and splits the commit handler into its reads and its writes, with a crash as the
  alternative to the commit. The core invariant survives; the history invariant does not, and
  concrete runs show how.
\<close>

section \<open>The system with open commit transactions\<close>

record open_commit =
  oc_reads :: "int option \<times> bool"
  oc_job :: uuid
  oc_fence :: int
  oc_worker :: string
  oc_result :: json
  oc_coord :: string

text \<open>\<open>s_replies\<close>: worker, job, fence and verdict of every reply a commit handler decided on.\<close>

record sys =
  s_db :: db
  s_open :: "nat \<Rightarrow> open_commit option"
  s_replies :: "(string \<times> uuid \<times> int \<times> bool) list"

definition sys_start :: sys where
  "sys_start = \<lparr>s_db = empty_db, s_open = (\<lambda>_. None), s_replies = []\<rparr>"

definition open_tx :: "env \<Rightarrow> string \<Rightarrow> uuid \<Rightarrow> int \<Rightarrow> string \<Rightarrow> json \<Rightarrow> db \<Rightarrow> open_commit" where
  "open_tx e coord j f w res d = \<lparr>oc_reads = commit_reads e j f d, oc_job = j, oc_fence = f,
     oc_worker = w, oc_result = res, oc_coord = coord\<rparr>"

definition finish_tx :: "env \<Rightarrow> open_commit \<Rightarrow> db \<Rightarrow> (exn + commit_outcome) \<times> db" where
  "finish_tx e oc d =
     commit_writes e (oc_coord oc) (oc_job oc) (oc_fence oc) (oc_worker oc) (oc_result oc) (oc_reads oc) d"

definition reply_of :: "open_commit \<Rightarrow> exn + commit_outcome \<Rightarrow> (string \<times> uuid \<times> int \<times> bool) list" where
  "reply_of oc r =
     (case r of
        Inl _ \<Rightarrow> []
      | Inr out \<Rightarrow> [(oc_worker oc, oc_job oc, oc_fence oc, outcome_accepted out)])"

inductive sys_step :: "sys \<Rightarrow> sys \<Rightarrow> bool" where
  other: "tx_step (s_db s) d \<Longrightarrow> sys_step s (s\<lparr>s_db := d\<rparr>)"
| begin_commit: "s_open s n = None \<Longrightarrow>
    sys_step s (s\<lparr>s_open := (s_open s)(n \<mapsto> open_tx e coord j f w res (s_db s))\<rparr>)"
| end_commit: "s_open s n = Some oc \<Longrightarrow> finish_tx e oc (s_db s) = (r, d) \<Longrightarrow>
    sys_step s (s\<lparr>s_db := d, s_open := (s_open s)(n := None), s_replies := s_replies s @ reply_of oc r\<rparr>)"
| killed_after_reply: "s_open s n = Some oc \<Longrightarrow> finish_tx e oc (s_db s) = (r, d) \<Longrightarrow>
    sys_step s (s\<lparr>s_db := roll_back (s_db s) d, s_open := (s_open s)(n := None),
      s_replies := s_replies s @ reply_of oc r\<rparr>)"
| killed_before_writes: "s_open s n = Some oc \<Longrightarrow>
    sys_step s (s\<lparr>s_open := (s_open s)(n := None)\<rparr>)"

inductive_cases sys_stepE: "sys_step s t"

section \<open>What every interleaving keeps\<close>

text \<open>An open commit that read a valid lease is about an existing job.\<close>

definition sys_inv :: "sys \<Rightarrow> bool" where
  "sys_inv s \<longleftrightarrow> core_inv (s_db s) \<and>
     (\<forall>n oc. s_open s n = Some oc \<longrightarrow> snd (oc_reads oc) \<longrightarrow> job_state (oc_job oc) (s_db s) \<noteq> None)"

lemma reads_exists:
  assumes "core_inv d" and "snd (commit_reads e j f d)"
  shows "job_state j d \<noteq> None"
proof -
  obtain l where "latest_lease j d = Some l"
    using assms(2) by (auto simp: commit_reads_def split: option.splits)
  from latest_lease_mem [OF this] show ?thesis
    using core_invD(6) [OF assms(1)] by (auto simp: live_ok_def)
qed

lemma roll_back_core:
  "core_inv d \<Longrightarrow> fence_seq d \<le> fence_seq d' \<Longrightarrow> tr_seq d \<le> tr_seq d' \<Longrightarrow> ls_seq d \<le> ls_seq d' \<Longrightarrow>
     cm_seq d \<le> cm_seq d' \<Longrightarrow> core_inv (roll_back d d')"
  unfolding roll_back_def by (rule burn_core)

lemma commit_writes_seqs:
  fixes d :: db
  assumes "d' = snd (commit_writes e coord j f w res rd d)"
  shows "fence_seq d \<le> fence_seq d'" "tr_seq d \<le> tr_seq d'" "ls_seq d \<le> ls_seq d'" "cm_seq d \<le> cm_seq d'"
  using assms by (auto simp: commit_writes_snd accepted_db_def statement_defs
      split: option.splits prod.splits bool.splits if_splits)

lemma sys_step_inv:
  assumes "sys_inv s" and "sys_step s t"
  shows "sys_inv t"
  using assms(2,1)
proof (induction rule: sys_step.induct)
  case (other s d)
  have keep: "job_state k d \<noteq> None" if "job_state k (s_db s) \<noteq> None" for k
    using other(1) that by (rule tx_step_exists)
  have "core_inv d" using other by (auto simp: sys_inv_def intro: tx_step_core)
  moreover have "job_state (oc_job oc) d \<noteq> None" if "s_open s n = Some oc" "snd (oc_reads oc)" for n oc
    using other(2) that by (intro keep) (simp add: sys_inv_def)
  ultimately show ?case by (simp add: sys_inv_def)
next
  case (begin_commit s n e coord j f w res)
  then show ?case by (auto simp: sys_inv_def open_tx_def dest: reads_exists)
next
  case (end_commit s n oc e r d)
  have d: "d = snd (finish_tx e oc (s_db s))" using end_commit(2) by simp
  have "core_inv d"
    unfolding d finish_tx_def using end_commit by (intro commit_writes_core) (auto simp: sys_inv_def)
  moreover have "job_state k d \<noteq> None" if "job_state k (s_db s) \<noteq> None" for k
    unfolding d finish_tx_def using that by (rule commit_writes_exists)
  ultimately show ?case using end_commit(3) by (auto simp: sys_inv_def)
next
  case (killed_after_reply s n oc e r d)
  then have d: "d = snd (finish_tx e oc (s_db s))" by simp
  have "core_inv (roll_back (s_db s) d)"
    using killed_after_reply(3) commit_writes_seqs [OF d [unfolded finish_tx_def]]
    by (intro roll_back_core) (simp_all add: sys_inv_def)
  then show ?case using killed_after_reply(3)
    by (auto simp: sys_inv_def roll_back_def)
next
  case (killed_before_writes s n oc)
  then show ?case by (auto simp: sys_inv_def)
qed

interpretation sysm: step_system sys_start sys_step sys_inv
proof unfold_locales
  show "sys_inv sys_start" by (simp add: sys_inv_def sys_start_def core_inv_empty)
  show "sys_inv t" if "sys_inv s" "sys_step s t" for s t
    using that by (rule sys_step_inv)
qed

lemma sys_reach_core: "sys_step\<^sup>*\<^sup>* sys_start s \<Longrightarrow> core_inv (s_db s)"
  using sysm.ok_reachable by (simp add: sys_inv_def)

lemma sys_step_settled:
  assumes "sys_step s t" and "sys_inv s" and "settled j (Some Succeeded, r, a) (s_db s)"
  shows "settled j (Some Succeeded, r, a) (s_db t)"
  using assms
proof (induction rule: sys_step.induct)
  case (other s d)
  then show ?case by (auto simp: sys_inv_def intro: tx_step_succeeded)
next
  case (end_commit s n oc e r' d)
  then have d: "d = snd (finish_tx e oc (s_db s))" by simp
  show ?case
    unfolding d finish_tx_def using end_commit(3,4)
    by (simp add: commit_writes_settled sys_inv_def)
next
  case (killed_after_reply s n oc e r' d)
  then show ?case by (simp add: settled_def roll_back_def)
qed simp_all

lemma sys_steps_settled:
  "sys_step\<^sup>*\<^sup>* s t \<Longrightarrow> sys_inv s \<Longrightarrow> settled j (Some Succeeded, r, a) (s_db s) \<Longrightarrow>
     settled j (Some Succeeded, r, a) (s_db t)"
  by (rule sysm.stable_steps [where P = "\<lambda>s. settled j (Some Succeeded, r, a) (s_db s)"])
    (auto intro: sys_step_settled)

lemma sys_step_key:
  assumes "sys_step s t" and "job_of_key k (s_db s) = Some j"
  shows "job_of_key k (s_db t) = Some j"
  using assms
proof (induction rule: sys_step.induct)
  case (other s d)
  then show ?case by (simp add: tx_step_key)
next
  case (end_commit s n oc e r' d)
  then have d: "d = snd (finish_tx e oc (s_db s))" by simp
  show ?case unfolding d finish_tx_def using end_commit(3) by (simp add: commit_writes_key)
next
  case (killed_after_reply s n oc e r' d)
  then show ?case by (simp add: roll_back_def)
qed simp_all

section \<open>Runs that the handler's documentation rules out\<close>

text \<open>
  Job \<open>j\<close> is submitted at 100 and leased to \<open>w1\<close> at 200 with a time to live of 1000.
\<close>

definition race_leased :: db where
  "race_leased = snd (claim_tx (env_at 200 []) 1000 ''c1'' ''w1''
     (snd (create_tx (env_at 100 ''j'') ''k'' (JObj []) ''c1'' empty_db)))"

text \<open>The commit of \<open>w1\<close> reads at 1100, in time.\<close>

definition race_open :: open_commit where
  "race_open = open_tx (env_at 1100 []) ''c1'' ''j'' 1 ''w1'' (JInt 1) race_leased"

text \<open>At 1300 the reaper of \<open>c2\<close> expires the lease; at 1400 the job is leased again, to \<open>w2\<close>.\<close>

definition race_reaped :: db where
  "race_reaped = snd (reap_tx (env_at 1300 []) ''c2'' 1 ''j'' 1 race_leased)"

definition race_released :: db where
  "race_released = snd (claim_tx (env_at 1400 []) 1000 ''c2'' ''w2'' race_reaped)"

definition race_sys :: "db \<Rightarrow> sys" where
  "race_sys d = \<lparr>s_db = d, s_open = [0 \<mapsto> race_open], s_replies = []\<rparr>"

lemma race_begin: "sys_step\<^sup>*\<^sup>* sys_start (race_sys race_leased)"
proof -
  let ?d1 = "snd (create_tx (env_at 100 ''j'') ''k'' (JObj []) ''c1'' empty_db)"
  have 1: "sys_step sys_start (sys_start\<lparr>s_db := ?d1\<rparr>)"
    by (rule sys_step.other) (simp add: sys_start_def tx_step.submit)
  have 2: "sys_step (sys_start\<lparr>s_db := ?d1\<rparr>) (sys_start\<lparr>s_db := race_leased\<rparr>)"
    using sys_step.other [of "sys_start\<lparr>s_db := ?d1\<rparr>" race_leased]
    by (simp add: race_leased_def tx_step.claim)
  have 3: "sys_step (sys_start\<lparr>s_db := race_leased\<rparr>) (race_sys race_leased)"
    using sys_step.begin_commit [of "sys_start\<lparr>s_db := race_leased\<rparr>" 0 "env_at 1100 []" "''c1''" "''j''" 1 "''w1''" "JInt 1"]
    by (simp add: race_sys_def race_open_def sys_start_def)
  from 1 2 3 show ?thesis by (meson converse_rtranclp_into_rtranclp rtranclp.rtrancl_refl)
qed

lemma race_other:
  "sys_step\<^sup>*\<^sup>* sys_start (race_sys d) \<Longrightarrow> tx_step d d' \<Longrightarrow> sys_step\<^sup>*\<^sup>* sys_start (race_sys d')"
  using sys_step.other [of "race_sys d" d'] by (simp add: race_sys_def rtranclp.rtrancl_into_rtrancl)

lemma race_lease_known: "lease_known 1 ''j'' 1 race_leased"
  by code_simp

lemma race_to_reaped: "sys_step\<^sup>*\<^sup>* sys_start (race_sys race_reaped)"
  unfolding race_reaped_def
  by (rule race_other [OF race_begin]) (rule tx_step.reap [OF race_lease_known])

lemma race_to_released: "sys_step\<^sup>*\<^sup>* sys_start (race_sys race_released)"
  unfolding race_released_def by (rule race_other [OF race_to_reaped]) (rule tx_step.claim)

lemma race_end:
  assumes "sys_step\<^sup>*\<^sup>* sys_start (race_sys d)" and "finish_tx e race_open d = (r, d')"
  shows "sys_step\<^sup>*\<^sup>* sys_start \<lparr>s_db = d', s_open = (\<lambda>_. None), s_replies = reply_of race_open r\<rparr>"
proof -
  have "sys_step (race_sys d) \<lparr>s_db = d', s_open = (\<lambda>_. None), s_replies = reply_of race_open r\<rparr>"
    using sys_step.end_commit [of "race_sys d" 0 race_open e r d'] assms(2)
    by (simp add: race_sys_def)
  with assms(1) show ?thesis by (rule rtranclp.rtrancl_into_rtrancl)
qed


text \<open>What the delayed writes of \<open>w1\<close> do after the job was leased to \<open>w2\<close>, and after it came back.\<close>

lemma race_stale_accept:
  "sys_step\<^sup>*\<^sup>* sys_start
     \<lparr>s_db = snd (finish_tx (env_at 1500 []) race_open race_released), s_open = (\<lambda>_. None),
      s_replies = [(''w1'', ''j'', 1, True)]\<rparr>"
proof -
  have r: "reply_of race_open (fst (finish_tx (env_at 1500 []) race_open race_released)) =
      [(''w1'', ''j'', 1, True)]" by code_simp
  from race_end [OF race_to_released prod.collapse [symmetric]]
  show ?thesis unfolding r [symmetric] .
qed

lemma race_stale_accept_fences:
  "accepted_fence ''j'' (snd (finish_tx (env_at 1500 []) race_open race_released)) = Some 1"
  "max_fence ''j'' (snd (finish_tx (env_at 1500 []) race_open race_released)) = Some 2"
  by code_simp+

end
