(* ===== verification/AuditTrail.thy ===== *)
theory AuditTrail
  imports Interleaving
begin

text \<open>
  The audit endpoint, \<open>handle_audit\<close> of \<open>coordinator/app.py\<close>: three independent queries over
  the append-only tables, rendered as JSON. It is all the harness sees of the system.
\<close>

section \<open>The rows\<close>

definition opt_int :: "int option \<Rightarrow> json" where
  "opt_int x = (case x of None \<Rightarrow> JNull | Some n \<Rightarrow> JInt n)"

definition trans_json :: "trans_row \<Rightarrow> json" where
  "trans_json t = JObj
     [(''from'', case t_from t of None \<Rightarrow> JNull | Some s \<Rightarrow> JStr (state_text s)),
      (''to'', JStr (state_text (t_to t))), (''at_ms'', JInt (t_at t)), (''coordinator'', JStr (t_coord t))]"

definition commit_json :: "commit_row \<Rightarrow> json" where
  "commit_json c = JObj
     [(''accepted'', JBool (c_accepted c)), (''fence'', JInt (c_fence c)),
      (''worker'', JStr (c_worker c)), (''at_ms'', JInt (c_at c))]"

definition lease_json :: "lease_row \<Rightarrow> json" where
  "lease_json l = JObj
     [(''fence'', JInt (l_fence l)), (''worker'', JStr (l_worker l)),
      (''issued_at_ms'', JInt (l_issued l)), (''expired_at_ms'', opt_int (l_expired l))]"

text \<open>The three queries: one job, in the order of the endpoint.\<close>

definition audit_transitions :: "uuid \<Rightarrow> db \<Rightarrow> trans_row list" where
  "audit_transitions j d = sort_key (\<lambda>t. (t_at t, t_id t)) (filter (\<lambda>t. t_job t = j) (transitions d))"

definition audit_commits :: "uuid \<Rightarrow> db \<Rightarrow> commit_row list" where
  "audit_commits j d = sort_key (\<lambda>c. (c_at c, c_id c)) (filter (\<lambda>c. c_job c = j) (commits d))"

definition audit_leases :: "uuid \<Rightarrow> db \<Rightarrow> lease_row list" where
  "audit_leases j d = sort_key (\<lambda>l. (l_issued l, l_fence l)) (filter (\<lambda>l. l_job l = j) (leases d))"

definition audit_body :: "uuid \<Rightarrow> db \<Rightarrow> db \<Rightarrow> db \<Rightarrow> json" where
  "audit_body j d1 d2 d3 = JObj
     [(''transitions'', JList (map trans_json (audit_transitions j d1))),
      (''commits'', JList (map commit_json (audit_commits j d2))),
      (''lease_history'', JList (map lease_json (audit_leases j d3)))]"

section \<open>The handler\<close>

text \<open>
  The three queries run one after the other, each gated at its own time and each on the state
  it finds: \<open>e1\<close>, \<open>e2\<close>, \<open>e3\<close> are their environments, \<open>d1\<close>, \<open>d2\<close>, \<open>d3\<close> the states. A
  parameter that is absent or empty is refused.
\<close>

definition handle_audit ::
    "env \<Rightarrow> env \<Rightarrow> env \<Rightarrow> string option \<Rightarrow> coord \<Rightarrow> db \<Rightarrow> db \<Rightarrow> db \<Rightarrow> exn + response" where
  "handle_audit e1 e2 e3 param co d1 d2 d3 =
     (case param of
        None \<Rightarrow> err 400 ''job_id query param required''
      | Some s \<Rightarrow>
          if s = [] then err 400 ''job_id query param required''
          else
            (let fail = (\<lambda>x. if x = DBPartitioned then err 503 ''database partitioned; retry later''
                              else err 400 ''invalid job_id'')
             in case fetch (e_mono e1) co (\<lambda>d. map_sum id (\<lambda>j. audit_transitions j d) (as_uuid e1 s)) d1 of
                  Inl x \<Rightarrow> fail x
                | Inr ts \<Rightarrow>
                    (case fetch (e_mono e2) co (\<lambda>d. map_sum id (\<lambda>j. audit_commits j d) (as_uuid e2 s)) d2 of
                       Inl x \<Rightarrow> fail x
                     | Inr cs \<Rightarrow>
                         (case fetch (e_mono e3) co (\<lambda>d. map_sum id (\<lambda>j. audit_leases j d) (as_uuid e3 s)) d3 of
                            Inl x \<Rightarrow> fail x
                          | Inr ls \<Rightarrow>
                              Inr (200, JObj
                                [(''transitions'', JList (map trans_json ts)),
                                 (''commits'', JList (map commit_json cs)),
                                 (''lease_history'', JList (map lease_json ls))])))))"

section \<open>Lemmas\<close>

lemma handle_audit_ok:
  assumes "gate (e_mono e1) co = None" "gate (e_mono e2) co = None" "gate (e_mono e3) co = None"
    and "e_uuid e1 s = Some j" "e_uuid e2 s = Some j" "e_uuid e3 s = Some j" and "s \<noteq> []"
  shows "handle_audit e1 e2 e3 (Some s) co d1 d2 d3 = Inr (200, audit_body j d1 d2 d3)"
  using assms by (simp add: handle_audit_def fetch_def as_uuid_def audit_body_def Let_def)

lemma sort_key_id_of_sorted:
  "sorted_wrt (\<lambda>x y. key x \<le> key y) xs \<Longrightarrow> sort_key key xs = xs"
  by (rule sort_key_id_if_sorted) (simp add: sorted_map)

lemma sorted_wrt_filterI: "sorted_wrt P xs \<Longrightarrow> sorted_wrt P (filter Q xs)"
  by (induction xs) auto

text \<open>The lease history comes out in table order, because fences and issue times both increase.\<close>

lemma audit_leases_order:
  assumes "fences_ok d"
  shows "audit_leases j d = filter (\<lambda>l. l_job l = j) (leases d)"
  unfolding audit_leases_def
proof (rule sort_key_id_of_sorted)
  have "sorted_wrt (\<lambda>a b. l_issued a < l_issued b) (leases d)"
    using assms by (simp add: fences_ok_def sorted_wrt_map)
  then have "sorted_wrt (\<lambda>a b. (l_issued a, l_fence a) \<le> (l_issued b, l_fence b)) (leases d)"
    by (rule sorted_wrt_mono_rel [rotated]) auto
  then show "sorted_wrt (\<lambda>a b. (l_issued a, l_fence a) \<le> (l_issued b, l_fence b))
      (filter (\<lambda>l. l_job l = j) (leases d))"
    by (rule sorted_wrt_filterI)
qed

lemma audit_leases_fences:
  assumes "fences_ok d"
  shows "sorted_wrt (<) (map l_fence (audit_leases j d))"
  using assms unfolding audit_leases_order [OF assms]
  by (simp add: fences_ok_def sorted_wrt_map sorted_wrt_filterI)

lemma audit_sets [simp]:
  "set (audit_transitions j d) = {t \<in> set (transitions d). t_job t = j}"
  "set (audit_commits j d) = {c \<in> set (commits d). c_job c = j}"
  "set (audit_leases j d) = {l \<in> set (leases d). l_job l = j}"
  by (auto simp: audit_transitions_def audit_commits_def audit_leases_def)

lemma filter_sort_length: "length (filter P (sort_key f xs)) = length (filter P xs)"
  by (simp add: filter_sort)

lemma accepted_count:
  assumes "one_accept d"
  shows "length (filter c_accepted (audit_commits j d)) = (if accepted_fence j d = None then 0 else 1)"
proof -
  have "length (filter c_accepted (audit_commits j d)) =
      length (filter (\<lambda>c. c_job c = j \<and> c_accepted c) (commits d))"
    by (simp add: audit_commits_def filter_sort_length conj_commute)
  then show ?thesis using accepted_rows [OF assms] by simp
qed

end
