(* ===== verification/Faults.thy ===== *)
theory Faults
  imports Handlers
begin

text \<open>
  Fault injection, \<open>coordinator/chaos.py\<close>: the faults one coordinator applies to its own
  process state, the HTTP handler, and the subscriber that applies the faults of its peers.
  The two promises are that a broadcast fault takes effect once on every coordinator, and that
  a local fault (database partition, clock skew) never leaves the coordinator it was sent to.
\<close>

section \<open>Applying a fault\<close>

definition chaos_channel :: string where "chaos_channel = ''chaos:faults''"

definition broadcast_faults :: "string list" where
  "broadcast_faults = [''pause_dispatch'', ''drop_acks'']"

definition all_faults :: "string list" where
  "all_faults = broadcast_faults @ [''partition_db'', ''clock_skew'']"

text \<open>
  \<open>apply_fault_local\<close>: \<open>mt\<close> is the monotonic clock in milliseconds. \<open>int(...)\<close> of the
  parameter may raise; nothing has changed then.
\<close>

definition apply_fault_local :: "int \<Rightarrow> string \<Rightarrow> json \<Rightarrow> coord \<Rightarrow> exn + (bool \<times> coord)" where
  "apply_fault_local mt fault params co =
     (if fault = ''pause_dispatch'' then
        (case py_int (dget_or params ''ms'' (JInt 0)) of
           Inl x \<Rightarrow> Inl x
         | Inr ms \<Rightarrow> Inr (True, co\<lparr>co_paused_until := mt + ms\<rparr>))
      else if fault = ''drop_acks'' then
        (case py_int (dget_or params ''n'' (JInt 0)) of
           Inl x \<Rightarrow> Inl x
         | Inr n \<Rightarrow> Inr (True, co\<lparr>co_drop_acks := co_drop_acks co + max 0 n\<rparr>))
      else if fault = ''partition_db'' then
        (case py_int (dget_or params ''ms'' (JInt 0)) of
           Inl x \<Rightarrow> Inl x
         | Inr ms \<Rightarrow> Inr (True, partition_db mt (max 0 ms) co))
      else if fault = ''clock_skew'' then
        (case py_int (dget_or params ''seconds'' (JInt 0)) of
           Inl x \<Rightarrow> Inl x
         | Inr secs \<Rightarrow> Inr (True, co\<lparr>co_skew := secs\<rparr>))
      else Inr (False, co))"

section \<open>The handler\<close>

text \<open>\<open>x or {}\<close>.\<close>

definition or_empty :: "json \<Rightarrow> json" where
  "or_empty v = (if py_truth v then v else JObj [])"

definition fault_message :: "string \<Rightarrow> json \<Rightarrow> string \<Rightarrow> json" where
  "fault_message fault params from =
     JObj [(''fault'', JStr fault), (''params'', params), (''from'', JStr from)]"

definition handle_chaos :: "env \<Rightarrow> json option \<Rightarrow> coord \<Rightarrow> (exn + response) \<times> coord" where
  "handle_chaos e body co =
     (case body of
        None \<Rightarrow> (err 400 ''invalid JSON body'', co)
      | Some b \<Rightarrow>
          (case jget b ''fault'' of
             Inl x \<Rightarrow> (Inl x, co)
           | Inr _ \<Rightarrow>
               (let params = or_empty (dget b ''params'')
                in case as_str (dget b ''fault'') of
                     None \<Rightarrow> (err 400 ''body must be {fault: str, params: object}'', co)
                   | Some fault \<Rightarrow>
                       if \<not> is_dict params then
                         (err 400 ''body must be {fault: str, params: object}'', co)
                       else if fault \<notin> set all_faults then
                         (err 400 (''unknown fault: '' @ fault), co)
                       else
                         (case apply_fault_local (e_mono e) fault params co of
                            Inl x \<Rightarrow> (Inl x, co)
                          | Inr (_, co1) \<Rightarrow>
                              (let co2 = (if fault \<in> set broadcast_faults
                                 then publish (e_redis e 0) chaos_channel
                                        (fault_message fault params (co_id co1)) co1
                                 else co1)
                               in (Inr (200, JObj [(''ok'', JBool True), (''fault'', JStr fault),
                                                   (''params'', params)]), co2))))))"

section \<open>The subscriber\<close>

text \<open>
  One message of the channel, decoded; an exception ends the subscription. The guard applies
  only the broadcast faults, whatever a peer sends.
\<close>

definition chaos_deliver :: "int \<Rightarrow> json \<Rightarrow> coord \<Rightarrow> exn + coord" where
  "chaos_deliver mt payload co =
     (case jget payload ''from'' of
        Inl x \<Rightarrow> Inl x
      | Inr _ \<Rightarrow>
          if dget payload ''from'' = JStr (co_id co) then Inr co
          else
            (let params = or_empty (dget payload ''params'')
             in case as_str (dget payload ''fault'') of
                  None \<Rightarrow> Inr co
                | Some fault \<Rightarrow>
                    if is_dict params \<and> fault \<in> set broadcast_faults then
                      (case apply_fault_local mt fault params co of
                         Inl x \<Rightarrow> Inl x
                       | Inr (_, co') \<Rightarrow> Inr co')
                    else Inr co))"

text \<open>
  The loop over what the channel yields, with the time of each: whether it is of type
  \<open>message\<close>, and the payload if it decodes. The result is the state in which the subscriber
  is when the list ends, or in which it stopped for good.
\<close>

fun chaos_subscriber :: "(int \<times> bool \<times> json option) list \<Rightarrow> coord \<Rightarrow> coord" where
  "chaos_subscriber [] co = co"
| "chaos_subscriber ((mt, is_msg, payload) # msgs) co =
     (if \<not> is_msg then chaos_subscriber msgs co
      else case payload of
        None \<Rightarrow> chaos_subscriber msgs co
      | Some p \<Rightarrow>
          (case chaos_deliver mt p co of
             Inl x \<Rightarrow> co
           | Inr co' \<Rightarrow> chaos_subscriber msgs co'))"

section \<open>Lemmas\<close>

lemma or_empty_dict: "is_dict v \<Longrightarrow> or_empty v = v"
  by (cases v) (auto simp: or_empty_def)

lemma broadcast_fault_cases:
  assumes "fault \<in> set broadcast_faults"
  obtains "fault = ''pause_dispatch''" | "fault = ''drop_acks''"
  using assms by (auto simp: broadcast_faults_def)

lemma fault_frame:
  assumes "apply_fault_local mt fault params co = Inr (b, co')"
  shows "co_id co' = co_id co" "co_conns co' = co_conns co" "co_reg co' = co_reg co"
    "co_pool co' = co_pool co" "co_ttl co' = co_ttl co"
  using assms by (auto simp: apply_fault_local_def partition_db_def split: if_splits sum.splits)

lemma broadcast_fault_local_state:
  assumes "fault \<in> set broadcast_faults" and "apply_fault_local mt fault params co = Inr (b, co')"
  shows "co_part_until co' = co_part_until co \<and> co_skew co' = co_skew co"
  using assms by (auto simp: broadcast_faults_def apply_fault_local_def split: if_splits sum.splits)

lemma chaos_deliver_frame:
  "chaos_deliver mt p co = Inr co' \<Longrightarrow>
     co_id co' = co_id co \<and> co_part_until co' = co_part_until co \<and> co_skew co' = co_skew co"
  by (auto simp: chaos_deliver_def Let_def split: sum.splits option.splits if_splits
      dest: broadcast_fault_local_state fault_frame(1))

lemma chaos_deliver_own: "chaos_deliver mt (fault_message fault params (co_id co)) co = Inr co"
  by (simp add: chaos_deliver_def fault_message_def)

lemma chaos_deliver_peer:
  assumes "from \<noteq> co_id co" and "is_dict params" and "fault \<in> set broadcast_faults"
  shows "chaos_deliver mt (fault_message fault params from) co =
    map_sum id snd (apply_fault_local mt fault params co)"
proof -
  show ?thesis
    using assms or_empty_dict [OF assms(2)]
    by (simp add: chaos_deliver_def fault_message_def split: sum.split prod.split)
qed

lemma chaos_subscriber_frame:
  "co_part_until (chaos_subscriber msgs co) = co_part_until co \<and>
     co_skew (chaos_subscriber msgs co) = co_skew co"
  by (induction msgs co rule: chaos_subscriber.induct)
    (auto split: option.splits sum.splits dest: chaos_deliver_frame)

text \<open>The handler on a well-formed request.\<close>

definition fault_request :: "string \<Rightarrow> json \<Rightarrow> json" where
  "fault_request fault params = JObj [(''fault'', JStr fault), (''params'', params)]"

lemma handle_chaos_request:
  assumes "is_dict params" and "fault \<in> set all_faults"
    and "apply_fault_local (e_mono e) fault params co = Inr (b, co1)"
  shows "handle_chaos e (Some (fault_request fault params)) co =
    (Inr (200, JObj [(''ok'', JBool True), (''fault'', JStr fault), (''params'', params)]),
     if fault \<in> set broadcast_faults
     then publish (e_redis e 0) chaos_channel (fault_message fault params (co_id co1)) co1 else co1)"
  using assms or_empty_dict [OF assms(1)] by (simp add: handle_chaos_def fault_request_def)

section \<open>The skewed clock is cosmetic\<close>

text \<open>What a coordinator does to the database does not depend on its logical clock offset.\<close>

lemma skew_gate [simp]: "gate mt (co\<lparr>co_skew := s\<rparr>) = gate mt co"
  by (simp add: gate_def is_partitioned_def)

lemma skew_transaction [simp]: "transaction mt (co\<lparr>co_skew := s\<rparr>) body d = transaction mt co body d"
  by (simp add: transaction_def)

lemma skew_fetch [simp]: "fetch mt (co\<lparr>co_skew := s\<rparr>) q d = fetch mt co q d"
  by (simp add: fetch_def)

lemma skew_upd_conn: "upd_conn a f (co\<lparr>co_skew := s\<rparr>) = (upd_conn a f co)\<lparr>co_skew := s\<rparr>"
  by (simp add: upd_conn_def)

lemma skew_ws_send: "ws_send ok a fr (co\<lparr>co_skew := s\<rparr>) = (ws_send ok a fr co)\<lparr>co_skew := s\<rparr>"
  by (simp add: ws_send_def skew_upd_conn)

definition skewed :: "int \<Rightarrow> 'a \<times> coord \<times> 'b \<Rightarrow> 'a \<times> coord \<times> 'b" where
  "skewed s p = (case p of (r, co, d) \<Rightarrow> (r, co\<lparr>co_skew := s\<rparr>, d))"

lemma skewed_simps [simp]: "skewed s (r, co, d) = (r, co\<lparr>co_skew := s\<rparr>, d)"
  by (simp add: skewed_def)

lemma skew_claim_one: "claim_one e a (co\<lparr>co_skew := s\<rparr>) d = skewed s (claim_one e a co d)"
  by (auto simp: claim_one_def skew_upd_conn skew_ws_send Let_def split: prod.split sum.split option.split)

lemma skew_claim_loop:
  "claim_loop fuel es k a (co\<lparr>co_skew := s\<rparr>) d = map_option (skewed s) (claim_loop fuel es k a co d)"
proof (induction fuel arbitrary: k co d)
  case (Suc fuel)
  then show ?case
    by (cases "claim_one (es k) a co d") (auto simp: skew_claim_one split: sum.split bool.split)
qed simp

lemma skew_round_loop:
  "round_loop es k as (co\<lparr>co_skew := s\<rparr>) d = map_option (skewed s) (round_loop es k as co d)"
proof (induction as arbitrary: k co d)
  case (Cons a as)
  then show ?case
    by (auto simp: skew_claim_loop simp del: claim_loop.simps split: option.split sum.split)
qed simp

lemma skew_reap_one: "reap_one e lid j f (co\<lparr>co_skew := s\<rparr>) d = skewed s (reap_one e lid j f co d)"
  by (auto simp: reap_one_def publish_def Let_def split: prod.split sum.split reap_outcome.split)

lemma skew_reap_rows: "reap_rows es k ls (co\<lparr>co_skew := s\<rparr>) d = skewed s (reap_rows es k ls co d)"
proof (induction ls arbitrary: k co d)
  case (Cons l ls)
  then show ?case
    by (cases "reap_one (es k) (l_id l) (l_job l) (l_fence l) co d")
      (auto simp: skew_reap_one split: sum.split)
qed simp

lemma skew_run_turn:
  "map_option snd (run_turn mt es (co\<lparr>co_skew := s\<rparr>) d) = map_option snd (run_turn mt es co d)"
proof -
  have sw: "co\<lparr>co_skew := s, co_wake := False\<rparr> = co\<lparr>co_wake := False, co_skew := s\<rparr>" by simp
  have "round_loop es 0 (reg_all co) (co\<lparr>co_skew := s, co_wake := False\<rparr>) d =
      map_option (skewed s) (round_loop es 0 (reg_all co) (co\<lparr>co_wake := False\<rparr>) d)"
    unfolding sw by (rule skew_round_loop)
  then show ?thesis
    by (simp add: run_turn_def dispatch_round_def paused_def reg_all_def option.map_comp o_def
        skewed_def case_prod_unfold Let_def)
qed

section \<open>Properties\<close>

text \<open>
  A broadcast fault takes effect exactly once everywhere: the coordinator that receives the
  request applies it and publishes one message; that message does nothing when it comes back
  to its sender, and applies the fault once to every other coordinator.
\<close>

theorem fault_applied_once:
  assumes "is_dict params" and "fault \<in> set broadcast_faults" and "e_redis e 0"
    and "apply_fault_local (e_mono e) fault params a = Inr (b, a1)" and "co_id p \<noteq> co_id a"
  shows "\<exists>m. snd (handle_chaos e (Some (fault_request fault params)) a) =
      a1\<lparr>co_redis := co_redis a1 @ [Publish chaos_channel m]\<rparr> \<and>
    chaos_deliver mt m a1 = Inr a1 \<and>
    chaos_deliver mt m p = map_sum id snd (apply_fault_local mt fault params p)"
proof (intro exI conjI)
  let ?m = "fault_message fault params (co_id a1)"
  have "fault \<in> set all_faults" using assms(2) by (simp add: all_faults_def)
  from handle_chaos_request [OF assms(1) this assms(4)]
  show "snd (handle_chaos e (Some (fault_request fault params)) a) =
      a1\<lparr>co_redis := co_redis a1 @ [Publish chaos_channel ?m]\<rparr>"
    using assms(2,3) by (simp add: publish_def)
  show "chaos_deliver mt ?m a1 = Inr a1" by (rule chaos_deliver_own)
  show "chaos_deliver mt ?m p = map_sum id snd (apply_fault_local mt fault params p)"
    using assms fault_frame(1) [OF assms(4)] by (intro chaos_deliver_peer) simp_all
qed

theorem fault_applied_once_witness:
  "\<exists>m. snd (handle_chaos (env_at 5 []) (Some (fault_request ''drop_acks'' (JObj [(''n'', JInt 3)])))
        (boot ''c1'' 10000)) =
      (boot ''c1'' 10000)\<lparr>co_drop_acks := 3\<rparr>\<lparr>co_redis := [Publish chaos_channel m]\<rparr> \<and>
    chaos_deliver 6 m ((boot ''c1'' 10000)\<lparr>co_drop_acks := 3\<rparr>) = Inr ((boot ''c1'' 10000)\<lparr>co_drop_acks := 3\<rparr>) \<and>
    chaos_deliver 6 m (boot ''c2'' 10000) = Inr ((boot ''c2'' 10000)\<lparr>co_drop_acks := 3\<rparr>)"
  using fault_applied_once [of "JObj [(''n'', JInt 3)]" "''drop_acks''" "env_at 5 []" "boot ''c1'' 10000"
      True "(boot ''c1'' 10000)\<lparr>co_drop_acks := 3\<rparr>" "boot ''c2'' 10000" 6]
  by (simp add: broadcast_faults_def apply_fault_local_def boot_def)

text \<open>
  A database partition and a clock skew stay on the coordinator they were sent to: the
  handler publishes nothing for them, and no sequence of messages from peers, forged ones
  included, changes the partition window or the clock offset of a coordinator.
\<close>

theorem local_faults_stay_local:
  "co_redis (snd (handle_chaos e (Some (fault_request ''partition_db'' params)) co)) = co_redis co \<and>
   co_redis (snd (handle_chaos e (Some (fault_request ''clock_skew'' params)) co)) = co_redis co \<and>
   co_part_until (chaos_subscriber msgs co) = co_part_until co \<and>
   co_skew (chaos_subscriber msgs co) = co_skew co"
  using chaos_subscriber_frame [of msgs co]
  by (simp add: handle_chaos_def fault_request_def Let_def broadcast_faults_def
      apply_fault_local_def partition_db_def split: sum.split prod.split)

text \<open>
  A skewed coordinator clock is cosmetic: whatever the offset, submission, commit,
  heartbeat, dispatch and reaping have the same effect on the database.
\<close>

theorem clock_skew_harmless:
  "snd (snd (handle_create_job e body (co\<lparr>co_skew := s\<rparr>) d)) = snd (snd (handle_create_job e body co d)) \<and>
   snd (snd (handle_commit e a data (co\<lparr>co_skew := s\<rparr>) d)) = snd (snd (handle_commit e a data co d)) \<and>
   snd (handle_heartbeat e data (co\<lparr>co_skew := s\<rparr>) d) = snd (handle_heartbeat e data co d) \<and>
   map_option snd (run_turn mt es (co\<lparr>co_skew := s\<rparr>) d) = map_option snd (run_turn mt es co d) \<and>
   snd (snd (reap_round es (co\<lparr>co_skew := s\<rparr>) d)) = snd (snd (reap_round es co d))"
proof (intro conjI)
  show "map_option snd (run_turn mt es (co\<lparr>co_skew := s\<rparr>) d) = map_option snd (run_turn mt es co d)"
    by (rule skew_run_turn)
  show "snd (snd (reap_round es (co\<lparr>co_skew := s\<rparr>) d)) = snd (snd (reap_round es co d))"
    by (simp add: reap_round_def skew_reap_rows skewed_def split: sum.split prod.split)
qed (auto simp: create_job_db handle_commit_db handle_heartbeat_def Let_def
    split: option.split sum.split prod.split)

text \<open>
  C24. Fail-closed: while the partition a fault opened lasts, a well-formed submission is answered
  with 503, a well-formed commit raises \<open>DBPartitioned\<close> without a reply to the worker, no job is
  claimed and no lease reaped, and the database stays as it is.
\<close>

theorem partition_fails_closed:
  assumes "co_pool co0" and "e_mono e < mt0 + max 0 ms"
    and co: "apply_fault_local mt0 ''partition_db'' (JObj [(''ms'', JInt ms)]) co0 = Inr (b, co)"
    and "parse_submit body = Inr kp" and "as_int (dget data ''fence'') = Some f"
    and "dget data ''job_id'' \<noteq> JNull"
  shows "handle_create_job e (Some body) co d = (err 503 ''database partitioned; retry later'', co, d) \<and>
    handle_commit e a data co d = (Inl DBPartitioned, co, d) \<and>
    claim_one e a co d = (Inl DBPartitioned, co, d) \<and>
    reap_one e lid j f co d = (Inl DBPartitioned, co, d)"
proof -
  have g: "gate (e_mono e) co = Some DBPartitioned"
    using assms(1,2) co
    by (auto simp: apply_fault_local_def partition_db_def gate_def is_partitioned_def)
  show ?thesis
    using assms(4-6)
    by (cases kp) (simp add: handle_create_job_def handle_commit_def claim_one_def reap_one_def
        transaction_closed [OF g])
qed

theorem partition_fails_closed_witness:
  "handle_create_job (env_at 150 []) (Some (JObj [(''idempotency_key'', JStr ''k'')]))
     (partition_db 100 100 (boot ''c1'' 10000)) empty_db =
     (err 503 ''database partitioned; retry later'', partition_db 100 100 (boot ''c1'' 10000), empty_db)"
  using partition_fails_closed [of "boot ''c1'' 10000" "env_at 150 []" 100 100 True
      "partition_db 100 100 (boot ''c1'' 10000)" "JObj [(''idempotency_key'', JStr ''k'')]"
      "(''k'', JObj [])" "JObj [(''job_id'', JStr ''j''), (''fence'', JInt 1)]" 1 empty_db 0 0 "''j''"]
  by (simp add: apply_fault_local_def parse_submit_def max_key_len_def boot_def)

end
