(* ===== verification/Workers.thy ===== *)
theory Workers
  imports Faults
begin

text \<open>
  The coordinator's side of the worker connections, \<open>coordinator/ws.py\<close>: registration, the
  message loop with its exception handling, the disconnect, and the concurrency changes that
  reach a worker through whichever coordinator holds it.
\<close>

section \<open>Concurrency changes\<close>

definition concurrency_channel :: string where "concurrency_channel = ''workers:concurrency''"

text \<open>
  \<open>apply_set_concurrency\<close>: the new limit is set before the send, and stays when the send fails.
  \<open>n\<close> is the number and \<open>v\<close> the JSON value it came as.
\<close>

definition apply_set_concurrency :: "env \<Rightarrow> string \<Rightarrow> json \<Rightarrow> int \<Rightarrow> coord \<Rightarrow> bool \<times> coord" where
  "apply_set_concurrency e wid v n co =
     (case reg_get wid co of
        None \<Rightarrow> (False, co)
      | Some a \<Rightarrow>
          (True, ws_send (e_send e) a (FSetConcurrency v) (upd_conn a (\<lambda>s. s\<lparr>w_limit := n\<rparr>) co)))"

definition concurrency_message :: "string \<Rightarrow> json \<Rightarrow> string \<Rightarrow> json" where
  "concurrency_message wid v from =
     JObj [(''worker_id'', JStr wid), (''n'', v), (''from'', JStr from)]"

definition handle_set_concurrency ::
    "env \<Rightarrow> string \<Rightarrow> json option \<Rightarrow> coord \<Rightarrow> (exn + response) \<times> coord" where
  "handle_set_concurrency e wid body co =
     (case body of
        None \<Rightarrow> (err 400 ''invalid JSON body'', co)
      | Some b \<Rightarrow>
          (case jget b ''n'' of
             Inl x \<Rightarrow> (Inl x, co)
           | Inr _ \<Rightarrow>
               (let v = dget b ''n''
                in case as_int v of
                     None \<Rightarrow> (err 400 ''n is required and must be a non-negative integer'', co)
                   | Some n \<Rightarrow>
                       if n < 0 then
                         (err 400 ''n is required and must be a non-negative integer'', co)
                       else
                         (let (local, co1) = apply_set_concurrency e wid v n co;
                              co2 = publish (e_redis e 0) concurrency_channel
                                      (concurrency_message wid v (co_id co1)) co1
                          in (Inr (200, JObj [(''ok'', JBool True), (''worker_id'', JStr wid),
                                (''n'', v), (''local'', JBool local)]), co2)))))"

text \<open>One decoded message of the subscription; an exception ends the subscriber.\<close>

definition concurrency_deliver :: "env \<Rightarrow> json \<Rightarrow> coord \<Rightarrow> exn + coord" where
  "concurrency_deliver e payload co =
     (case jget payload ''from'' of
        Inl x \<Rightarrow> Inl x
      | Inr _ \<Rightarrow>
          if dget payload ''from'' = JStr (co_id co) then Inr co
          else
            (case (as_str (dget payload ''worker_id''), as_int (dget payload ''n'')) of
               (Some wid, Some n) \<Rightarrow>
                 if 0 \<le> n then Inr (snd (apply_set_concurrency e wid (dget payload ''n'') n co))
                 else Inr co
             | _ \<Rightarrow> Inr co))"

fun concurrency_subscriber :: "(env \<times> bool \<times> json option) list \<Rightarrow> coord \<Rightarrow> coord" where
  "concurrency_subscriber [] co = co"
| "concurrency_subscriber ((e, is_msg, payload) # msgs) co =
     (if \<not> is_msg then concurrency_subscriber msgs co
      else case payload of
        None \<Rightarrow> concurrency_subscriber msgs co
      | Some p \<Rightarrow>
          (case concurrency_deliver e p co of
             Inl x \<Rightarrow> co
           | Inr co' \<Rightarrow> concurrency_subscriber msgs co'))"

section \<open>A connection\<close>

text \<open>
  The first frame. Every failure ends the connection before anything is registered: a frame
  that is not a dictionary, another type, no \<open>worker_id\<close>, a concurrency \<open>int\<close> refuses. An id
  that is not a string is outside the model (the worker sends a string) and is refused too.
\<close>

definition parse_register :: "json \<Rightarrow> (string \<times> int) option" where
  "parse_register first =
     (if \<not> is_dict first \<or> dget first ''type'' \<noteq> JStr ''register'' then None
      else
        (case (as_str (dget first ''worker_id''), py_int (dget_or first ''concurrency'' (JInt 1))) of
           (Some wid, Inr n) \<Rightarrow> Some (wid, n)
         | _ \<Rightarrow> None))"

text \<open>The connection gets a fresh address; \<open>None\<close> when the frame is refused.\<close>

definition ws_register :: "json \<Rightarrow> coord \<Rightarrow> (nat \<times> coord) option" where
  "ws_register first co =
     (case parse_register first of
        None \<Rightarrow> None
      | Some (wid, n) \<Rightarrow>
          (let a = co_next co;
               co1 = co\<lparr>co_conns := (co_conns co)(a := new_conn wid n), co_next := Suc a\<rparr>
           in Some (a, reg_add a co1)))"

text \<open>
  \<open>_route\<close>: a \<open>DBPartitioned\<close> of the two handlers is swallowed, any other exception goes up.
\<close>

definition route :: "env \<Rightarrow> nat \<Rightarrow> json \<Rightarrow> coord \<Rightarrow> db \<Rightarrow> (exn + unit) \<times> coord \<times> db" where
  "route e a data co d =
     (case jget data ''type'' of
        Inl x \<Rightarrow> (Inl x, co, d)
      | Inr _ \<Rightarrow>
          if dget data ''type'' = JStr ''commit'' then
            (case handle_commit e a data co d of
               (Inl DBPartitioned, co', d') \<Rightarrow> (Inr (), co', d')
             | r \<Rightarrow> r)
          else if dget data ''type'' = JStr ''heartbeat'' then
            (case handle_heartbeat e data co d of
               (Inl DBPartitioned, d') \<Rightarrow> (Inr (), co, d')
             | (r, d') \<Rightarrow> (r, co, d'))
          else (Inr (), co, d))"

text \<open>
  What the connection delivers: a text frame (decoded, \<open>None\<close> when it is not JSON), the end of
  the connection, or a frame of another type, which the loop ignores.
\<close>

datatype ws_event = WsText "json option" | WsEnd | WsOther

text \<open>
  The message loop. \<open>between\<close> is what the rest of the system does before each event is
  handled: the handler awaits, so other handlers of the process and other sessions run.
\<close>

fun ws_loop ::
    "(env \<times> (coord \<times> db \<Rightarrow> coord \<times> db) \<times> ws_event) list \<Rightarrow> nat \<Rightarrow> coord \<Rightarrow> db \<Rightarrow> coord \<times> db" where
  "ws_loop [] a co d = (co, d)"
| "ws_loop ((e, between, ev) # evs) a co d =
     (let (co1, d1) = between (co, d)
      in case ev of
           WsEnd \<Rightarrow> (co1, d1)
         | WsOther \<Rightarrow> ws_loop evs a co1 d1
         | WsText None \<Rightarrow> (co1, d1)
         | WsText (Some data) \<Rightarrow>
             (case route e a data co1 d1 of
                (Inl x, co2, d2) \<Rightarrow> (co2, d2)
              | (Inr _, co2, d2) \<Rightarrow> ws_loop evs a co2 d2))"

text \<open>The \<open>finally\<close> block: the registry entry goes, by worker id.\<close>

definition ws_end :: "nat \<Rightarrow> coord \<Rightarrow> coord" where
  "ws_end a co = reg_remove (w_id (co_conns co a)) co"

definition handle_ws ::
    "json \<Rightarrow> (env \<times> (coord \<times> db \<Rightarrow> coord \<times> db) \<times> ws_event) list \<Rightarrow> coord \<Rightarrow> db \<Rightarrow> coord \<times> db" where
  "handle_ws first evs co d =
     (case ws_register first co of
        None \<Rightarrow> (co, d)
      | Some (a, co1) \<Rightarrow> (let (co2, d2) = ws_loop evs a co1 d in (ws_end a co2, d2)))"

section \<open>Lemmas\<close>

lemma ws_register_fields:
  assumes "ws_register first co = Some (a, co1)" and "parse_register first = Some (wid, n)"
  shows "a = co_next co" "reg_get wid co1 = Some a" "co_conns co1 a = new_conn wid n"
    "co_next co1 = Suc a" "b \<noteq> a \<Longrightarrow> co_conns co1 b = co_conns co b"
  using assms by (auto simp: ws_register_def Let_def reg_get_def reg_add_def new_conn_def update_conv')

lemma reg_ok_fresh:
  "reg_ok co \<Longrightarrow> reg_ok (co\<lparr>co_conns := (co_conns co)(co_next co := s), co_next := Suc (co_next co)\<rparr>)"
  by (auto simp: reg_ok_def)

lemma ws_register_ok: "reg_ok co \<Longrightarrow> ws_register first co = Some (a, co1) \<Longrightarrow> reg_ok co1"
  using reg_ok_fresh [of co]
  by (auto simp: ws_register_def Let_def split: option.splits intro!: reg_ok_add)

lemma finish_reg [simp]: "co_reg (finish e a s acc co) = co_reg co"
  "co_next (finish e a s acc co) = co_next co"
  by (simp_all add: finish_def Let_def)

lemma commit_effects_reg [simp]:
  "co_reg (commit_effects e a s out co) = co_reg co" "co_next (commit_effects e a s out co) = co_next co"
  by (simp_all add: commit_effects_def split: commit_outcome.split)

lemma handle_commit_reg:
  "co_reg (fst (snd (handle_commit e a data co d))) = co_reg co"
  "co_next (fst (snd (handle_commit e a data co d))) = co_next co"
  by (auto simp: handle_commit_def Let_def split: option.split prod.split sum.split)

lemma route_db:
  "snd (snd (route e a data co d)) = d \<or>
   snd (snd (route e a data co d)) = snd (snd (handle_commit e a data co d)) \<or>
   snd (snd (route e a data co d)) = snd (handle_heartbeat e data co d)"
proof (cases "jget data ''type''")
  case (Inr v)
  obtain r co1 d1 where c: "handle_commit e a data co d = (r, co1, d1)" by (metis surj_pair)
  obtain r2 d2 where h: "handle_heartbeat e data co d = (r2, d2)" by (metis surj_pair)
  show ?thesis
    using Inr c h by (auto simp: route_def split: sum.split exn.split)
qed (simp add: route_def)

lemma route_steps: "tx_step\<^sup>*\<^sup>* d (snd (snd (route e a data co d)))"
  using route_db [of e a data co d] handle_commit_steps [of d e a data co]
    heartbeat_steps [of d e data co] by auto

text \<open>What happens between the events is a sequence of transactions.\<close>

definition between_ok :: "(env \<times> (coord \<times> db \<Rightarrow> coord \<times> db) \<times> ws_event) list \<Rightarrow> bool" where
  "between_ok evs \<longleftrightarrow> list_all (\<lambda>(e, f, ev). \<forall>co d. tx_step\<^sup>*\<^sup>* d (snd (f (co, d)))) evs"

lemma ws_loop_steps:
  assumes "between_ok evs"
  shows "tx_step\<^sup>*\<^sup>* d (snd (ws_loop evs a co d))"
  using assms
proof (induction evs arbitrary: co d)
  case (Cons x evs)
  obtain e f ev where x: "x = (e, f, ev)" by (cases x)
  obtain co1 d1 where f: "f (co, d) = (co1, d1)" by (metis surj_pair)
  have "tx_step\<^sup>*\<^sup>* d (snd (f (co, d)))" using Cons.prems x by (simp add: between_ok_def)
  then have s1: "tx_step\<^sup>*\<^sup>* d d1" using f by simp
  have IH: "tx_step\<^sup>*\<^sup>* d' (snd (ws_loop evs a co' d'))" for co' d'
    using Cons.prems by (intro Cons.IH) (simp add: between_ok_def)
  have r: "tx_step\<^sup>*\<^sup>* d1 (snd (snd (route e a data co1 d1)))" for data by (rule route_steps)
  show ?case
  proof (cases ev)
    case (WsText m)
    show ?thesis
    proof (cases m)
      case (Some data)
      obtain res co2 d2 where q: "route e a data co1 d1 = (res, co2, d2)" by (metis surj_pair)
      have "tx_step\<^sup>*\<^sup>* d1 d2" using r [of data] q by simp
      then show ?thesis
        using WsText Some x f q s1 IH [of d2 co2] by (cases res) (auto intro: rtranclp_trans)
    qed (use WsText x f s1 in simp)
  next
    case WsOther
    then show ?thesis using x f rtranclp_trans [OF s1 IH [of d1 co1]] by simp
  qed (use x f s1 in simp)
qed simp

lemma reg_all_iff: "reg_ok co \<Longrightarrow> a \<in> set (reg_all co) \<longleftrightarrow> reg_get (w_id (co_conns co a)) co = Some a"
  by (force simp: reg_all_def reg_get_def reg_ok_def map_of_eq_Some_iff)

lemma ws_register_get:
  assumes "ws_register first co = Some (a, co1)"
  shows "reg_get (w_id (co_conns co1 a)) co1 = Some a"
  using assms by (auto simp: ws_register_def Let_def reg_get_def reg_add_def new_conn_def update_conv'
      split: option.splits)

lemma concurrency_deliver_holder:
  assumes "from \<noteq> co_id p" and "as_int v = Some n" and "0 \<le> n" and "reg_get wid p = Some a"
  shows "concurrency_deliver e (concurrency_message wid v from) p =
    Inr (ws_send (e_send e) a (FSetConcurrency v) (upd_conn a (\<lambda>s. s\<lparr>w_limit := n\<rparr>) p))"
  using assms by (simp add: concurrency_deliver_def concurrency_message_def apply_set_concurrency_def)

section \<open>Properties\<close>

text \<open>
  Whatever the messages of a worker connection and whatever happens between them, a
  connection's effect on the database is a sequence of transactions, so every database
  invariant of the system survives any worker, a hostile one included.
\<close>

theorem ws_connection_safe:
  assumes "db_inv d" and "between_ok evs"
  shows "db_inv (snd (handle_ws first evs co d))"
proof -
  have "tx_step\<^sup>*\<^sup>* d (snd (handle_ws first evs co d))"
    using ws_loop_steps [OF assms(2), of d]
    by (auto simp: handle_ws_def Let_def split: option.split prod.split) (metis snd_conv)
  then show ?thesis using assms(1) by (rule txs.ok_steps)
qed

theorem ws_connection_safe_witness:
  "db_inv (snd (handle_ws (JObj [(''type'', JStr ''register''), (''worker_id'', JStr ''w1'')])
     [(env_at 300 [], id, WsText (Some (JObj [(''type'', JStr ''commit''), (''job_id'', JStr ''j''),
        (''fence'', JInt 7)])))] (boot ''c1'' 10000) empty_db))"
  by (rule ws_connection_safe) (simp_all add: db_inv_def core_inv_empty hist_inv_empty between_ok_def)

text \<open>
  While the database is partitioned, the commits and heartbeats of a worker are dropped: no
  reply is sent, nothing changes, and the connection stays open for the retry.
\<close>

theorem partitioned_messages_dropped:
  assumes "co_pool co" and "e_mono e < co_part_until co"
    and "data = JObj kvs" and "dget data ''type'' = JStr ''commit'' \<or> dget data ''type'' = JStr ''heartbeat''"
  shows "route e a data co d = (Inr (), co, d)"
proof -
  have g: "gate (e_mono e) co = Some DBPartitioned" using assms(1,2) by (rule gate_partitioned)
  have "handle_commit e a data co d \<in> {(Inl DBPartitioned, co, d), (Inr (), co, d)}"
    by (auto simp: handle_commit_def transaction_closed [OF g] Let_def split: option.split)
  moreover have "handle_heartbeat e data co d \<in> {(Inl DBPartitioned, d), (Inr (), d)}"
    by (auto simp: handle_heartbeat_def g Let_def split: option.split)
  ultimately show ?thesis using assms(3,4) unfolding route_def by auto
qed

theorem partitioned_messages_dropped_witness:
  "route (env_at 150 []) 0 (JObj [(''type'', JStr ''commit''), (''job_id'', JStr ''j''), (''fence'', JInt 1)])
     (partition_db 100 100 (boot ''c1'' 10000)) empty_db =
   (Inr (), partition_db 100 100 (boot ''c1'' 10000), empty_db)"
  by (rule partitioned_messages_dropped [OF _ _ refl]) (simp_all add: partition_db_def boot_def)

text \<open>
  A concurrency change reaches the worker wherever it is connected: sent to a coordinator
  that does not hold the worker, it changes nothing there but is published, and the published
  message makes the coordinator that holds the worker set the limit and tell the worker.
\<close>

theorem concurrency_reaches_holder:
  assumes "reg_get wid co = None" and "reg_get wid p = Some a" and "co_id p \<noteq> co_id co"
    and "0 \<le> n" and "e_redis e 0" and "e_send e'"
  shows "\<exists>m p'. handle_set_concurrency e wid (Some (JObj [(''n'', JInt n)])) co =
      (Inr (200, JObj [(''ok'', JBool True), (''worker_id'', JStr wid), (''n'', JInt n),
         (''local'', JBool False)]),
       co\<lparr>co_redis := co_redis co @ [Publish concurrency_channel m]\<rparr>) \<and>
    concurrency_deliver e' m p = Inr p' \<and> w_limit (co_conns p' a) = n \<and>
    w_sent (co_conns p' a) = w_sent (co_conns p a) @ [FSetConcurrency (JInt n)]"
proof (intro exI conjI)
  let ?m = "concurrency_message wid (JInt n) (co_id co)"
  let ?p = "ws_send True a (FSetConcurrency (JInt n)) (upd_conn a (\<lambda>s. s\<lparr>w_limit := n\<rparr>) p)"
  show "handle_set_concurrency e wid (Some (JObj [(''n'', JInt n)])) co =
      (Inr (200, JObj [(''ok'', JBool True), (''worker_id'', JStr wid), (''n'', JInt n),
         (''local'', JBool False)]),
       co\<lparr>co_redis := co_redis co @ [Publish concurrency_channel ?m]\<rparr>)"
    using assms by (simp add: handle_set_concurrency_def apply_set_concurrency_def publish_def Let_def)
  show "concurrency_deliver e' ?m p = Inr ?p"
    using assms concurrency_deliver_holder [of "co_id co" p "JInt n" n wid a e'] by simp
qed (simp_all add: ws_send_def)

text \<open>The worker \<open>w1\<close> registered at a coordinator that has just started.\<close>

definition w1_hello :: json where
  "w1_hello = JObj [(''type'', JStr ''register''), (''worker_id'', JStr ''w1''), (''concurrency'', JInt 2)]"

definition w1_at :: "string \<Rightarrow> coord" where
  "w1_at cid = snd (the (ws_register w1_hello (boot cid 1000)))"

lemma w1_at_fields [simp]:
  "reg_get ''w1'' (w1_at cid) = Some 0" "co_id (w1_at cid) = cid" "co_conns (w1_at cid) 0 = new_conn ''w1'' 2"
  "gate mt (w1_at cid) = (if mt < 0 then Some DBPartitioned else None)" "co_ttl (w1_at cid) = 1000"
  "co_drop_acks (w1_at cid) = 0" "reg_all (w1_at cid) = [0]"
  by (simp_all add: w1_at_def w1_hello_def ws_register_def parse_register_def boot_def reg_get_def
      reg_add_def new_conn_def gate_def is_partitioned_def reg_all_def)

lemma boot_fields [simp]: "reg_get wid (boot cid ttl) = None" "co_id (boot cid ttl) = cid"
  by (simp_all add: boot_def reg_get_def)

lemma w1_registers: "ws_register w1_hello (boot cid 1000) = Some (0, w1_at cid)"
  by (simp add: w1_at_def w1_hello_def ws_register_def parse_register_def boot_def)

theorem concurrency_reaches_holder_witness:
  "\<exists>m p'. handle_set_concurrency (env_at 5 []) ''w1'' (Some (JObj [(''n'', JInt 4)])) (boot ''c1'' 1000) =
      (Inr (200, JObj [(''ok'', JBool True), (''worker_id'', JStr ''w1''), (''n'', JInt 4),
         (''local'', JBool False)]),
       (boot ''c1'' 1000)\<lparr>co_redis := co_redis (boot ''c1'' 1000) @ [Publish concurrency_channel m]\<rparr>) \<and>
    concurrency_deliver (env_at 6 []) m (w1_at ''c2'') = Inr p' \<and> w_limit (co_conns p' 0) = 4 \<and>
    w_sent (co_conns p' 0) = w_sent (co_conns (w1_at ''c2'') 0) @ [FSetConcurrency (JInt 4)]"
  by (rule concurrency_reaches_holder) simp_all

text \<open>
  C36. A worker that reconnects before its old connection has ended is lost: when the old
  connection's handler finishes, it removes the entry of the new connection, which stays open
  but gets no job and no concurrency change any more.
\<close>

theorem reconnected_worker_unregistered:
  assumes "reg_ok co" and "ws_register first co = Some (a, co1)" and "ws_register first co1 = Some (b, co2)"
  shows "reg_get (w_id (co_conns co2 b)) co2 = Some b \<and>
    reg_get (w_id (co_conns co2 b)) (ws_end a co2) = None \<and> b \<notin> set (reg_all (ws_end a co2))"
proof -
  obtain wid n where p: "parse_register first = Some (wid, n)"
    using assms(2) by (auto simp: ws_register_def split: option.splits)
  note f1 = ws_register_fields [OF assms(2) p] and f2 = ws_register_fields [OF assms(3) p]
  have wid: "w_id (co_conns co2 a) = wid" "w_id (co_conns co2 b) = wid"
    using f1 f2 by (auto simp: new_conn_def)
  have ok: "reg_ok (ws_end a co2)"
    unfolding ws_end_def using assms by (intro reg_ok_remove) (auto dest: ws_register_ok)
  have gone: "reg_get wid (ws_end a co2) = None" by (simp add: ws_end_def wid)
  have "co_conns (ws_end a co2) = co_conns co2" by (simp add: ws_end_def reg_remove_def)
  then have "b \<notin> set (reg_all (ws_end a co2))" using reg_all_iff [OF ok, of b] wid gone by simp
  then show ?thesis using f2(2) wid gone by simp
qed

theorem reconnected_worker_unregistered_witness:
  "\<exists>b co2. ws_register w1_hello (w1_at ''c1'') = Some (b, co2) \<and>
     reg_get (w_id (co_conns co2 b)) co2 = Some b \<and> b \<notin> set (reg_all (ws_end 0 co2))"
proof -
  obtain b co2 where r: "ws_register w1_hello (w1_at ''c1'') = Some (b, co2)"
    by (simp add: ws_register_def w1_hello_def parse_register_def Let_def)
  then show ?thesis
    using reconnected_worker_unregistered [OF boot_reg_ok w1_registers r] by blast
qed

end
