(* ===== verification/Answers.thy ===== *)
theory Answers
  imports AuditTrail Faults Workers
begin

text \<open>
  What the endpoints can answer: for every endpoint the status codes with the names and types of
  the members of the body, and the exceptions that leave the handler, which the server turns into
  a 500.
\<close>

section \<open>Types of JSON values\<close>

datatype btype = TStr | TBool | TNum | TObj | TAny | TState | TNullable btype

fun has_btype :: "btype \<Rightarrow> json \<Rightarrow> bool" where
  "has_btype TStr v = (as_str v \<noteq> None)"
| "has_btype TBool v = (v = JBool True \<or> v = JBool False)"
| "has_btype TNum v = (as_int v \<noteq> None)"
| "has_btype TObj v = is_dict v"
| "has_btype TAny v = True"
| "has_btype TState v = list_ex (\<lambda>s. v = JStr (state_text s)) Enum.enum"
| "has_btype (TNullable t) v = (v = JNull \<or> has_btype t v)"

text \<open>A member of a body, and the members of an object in their order.\<close>

datatype jtype = TBasic btype | TRows "(string \<times> btype) list"

definition has_fields :: "(string \<times> btype) list \<Rightarrow> json \<Rightarrow> bool" where
  "has_fields fs v =
     (case v of JObj kvs \<Rightarrow> list_all2 (\<lambda>(f, t) (k, x). k = f \<and> has_btype t x) fs kvs | _ \<Rightarrow> False)"

fun has_jtype :: "jtype \<Rightarrow> json \<Rightarrow> bool" where
  "has_jtype (TBasic t) v = has_btype t v"
| "has_jtype (TRows fs) v = (case v of JList xs \<Rightarrow> list_all (has_fields fs) xs | _ \<Rightarrow> False)"

definition has_shape :: "(string \<times> jtype) list \<Rightarrow> json \<Rightarrow> bool" where
  "has_shape fs v =
     (case v of JObj kvs \<Rightarrow> list_all2 (\<lambda>(f, t) (k, x). k = f \<and> has_jtype t x) fs kvs | _ \<Rightarrow> False)"

text \<open>An answer table, and an outcome that conforms to it.\<close>

type_synonym answers = "(int \<times> (string \<times> jtype) list) list"

definition conforms :: "exn list \<Rightarrow> answers \<Rightarrow> exn + response \<Rightarrow> bool" where
  "conforms raises table r =
     (case r of
        Inl x \<Rightarrow> x \<in> set raises
      | Inr (st, body) \<Rightarrow> list_ex (\<lambda>(st', fs). st' = st \<and> has_shape fs body) table)"

section \<open>The tables\<close>

definition error_answer :: "int \<Rightarrow> int \<times> (string \<times> jtype) list" where
  "error_answer st = (st, [(''error'', TBasic TStr)])"

definition create_answers :: answers where
  "create_answers = [(201, [(''job_id'', TBasic TStr)]), (200, [(''job_id'', TBasic TStr)]), error_answer 400, error_answer 503]"

definition get_answers :: answers where
  "get_answers = [(200, [(''job_id'', TBasic TStr), (''state'', TBasic TState), (''result'', TBasic TAny)]),
     error_answer 400, error_answer 404, error_answer 503]"

definition cancel_answers :: answers where
  "cancel_answers = [(200, [(''job_id'', TBasic TStr), (''state'', TBasic TState)]),
     (409, [(''error'', TBasic TStr), (''state'', TBasic TState)]), error_answer 400, error_answer 404, error_answer 503]"

definition audit_answers :: answers where
  "audit_answers =
     [(200, [(''transitions'', TRows [(''from'', TNullable TState), (''to'', TState), (''at_ms'', TNum), (''coordinator'', TStr)]),
             (''commits'', TRows [(''accepted'', TBool), (''fence'', TNum), (''worker'', TStr), (''at_ms'', TNum)]),
             (''lease_history'', TRows [(''fence'', TNum), (''worker'', TStr), (''issued_at_ms'', TNum),
                (''expired_at_ms'', TNullable TNum)])]),
      error_answer 400, error_answer 503]"

definition chaos_answers :: answers where
  "chaos_answers = [(200, [(''ok'', TBasic TBool), (''fault'', TBasic TStr), (''params'', TBasic TObj)]), error_answer 400]"

definition concurrency_answers :: answers where
  "concurrency_answers =
     [(200, [(''ok'', TBasic TBool), (''worker_id'', TBasic TStr), (''n'', TBasic TNum), (''local'', TBasic TBool)]),
      error_answer 400]"

lemmas table_defs = conforms_def has_shape_def error_answer_def create_answers_def get_answers_def cancel_answers_def
  audit_answers_def chaos_answers_def concurrency_answers_def err_def

section \<open>Lemmas\<close>

lemma state_typed [simp]: "has_btype TState (JStr (state_text s))"
  by (cases s) (simp_all add: enum_jstate_def)

lemma named_states [simp]: "has_btype TState (JStr ''cancelled'')"
  by (simp add: enum_jstate_def)

declare has_btype.simps(6) [simp del]

lemma audit_rows_typed:
  "has_jtype (TRows [(''from'', TNullable TState), (''to'', TState), (''at_ms'', TNum), (''coordinator'', TStr)])
     (JList (map trans_json ts))"
  "has_jtype (TRows [(''accepted'', TBool), (''fence'', TNum), (''worker'', TStr), (''at_ms'', TNum)])
     (JList (map commit_json cs))"
  "has_jtype (TRows [(''fence'', TNum), (''worker'', TStr), (''issued_at_ms'', TNum), (''expired_at_ms'', TNullable TNum)])
     (JList (map lease_json ls))"
  by (auto simp: list_all_iff has_fields_def trans_json_def commit_json_def lease_json_def opt_int_def split: option.split)

lemma create_typed:
  "conforms [AttributeError, UniqueViolation, PoolNotConnected] create_answers (fst (handle_create_job e body co d))"
proof (cases body)
  case (Some b)
  show ?thesis
  proof (cases "parse_submit b")
    case (Inl r)
    then show ?thesis using Some
      by (auto simp: handle_create_job_def parse_submit_def table_defs Let_def split: sum.splits option.splits if_splits
          elim: jget.elims)
  next
    case (Inr kp)
    have "create_tx e k p c d = (Inl x, d') \<Longrightarrow> x = UniqueViolation" for k p c x d'
      by (auto simp: create_tx_def Let_def split: option.splits if_splits)
    then show ?thesis using Some Inr
      by (auto simp: handle_create_job_def transaction_def gate_def created_response_def table_defs Let_def
          split: option.splits sum.splits prod.splits exn.splits if_splits) blast+
  qed
qed (simp add: handle_create_job_def table_defs)

lemma get_typed: "conforms [ValueError] get_answers (handle_get_job e s co d)"
  by (auto simp: handle_get_job_def table_defs split: sum.splits option.splits exn.splits)

lemma cancel_typed: "conforms [] cancel_answers (fst (handle_cancel_job e e2 between s co d))"
proof -
  obtain r d' where t: "transaction (e_mono e) co (cancel_body e s (co_id co)) d = (r, d')" by (metis surj_pair)
  show ?thesis
  proof (cases r)
    case (Inl x)
    then show ?thesis using t by (cases x) (simp_all add: handle_cancel_job_def table_defs)
  next
    case (Inr b)
    then show ?thesis using t
      by (cases b) (auto simp: handle_cancel_job_def table_defs Let_def split: sum.splits exn.splits option.splits)
  qed
qed

lemma audit_typed: "conforms [] audit_answers (handle_audit e1 e2 e3 param co d1 d2 d3)"
  using audit_rows_typed
  by (auto simp: handle_audit_def table_defs Let_def simp del: has_jtype.simps(2) split: option.split sum.split)

lemma fault_raises: "apply_fault_local mt fault params co = Inl x \<Longrightarrow> x = TypeError \<or> x = ValueError"
proof -
  have "py_int v = Inl x \<Longrightarrow> x = TypeError \<or> x = ValueError" for v
    by (cases v) (auto split: option.splits)
  then show "apply_fault_local mt fault params co = Inl x \<Longrightarrow> x = TypeError \<or> x = ValueError"
    by (auto simp: apply_fault_local_def split: if_splits sum.splits)
qed

lemma chaos_typed: "conforms [AttributeError, TypeError, ValueError] chaos_answers (fst (handle_chaos e body co))"
  by (auto simp: handle_chaos_def table_defs Let_def dest!: fault_raises elim: jget.elims
      split: option.splits sum.splits)

lemma concurrency_typed:
  "conforms [AttributeError] concurrency_answers (fst (handle_set_concurrency e wid body co))"
  by (auto simp: handle_set_concurrency_def table_defs Let_def elim: jget.elims split: option.splits sum.splits prod.splits)

section \<open>Property\<close>


end
