(* ===== verification/Bootstrap.thy ===== *)
theory Bootstrap
  imports Prelude
begin

text \<open>
  The application of \<open>db/schema.sql\<close> by coordinators that boot at the same time, \<open>apply_schema\<close> of
  \<open>coordinator/db.py\<close>. The statements run in one transaction behind an advisory lock that lasts
  as long as the transaction. A \<open>CREATE ... IF NOT EXISTS\<close> looks for the object and then makes it:
  two steps, between which other sessions may commit; making an object that has come into
  existence raises. A session may die at any moment; then its transaction is rolled back and its lock is free.
\<close>

section \<open>Definitions\<close>

text \<open>The objects of the schema; the row of \<open>fence_clock\<close> is inserted unless it is there.\<close>

datatype ddl =
    Extension string
  | Sequence string
  | Routine string
  | Table string
  | Index string
  | ClockRow

definition schema_sql :: "ddl list" where
  "schema_sql =
     [Extension ''pgcrypto'', Sequence ''fence_seq'', Routine ''db_now_ms'', Table ''fence_clock'', ClockRow,
      Routine ''issue_fence'', Table ''jobs'', Index ''jobs_pending_idx'', Table ''job_transitions'',
      Index ''job_transitions_job_idx'', Table ''leases'', Index ''leases_job_idx'', Index ''leases_live_idx'',
      Table ''commits'', Index ''commits_job_idx'', Index ''one_accept'']"

text \<open>
  A session: before the lock; at the head of the remaining statements, with what it has made so
  far; having found the head missing; committed; raised because of a collision; gone.
\<close>

datatype bsess =
    BOpen
  | BLook "ddl list" "ddl list"
  | BMake "ddl list" "ddl list"
  | BDone
  | BCollided
  | BDead

text \<open>The committed catalog, the values of the fence sequence and of the clock row, and the lock.\<close>

record bsys =
  bs_cat :: "ddl set"
  bs_seq :: int
  bs_last :: int
  bs_lock :: "nat option"
  bs_sess :: "nat \<Rightarrow> bsess"

definition bs_start :: "ddl set \<Rightarrow> int \<Rightarrow> int \<Rightarrow> bsys" where
  "bs_start cat sq lst = \<lparr>bs_cat = cat, bs_seq = sq, bs_last = lst, bs_lock = None, bs_sess = (\<lambda>_. BOpen)\<rparr>"

fun inside :: "bsess \<Rightarrow> bool" where
  "inside (BLook todo mine) = True"
| "inside (BMake todo mine) = True"
| "inside _ = False"

definition leave :: "nat \<Rightarrow> bsess \<Rightarrow> bsys \<Rightarrow> bsys" where
  "leave i b s = s\<lparr>bs_sess := (bs_sess s)(i := b), bs_lock := (if bs_lock s = Some i then None else bs_lock s)\<rparr>"

text \<open>\<open>pg_advisory_xact_lock\<close>: the call returns when nobody holds the lock.\<close>

definition bs_lock_step :: "nat \<Rightarrow> bsys \<Rightarrow> bsys option" where
  "bs_lock_step i s =
     (if bs_sess s i = BOpen \<and> bs_lock s = None
      then Some (s\<lparr>bs_lock := Some i, bs_sess := (bs_sess s)(i := BLook schema_sql [])\<rparr>) else None)"

text \<open>One half of a statement, or \<open>COMMIT\<close>: only then does the catalog change.\<close>

definition bs_go :: "nat \<Rightarrow> bsys \<Rightarrow> bsys option" where
  "bs_go i s =
     (case bs_sess s i of
        BLook [] mine \<Rightarrow>
          Some (leave i BDone (s\<lparr>bs_cat := bs_cat s \<union> set mine,
            bs_seq := (if Sequence ''fence_seq'' \<in> set mine then 0 else bs_seq s),
            bs_last := (if ClockRow \<in> set mine then 0 else bs_last s)\<rparr>))
      | BLook (x # xs) mine \<Rightarrow>
          Some (s\<lparr>bs_sess := (bs_sess s)(i := (if x \<in> bs_cat s \<or> x \<in> set mine then BLook xs mine
                                               else BMake (x # xs) mine))\<rparr>)
      | BMake [] mine \<Rightarrow> None
      | BMake (x # xs) mine \<Rightarrow>
          Some (if x \<in> bs_cat s then leave i BCollided s
                else s\<lparr>bs_sess := (bs_sess s)(i := BLook xs (mine @ [x]))\<rparr>)
      | _ \<Rightarrow> None)"

datatype bevent = Lock nat | Go nat | Die nat

fun bs_do :: "bevent \<Rightarrow> bsys \<Rightarrow> bsys option" where
  "bs_do (Lock i) s = bs_lock_step i s"
| "bs_do (Go i) s = bs_go i s"
| "bs_do (Die i) s = (if bs_sess s i = BOpen \<or> inside (bs_sess s i) then Some (leave i BDead s) else None)"

inductive bs_step :: "bsys \<Rightarrow> bsys \<Rightarrow> bool" where
  step: "bs_do ev s = Some t \<Longrightarrow> bs_step s t"

inductive_cases bs_stepE: "bs_step s t"

fun bs_run :: "bevent list \<Rightarrow> bsys \<Rightarrow> bsys option" where
  "bs_run [] s = Some s"
| "bs_run (ev # evs) s = (case bs_do ev s of None \<Rightarrow> None | Some s' \<Rightarrow> bs_run evs s')"

lemma bs_run_steps: "bs_run evs s = Some t \<Longrightarrow> bs_step\<^sup>*\<^sup>* s t"
proof (induction evs arbitrary: s)
  case (Cons ev evs)
  then obtain v where v: "bs_do ev s = Some v" "bs_run evs v = Some t" by (auto split: option.splits)
  from bs_step.step [OF v(1)] Cons.IH [OF v(2)] show ?case by (rule converse_rtranclp_into_rtranclp)
qed simp

section \<open>The invariant\<close>

text \<open>What a session inside has dealt with, given what it still has to do.\<close>

definition dealt :: "ddl set \<Rightarrow> ddl list \<Rightarrow> ddl list \<Rightarrow> bool" where
  "dealt cat todo mine \<longleftrightarrow>
     (\<exists>did. schema_sql = did @ todo \<and> set did \<subseteq> cat \<union> set mine \<and> set mine \<subseteq> set did) \<and> cat \<inter> set mine = {}"

definition sess_ok :: "ddl set \<Rightarrow> bsess \<Rightarrow> bool" where
  "sess_ok cat b \<longleftrightarrow>
     (case b of
        BLook todo mine \<Rightarrow> dealt cat todo mine
      | BMake todo mine \<Rightarrow> dealt cat todo mine \<and> todo \<noteq> [] \<and> hd todo \<notin> cat
      | BDone \<Rightarrow> set schema_sql \<subseteq> cat
      | BCollided \<Rightarrow> False
      | _ \<Rightarrow> True)"

definition bs_ok :: "ddl set \<Rightarrow> int \<Rightarrow> int \<Rightarrow> bsys \<Rightarrow> bool" where
  "bs_ok cat sq lst s \<longleftrightarrow>
     (\<forall>i. sess_ok (bs_cat s) (bs_sess s i)) \<and> (\<forall>i. inside (bs_sess s i) \<longleftrightarrow> bs_lock s = Some i) \<and>
     (bs_cat s = cat \<or> bs_cat s = cat \<union> set schema_sql) \<and>
     (Sequence ''fence_seq'' \<in> cat \<longrightarrow> bs_seq s = sq) \<and> (ClockRow \<in> cat \<longrightarrow> bs_last s = lst)"

lemma bs_ok_start: "bs_ok cat sq lst (bs_start cat sq lst)"
  by (simp add: bs_ok_def bs_start_def sess_ok_def)

lemma sess_ok_grow: "sess_ok cat b \<Longrightarrow> \<not> inside b \<Longrightarrow> cat \<subseteq> cat' \<Longrightarrow> sess_ok cat' b"
  by (cases b) (auto simp: sess_ok_def)

lemma dealt_skip: "dealt cat (x # xs) mine \<Longrightarrow> x \<in> cat \<or> x \<in> set mine \<Longrightarrow> dealt cat xs mine"
  unfolding dealt_def by (elim conjE exE, intro conjI, rule_tac x = "did @ [x]" in exI) auto

lemma dealt_make: "dealt cat (x # xs) mine \<Longrightarrow> x \<notin> cat \<Longrightarrow> dealt cat xs (mine @ [x])"
  unfolding dealt_def by (elim conjE exE, intro conjI, rule_tac x = "did @ [x]" in exI) auto

lemma dealt_all: "dealt cat [] mine \<Longrightarrow> cat \<union> set mine = cat \<union> set schema_sql"
  by (auto simp: dealt_def)

lemma bs_ok_sess:
  assumes "bs_ok cat sq lst s" and "sess_ok (bs_cat s) b" and "inside b = inside (bs_sess s i)"
  shows "bs_ok cat sq lst (s\<lparr>bs_sess := (bs_sess s)(i := b)\<rparr>)"
  using assms by (simp add: bs_ok_def)

lemma bs_ok_leave:
  assumes "bs_ok cat sq lst s" and "sess_ok (bs_cat s) b" and "\<not> inside b"
  shows "bs_ok cat sq lst (leave i b s)"
  using assms by (auto simp: bs_ok_def leave_def)

lemma bs_ok_commit:
  assumes ok: "bs_ok cat sq lst s" and i: "bs_sess s i = BLook [] mine"
  shows "bs_ok cat sq lst (leave i BDone (s\<lparr>bs_cat := bs_cat s \<union> set mine,
            bs_seq := (if Sequence ''fence_seq'' \<in> set mine then 0 else bs_seq s),
            bs_last := (if ClockRow \<in> set mine then 0 else bs_last s)\<rparr>))"
proof -
  have d: "dealt (bs_cat s) [] mine" using ok i by (auto simp: bs_ok_def sess_ok_def split: bsess.splits)
  have sess: "sess_ok (bs_cat s) (bs_sess s k)" for k using ok by (simp add: bs_ok_def)
  have lk: "inside (bs_sess s k) \<longleftrightarrow> k = i" for k using ok i by (auto simp: bs_ok_def)
  have cat: "bs_cat s = cat \<or> bs_cat s = cat \<union> set schema_sql" using ok by (simp add: bs_ok_def)
  have "sess_ok (bs_cat s \<union> set mine) (bs_sess s k)" if "k \<noteq> i" for k
    using sess_ok_grow [OF sess] lk that by blast
  moreover have "sess_ok (bs_cat s \<union> set mine) BDone" by (auto simp: sess_ok_def dealt_all [OF d])
  moreover have "bs_cat s \<union> set mine = cat \<union> set schema_sql" using cat dealt_all [OF d] by blast
  moreover have "x \<notin> set mine" if "x \<in> cat" for x using d cat that by (auto simp: dealt_def)
  ultimately show ?thesis using ok lk by (auto simp: bs_ok_def leave_def)
qed

lemma bs_ok_go:
  assumes ok: "bs_ok cat sq lst s" and go: "bs_go i s = Some t"
  shows "bs_ok cat sq lst t"
proof -
  have si: "sess_ok (bs_cat s) (bs_sess s i)" using ok by (simp add: bs_ok_def)
  show ?thesis
  proof (cases "bs_sess s i")
    case (BLook todo mine)
    show ?thesis
    proof (cases todo)
      case Nil
      then show ?thesis using bs_ok_commit [OF ok, of i mine] BLook go by (auto simp: bs_go_def)
    next
      case (Cons x xs)
      with BLook si have d: "dealt (bs_cat s) (x # xs) mine" by (simp add: sess_ok_def)
      have "sess_ok (bs_cat s) (if x \<in> bs_cat s \<or> x \<in> set mine then BLook xs mine else BMake (x # xs) mine)"
        using d dealt_skip [OF d] by (simp add: sess_ok_def)
      then show ?thesis using bs_ok_sess [OF ok] BLook Cons go by (auto simp: bs_go_def)
    qed
  next
    case (BMake todo mine)
    then obtain x xs where todo: "todo = x # xs" using si by (cases todo) (simp_all add: sess_ok_def)
    with BMake si have d: "dealt (bs_cat s) (x # xs) mine" and x: "x \<notin> bs_cat s" by (simp_all add: sess_ok_def)
    have "sess_ok (bs_cat s) (BLook xs (mine @ [x]))" using dealt_make [OF d x] by (simp add: sess_ok_def)
    then show ?thesis using bs_ok_sess [OF ok] BMake todo x go by (auto simp: bs_go_def)
  qed (use go in \<open>simp_all add: bs_go_def\<close>)
qed

lemma bs_ok_lock:
  assumes ok: "bs_ok cat sq lst s" and l: "bs_lock_step i s = Some t"
  shows "bs_ok cat sq lst t"
proof -
  have free: "bs_lock s = None" and t: "t = s\<lparr>bs_lock := Some i, bs_sess := (bs_sess s)(i := BLook schema_sql [])\<rparr>"
    using l by (simp_all add: bs_lock_step_def split: if_splits)
  have "sess_ok (bs_cat s) (BLook schema_sql [])" by (simp add: sess_ok_def dealt_def)
  moreover have "\<not> inside (bs_sess s k)" for k using ok free by (simp add: bs_ok_def)
  ultimately show ?thesis using ok by (simp add: bs_ok_def t)
qed

lemma bs_ok_step:
  assumes "bs_ok cat sq lst s" and "bs_step s t"
  shows "bs_ok cat sq lst t"
proof -
  obtain ev where ev: "bs_do ev s = Some t" using assms(2) by (rule bs_stepE)
  show ?thesis
  proof (cases ev)
    case (Lock i)
    then show ?thesis using ev bs_ok_lock [OF assms(1)] by simp
  next
    case (Go i)
    then show ?thesis using ev bs_ok_go [OF assms(1)] by simp
  next
    case (Die i)
    then show ?thesis using ev bs_ok_leave [OF assms(1), of BDead i] by (auto simp: sess_ok_def split: if_splits)
  qed
qed

interpretation booting: step_system "bs_start cat sq lst" bs_step "bs_ok cat sq lst" for cat sq lst
  by unfold_locales (rule bs_ok_start, rule bs_ok_step)

text \<open>A session that waits can go on now or after the holder of the lock has.\<close>

lemma bs_enabled:
  assumes "bs_ok cat sq lst s" and "bs_sess s i = BOpen \<or> inside (bs_sess s i)"
  shows "\<exists>k t. bs_lock_step k s = Some t \<or> bs_go k s = Some t"
proof (cases "bs_lock s")
  case None
  then have "bs_sess s i = BOpen" using assms by (auto simp: bs_ok_def)
  then show ?thesis using None by (auto simp: bs_lock_step_def)
next
  case (Some k)
  then have k: "inside (bs_sess s k)" "sess_ok (bs_cat s) (bs_sess s k)" using assms by (auto simp: bs_ok_def)
  have "bs_go k s \<noteq> None"
    using k by (auto simp: bs_go_def sess_ok_def split: bsess.split list.split)
  then show ?thesis by blast
qed

section \<open>Properties\<close>

text \<open>
  C30. Coordinators that boot together do not collide. However their sessions interleave and
  whichever of them die on the way, no session raises because another made the same object, a
  session that is done leaves the whole schema committed, the committed catalog is at any moment
  what it was or complete, and unless every session is through some session can go on.
\<close>

theorem boots_never_collide:
  assumes "bs_step\<^sup>*\<^sup>* (bs_start cat sq lst) s"
  shows "bs_sess s i \<noteq> BCollided \<and> (bs_sess s i = BDone \<longrightarrow> set schema_sql \<subseteq> bs_cat s) \<and>
    (bs_cat s = cat \<or> bs_cat s = cat \<union> set schema_sql) \<and>
    (bs_sess s i = BDone \<or> bs_sess s i = BDead \<or> (\<exists>k t. bs_lock_step k s = Some t \<or> bs_go k s = Some t))"
proof -
  have ok: "bs_ok cat sq lst s" using assms by (rule booting.ok_reachable)
  then have si: "sess_ok (bs_cat s) (bs_sess s i)" by (simp add: bs_ok_def)
  show ?thesis
    using ok si bs_enabled [OF ok, of i] by (cases "bs_sess s i") (auto simp: bs_ok_def sess_ok_def)
qed

text \<open>
  The first session dies with two objects made, the second finds none of them and makes them all.
\<close>

definition second_boots :: "bevent list" where
  "second_boots = [Lock 0, Go 0, Go 0, Go 0, Go 0, Die 0, Lock 1] @ replicate 33 (Go 1)"

definition second_booted :: bsys where
  "second_booted = the (bs_run second_boots (bs_start {} 0 0))"

lemma second_booted_reached:
  "bs_step\<^sup>*\<^sup>* (bs_start {} 0 0) second_booted" "bs_sess second_booted 0 = BDead" "bs_sess second_booted 1 = BDone"
proof -
  have "map_option (\<lambda>s. (bs_sess s 0, bs_sess s 1)) (bs_run second_boots (bs_start {} 0 0)) = Some (BDead, BDone)"
    by code_simp
  then obtain s where s: "bs_run second_boots (bs_start {} 0 0) = Some s" "bs_sess s 0 = BDead" "bs_sess s 1 = BDone"
    by auto
  then show "bs_step\<^sup>*\<^sup>* (bs_start {} 0 0) second_booted" "bs_sess second_booted 0 = BDead" "bs_sess second_booted 1 = BDone"
    by (simp_all add: second_booted_def bs_run_steps)
qed

theorem boots_never_collide_witness:
  "bs_sess second_booted 0 = BDead \<and> bs_sess second_booted 1 = BDone \<and> set schema_sql \<subseteq> bs_cat second_booted"
  using boots_never_collide [OF second_booted_reached(1), of 1] second_booted_reached(2,3) by simp

text \<open>
  A restart keeps the fences. Applying the schema to a database that has it already leaves
  the catalog, the value of the fence sequence and the last issued time as they are, so fences go
  on where they were.
\<close>

theorem restart_keeps_fences:
  assumes "bs_step\<^sup>*\<^sup>* (bs_start cat sq lst) s" and "set schema_sql \<subseteq> cat"
  shows "bs_cat s = cat \<and> bs_seq s = sq \<and> bs_last s = lst"
proof -
  have "bs_ok cat sq lst s" using assms(1) by (rule booting.ok_reachable)
  then show ?thesis using assms(2) by (auto simp: bs_ok_def schema_sql_def)
qed

text \<open>Two more boots, against a database whose last fence was 41.\<close>

theorem restart_keeps_fences_witness:
  "map_option bs_seq (bs_run [Lock 2, Go 2, Go 2, Go 2, Die 2, Lock 0, Go 0] (bs_start (set schema_sql) 41 9000)) = Some 41"
proof -
  let ?r = "bs_run [Lock 2, Go 2, Go 2, Go 2, Die 2, Lock 0, Go 0] (bs_start (set schema_sql) 41 9000)"
  have "?r \<noteq> None" by code_simp
  then obtain s where s: "?r = Some s" by blast
  from restart_keeps_fences [OF bs_run_steps [OF s]] show ?thesis unfolding s by simp
qed

end
