(* ===== verification/Harness.thy ===== *)
theory Harness
  imports AuditTrail Faults
begin

text \<open>
  The chaos harness, \<open>chaos_harness.py\<close>: what it records of the answers to its submissions, the
  audits it collects, the invariants it checks on them (\<open>_verify\<close>), its fault plan and its
  verdict. The violations are constructors with the data of the message texts.
\<close>

section \<open>The event log\<close>

text \<open>The events \<open>_log\<close> is called with, their names and their keyword arguments.\<close>

datatype hevent =
    SubmitOk int
  | SubmitFail int string
  | DedupDistinctIds string string string
  | SubmitDup
  | Killed string
  | KillFailed string
  | Started string
  | StartFailed string
  | FaultInjected string json int string
  | HarnessStart string
  | HarnessDrain rat

fun ev_kind :: "hevent \<Rightarrow> string" where
  "ev_kind (SubmitOk c) = ''submit_ok''"
| "ev_kind (SubmitFail c x) = ''submit_fail''"
| "ev_kind (DedupDistinctIds k a b) = ''dedup_violation_distinct_ids''"
| "ev_kind SubmitDup = ''submit_dup''"
| "ev_kind (Killed t) = ''killed''"
| "ev_kind (KillFailed t) = ''kill_failed''"
| "ev_kind (Started t) = ''started''"
| "ev_kind (StartFailed t) = ''start_failed''"
| "ev_kind (FaultInjected f ps c t) = ''fault_injected''"
| "ev_kind (HarnessStart b) = ''harness_start''"
| "ev_kind (HarnessDrain w) = ''harness_drain''"

fun ev_kw :: "hevent \<Rightarrow> (string \<times> json) list" where
  "ev_kw (SubmitOk c) = [(''code'', JInt c)]"
| "ev_kw (SubmitFail c x) = [(''code'', JInt c), (''err'', JStr x)]"
| "ev_kw (DedupDistinctIds k a b) = [(''key'', JStr k), (''a'', JStr a), (''b'', JStr b)]"
| "ev_kw SubmitDup = []"
| "ev_kw (Killed t) = [(''t'', JStr t)]"
| "ev_kw (KillFailed t) = [(''t'', JStr t)]"
| "ev_kw (Started t) = [(''t'', JStr t)]"
| "ev_kw (StartFailed t) = [(''t'', JStr t)]"
| "ev_kw (FaultInjected f ps c t) =
     [(''fault'', JStr f), (''params'', ps), (''code'', JInt c), (''target'', JStr t)]"
| "ev_kw (HarnessStart b) = [(''base'', JStr b)]"
| "ev_kw (HarnessDrain w) = [(''wait_s'', JFloat w)]"

text \<open>
  The module's globals: \<open>_J\<close> (job id to key, payload, first status and submission time), \<open>_K\<close>
  (key to job id), the log \<open>_X\<close>, the counter \<open>_C\<close> and the latencies \<open>_E["submit_latency"]\<close>.
\<close>

record hstate =
  h_jobs :: "(string \<times> string \<times> json \<times> int \<times> rat) list"
  h_keys :: "(string \<times> string) list"
  h_log :: "(rat \<times> hevent) list"
  h_counts :: "(string \<times> nat) list"
  h_lat :: "rat list"

definition h_start :: hstate where
  "h_start = \<lparr>h_jobs = [], h_keys = [], h_log = [], h_counts = [], h_lat = []\<rparr>"

text \<open>A \<open>Counter\<close> reads 0 for a key it does not have.\<close>

definition hcount :: "string \<Rightarrow> hstate \<Rightarrow> nat" where
  "hcount k hs = (case map_of (h_counts hs) k of None \<Rightarrow> 0 | Some n \<Rightarrow> n)"

definition hlog :: "rat \<Rightarrow> hevent \<Rightarrow> hstate \<Rightarrow> hstate" where
  "hlog tm ev hs = hs\<lparr>h_log := h_log hs @ [(tm, ev)],
     h_counts := AList.update (ev_kind ev) (hcount (ev_kind ev) hs + 1) (h_counts hs)\<rparr>"

section \<open>Submissions\<close>

fun has_key :: "json \<Rightarrow> string \<Rightarrow> bool" where
  "has_key (JObj kvs) k = (map_of kvs k \<noteq> None)"
| "has_key _ k = False"

text \<open>
  \<open>_submit_one\<close> on a reply: status (0 when there was none) and body. The clock is read before and
  after the request, for an event of a key with two ids, for \<open>submitted_at\<close> and for the last event.
  \<open>str_of\<close> is Python's \<open>str\<close>. A \<open>job_id\<close> that is not a string is outside the model and raises.
\<close>

definition submit_one ::
    "(json \<Rightarrow> string) \<Rightarrow> (nat \<Rightarrow> rat) \<Rightarrow> string \<Rightarrow> json \<Rightarrow> int \<Rightarrow> json \<Rightarrow> hstate \<Rightarrow> (exn + string option) \<times> hstate" where
  "submit_one str_of tm key pl st body hs =
     (let hs1 = hs\<lparr>h_lat := h_lat hs @ [tm 1 - tm 0]\<rparr>
      in if st \<in> {200, 201, 202} \<and> has_key body ''job_id'' then
           (case as_str (dget body ''job_id'') of
              None \<Rightarrow> (Inl TypeError, hs1)
            | Some jid \<Rightarrow>
                (let hs2 = (case map_of (h_keys hs1) key of
                       None \<Rightarrow> hs1
                     | Some old \<Rightarrow> if old \<noteq> jid then hlog (tm 2) (DedupDistinctIds key old jid) hs1 else hs1);
                     hs3 = hs2\<lparr>h_keys := AList.update key jid (h_keys hs2),
                       h_jobs := (if map_of (h_jobs hs2) jid = None
                                  then h_jobs hs2 @ [(jid, key, pl, st, tm 3)] else h_jobs hs2)\<rparr>
                 in (Inr (Some jid), hlog (tm 4) (SubmitOk st) hs3)))
         else (Inr None, hlog (tm 4) (SubmitFail st (take 120 (str_of body))) hs1))"

text \<open>What \<open>_verify\<close> takes from \<open>_J\<close>: the job ids with their keys.\<close>

definition job_keys :: "hstate \<Rightarrow> (string \<times> string) list" where
  "job_keys hs = map (\<lambda>(j, k, pl, st). (j, k)) (h_jobs hs)"

section \<open>Audits\<close>

text \<open>\<open>_audit_one\<close>.\<close>

definition audit_one :: "(json \<Rightarrow> string) \<Rightarrow> string \<Rightarrow> int \<Rightarrow> json \<Rightarrow> json" where
  "audit_one str_of jid st body =
     (if st \<noteq> 200 \<or> \<not> is_dict body then
        JObj [(''job_id'', JStr jid), (''ok'', JBool False), (''code'', JInt st),
              (''err'', JStr (take 200 (str_of body)))]
      else
        JObj [(''job_id'', JStr jid), (''ok'', JBool True),
              (''transitions'', dget_or body ''transitions'' (JList [])),
              (''commits'', dget_or body ''commits'' (JList [])),
              (''lease_history'', dget_or body ''lease_history'' (JList []))])"

section \<open>The checks\<close>

datatype violation =
    Dedup string "string list"
  | AuditUnreachable string json
  | Lost string
  | DoubleCommit string nat
  | NonmonotonicPerJob string "int list"
  | StaleCommitAccepted string int int
  | GlobalNonmonotonic rat string int int

text \<open>Iterating over \<open>v or []\<close>.\<close>

fun py_items :: "json \<Rightarrow> exn + json list" where
  "py_items (JList xs) = Inr xs"
| "py_items (JObj kvs) = Inr (map (\<lambda>(k, v). JStr k) kvs)"
| "py_items (JStr s) = Inr (map (\<lambda>c. JStr [c]) s)"
| "py_items v = (if py_truth v then Inl TypeError else Inr [])"

text \<open>The elements of such an iteration that all get a \<open>.get\<close> call.\<close>

definition dict_items :: "json \<Rightarrow> exn + json list" where
  "dict_items v =
     sbind (py_items v) (\<lambda>xs. if list_all is_dict xs then Inr xs else Inl AttributeError)"

definition terminal_names :: "json list" where
  "terminal_names = [JStr ''succeeded'', JStr ''failed'', JStr ''cancelled'']"

text \<open>\<open>any(t.get("to") in (...) for t in transitions)\<close>, which stops at the first hit.\<close>

fun any_terminal :: "json list \<Rightarrow> exn + bool" where
  "any_terminal [] = Inr False"
| "any_terminal (t # ts) =
     (if \<not> is_dict t then Inl AttributeError
      else if dget t ''to'' \<in> set terminal_names then Inr True
      else any_terminal ts)"

text \<open>The first loop, over the jobs: who got more than one id for a key.\<close>

definition ids_of_key :: "string \<Rightarrow> (string \<times> string) list \<Rightarrow> string list" where
  "ids_of_key k js = map fst (filter (\<lambda>(jid, key). key = k) js)"

definition verify_dedup :: "(string \<times> string) list \<Rightarrow> violation list" where
  "verify_dedup js =
     concat (map (\<lambda>k. let ids = ids_of_key k js in if length ids > 1 then [Dedup k (sort ids)] else [])
       (rev (remdups (rev (map snd js)))))"

definition tokens_of :: "json list \<Rightarrow> int list" where
  "tokens_of ls = List.map_filter (\<lambda>l. as_int (dget l ''fence'')) ls"

definition stale_commits :: "string \<Rightarrow> int list \<Rightarrow> json list \<Rightarrow> violation list" where
  "stale_commits jid toks cs =
     concat (map (\<lambda>c.
       if \<not> py_truth (dget c ''accepted'') then []
       else (case as_int (dget c ''fence'') of
               None \<Rightarrow> []
             | Some f \<Rightarrow> if toks \<noteq> [] \<and> f < Max (set toks)
                          then [StaleCommitAccepted jid f (Max (set toks))] else [])) cs)"

text \<open>The second loop, one audit.\<close>

definition verify_one :: "string \<Rightarrow> json \<Rightarrow> exn + violation list" where
  "verify_one jid audit =
     (if \<not> py_truth (dget audit ''ok'') then Inr [AuditUnreachable jid (dget audit ''err'')]
      else
        sbind (dict_items (dget audit ''commits'')) (\<lambda>cs.
          let good = filter (\<lambda>c. dget c ''accepted'' = JBool True) cs
          in sbind (if good = [] then
                 sbind (py_items (dget audit ''transitions'')) (\<lambda>ts.
                   sbind (any_terminal ts) (\<lambda>fin. Inr (if fin then [] else [Lost jid])))
               else Inr []) (\<lambda>v1.
             sbind (dict_items (dget audit ''lease_history'')) (\<lambda>ls.
               let toks = tokens_of ls
               in Inr (v1 @
                    (if length good > 1 then [DoubleCommit jid (length good)] else []) @
                    (if toks \<noteq> sort toks then [NonmonotonicPerJob jid toks] else []) @
                    stale_commits jid toks cs)))))"

text \<open>The third loop: every lease with an integer fence and a numeric time.\<close>

definition fence_points :: "string \<Rightarrow> json \<Rightarrow> exn + (rat \<times> int \<times> string) list" where
  "fence_points jid audit =
     (if \<not> py_truth (dget audit ''ok'') then Inr []
      else
        sbind (dict_items (dget audit ''lease_history'')) (\<lambda>ls.
          Inr (List.map_filter (\<lambda>l.
            case (as_int (dget l ''fence''), as_float (dget l ''issued_at_ms'')) of
              (Some f, Some ts) \<Rightarrow> Some (ts, f, jid)
            | _ \<Rightarrow> None) ls)))"

text \<open>The scan in time order stops at the first inversion.\<close>

fun global_scan :: "int \<Rightarrow> (rat \<times> int \<times> string) list \<Rightarrow> violation list" where
  "global_scan prev [] = []"
| "global_scan prev ((ts, f, jid) # ps) =
     (if f \<le> prev then [GlobalNonmonotonic ts jid f prev] else global_scan f ps)"

definition verify :: "(string \<times> string) list \<Rightarrow> (string \<times> json) list \<Rightarrow> exn + violation list" where
  "verify js audits =
     sbind (smap (\<lambda>(jid, a). verify_one jid a) audits) (\<lambda>vs.
       sbind (smap (\<lambda>(jid, a). fence_points jid a) audits) (\<lambda>ps.
         Inr (verify_dedup js @ concat vs @ global_scan (-1) (sort_key fst (concat ps)))))"

section \<open>Report\<close>

text \<open>The report is only made when the checks went through, so the audits are well-formed here.\<close>

definition completed_count :: "(string \<times> json) list \<Rightarrow> nat" where
  "completed_count audits = length (filter (\<lambda>(jid, a). py_truth (dget a ''ok'') \<and>
     (case dict_items (dget a ''commits'') of
        Inl _ \<Rightarrow> False
      | Inr cs \<Rightarrow> list_ex (\<lambda>c. py_truth (dget c ''accepted'')) cs)) audits)"

definition unreachable_count :: "(string \<times> json) list \<Rightarrow> nat" where
  "unreachable_count audits = length (filter (\<lambda>(jid, a). \<not> py_truth (dget a ''ok'')) audits)"

datatype verdict = Pass | PassWithNotes | Fail

text \<open>Verdicts are ordered from the worst to the best.\<close>

fun verdict_rank :: "verdict \<Rightarrow> nat" where
  "verdict_rank Fail = 0"
| "verdict_rank PassWithNotes = 1"
| "verdict_rank Pass = 2"

lemma verdict_rank_inj: "verdict_rank v = verdict_rank w \<longleftrightarrow> v = w"
  by (cases v; cases w) simp_all

instantiation verdict :: linorder
begin

definition less_eq_verdict :: "verdict \<Rightarrow> verdict \<Rightarrow> bool" where
  "less_eq_verdict v w \<longleftrightarrow> verdict_rank v \<le> verdict_rank w"

definition less_verdict :: "verdict \<Rightarrow> verdict \<Rightarrow> bool" where
  "less_verdict v w \<longleftrightarrow> verdict_rank v < verdict_rank w"

instance
  by standard (auto simp: less_eq_verdict_def less_verdict_def verdict_rank_inj)

end

text \<open>\<open>failed < submitted * 0.01\<close>, in exact arithmetic.\<close>

definition verdict_of :: "violation list \<Rightarrow> (string \<times> json) list \<Rightarrow> hstate \<Rightarrow> verdict" where
  "verdict_of vs audits hs =
     (if vs = [] \<and> unreachable_count audits = 0 \<and> 100 * hcount ''submit_fail'' hs < hcount ''submit_ok'' hs
      then Pass
      else if vs = [] then PassWithNotes
      else Fail)"

text \<open>
  Python's \<open>round\<close>: to the nearest integer, ties to the even one; and \<open>_percentile\<close>, with the
  index computed exactly.
\<close>

definition py_round :: "rat \<Rightarrow> int" where
  "py_round x =
     (let f = \<lfloor>x\<rfloor>; r = x - of_int f
      in if r < 1 / 2 then f else if r > 1 / 2 then f + 1 else if even f then f else f + 1)"

definition percentile :: "rat list \<Rightarrow> rat \<Rightarrow> rat" where
  "percentile xs p =
     (if xs = [] then 0
      else (let ys = sort xs; n = int (length ys) - 1;
                k = max 0 (min n (py_round (p / 100 * of_int n)))
            in ys ! nat k))"

section \<open>The fault plan\<close>

text \<open>The script with its four random parameters, repeated for ever; \<open>plan\<close> is its \<open>n\<close>-th fault.\<close>

definition fault_script :: "int \<Rightarrow> int \<Rightarrow> int \<Rightarrow> (string \<times> json) list" where
  "fault_script acks skew ms =
     [(''pause_dispatch'', JObj [(''ms'', JInt 1500)]),
      (''drop_acks'', JObj [(''n'', JInt acks)]),
      (''clock_skew'', JObj [(''seconds'', JInt skew)]),
      (''partition_db'', JObj [(''ms'', JInt ms)]),
      (''pause_dispatch'', JObj [(''ms'', JInt 400)]),
      (''drop_acks'', JObj [(''n'', JInt 1)]),
      (''clock_skew'', JObj [(''seconds'', JInt (-300))]),
      (''partition_db'', JObj [(''ms'', JInt 3000)]),
      (''clock_skew'', JObj [(''seconds'', JInt 0)])]"

definition plan :: "int \<Rightarrow> int \<Rightarrow> int \<Rightarrow> nat \<Rightarrow> string \<times> json" where
  "plan acks skew ms n =
     (let script = fault_script acks skew ms in script ! (n mod length script))"

end
