(* ===== verification/HarnessSound.thy ===== *)
theory HarnessSound
  imports Harness
begin

text \<open>
  What the harness can see of the system: the audits of the jobs, each made of three queries at
  different times of a run, checked by \<open>verify\<close>. Without interleaved commits the only violation
  it can report is a job that was not finished yet; the interleaved commit it does detect.
\<close>

section \<open>The lease history only grows\<close>

definition lease_keys :: "db \<Rightarrow> (int \<times> uuid \<times> int \<times> int) list" where
  "lease_keys d = map (\<lambda>l. (l_id l, l_job l, l_fence l, l_issued l)) (leases d)"

lemma lease_keys_frames [simp]:
  "lease_keys (expire_lease lid t d) = lease_keys d"
  "lease_keys (snd (renew_tx e ttl j f d)) = lease_keys d"
  by (simp_all add: lease_keys_def expire_lease_def renew_tx_def Let_def map_upd_where)

lemma lease_keys_cong: "leases d' = leases d \<Longrightarrow> lease_keys d' = lease_keys d"
  by (simp add: lease_keys_def)

lemma tx_step_lease_keys: "tx_step d d' \<Longrightarrow> \<exists>xs. lease_keys d' = lease_keys d @ xs"
proof (induction rule: tx_step.induct)
  case (submit d e key pl coord)
  then show ?case
    by (cases rule: create_tx_cases [of key d e pl coord]) (simp_all add: lease_keys_def frame_simps)
next
  case (claim d e ttl coord w)
  then show ?case by (auto simp: claim_tx_snd leased_db_fields lease_keys_def split: option.split)
next
  case (reap lid j f d e coord)
  have "lease_keys (snd (reap_tx e coord lid j f d)) = lease_keys d"
  proof -
    have "lease_keys (record_transition j fr to co t (set_job_state j s u d1)) = lease_keys d1"
      for fr to co t s u d1 by (simp add: lease_keys_def frame_simps)
    then show ?thesis by (simp add: reap_tx_def Let_def split: option.split)
  qed
  then show ?case by simp
next
  case (commit d e coord j f w res)
  then show ?case
    by (auto simp: commit_tx_def commit_writes_snd lease_keys_def accepted_db_def frame_simps
        split: option.split prod.split bool.split)
next
  case (burn d a b c n)
  then show ?case by (simp add: lease_keys_def)
qed (simp_all add: cancel_tx_def lease_keys_def frame_simps del: ex_simps, simp_all add: lease_keys_def [symmetric])

lemma tx_steps_lease_keys: "tx_step\<^sup>*\<^sup>* d d' \<Longrightarrow> \<exists>xs. lease_keys d' = lease_keys d @ xs"
proof (induction rule: rtranclp_induct)
  case (step y z)
  then show ?case using tx_step_lease_keys [of y z] by auto
qed simp

lemma lease_persists:
  assumes "tx_step\<^sup>*\<^sup>* d d'" and "l \<in> set (leases d)"
  shows "\<exists>l' \<in> set (leases d'). l_job l' = l_job l \<and> l_fence l' = l_fence l \<and> l_issued l' = l_issued l"
proof -
  obtain xs where "lease_keys d' = lease_keys d @ xs" using tx_steps_lease_keys [OF assms(1)] by blast
  then have "set (lease_keys d) \<subseteq> set (lease_keys d')" by simp
  then have "(l_id l, l_job l, l_fence l, l_issued l) \<in> set (lease_keys d')"
    using assms(2) by (auto simp: lease_keys_def)
  then show ?thesis by (auto simp: lease_keys_def)
qed

text \<open>Fences are positive.\<close>

definition fence_pos :: "db \<Rightarrow> bool" where
  "fence_pos d \<longleftrightarrow> 0 \<le> fence_seq d \<and> (\<forall>k \<in> set (lease_keys d). 0 < fst (snd (snd k)))"

lemma cancel_seq [simp]: "fence_seq (snd (cancel_tx e j coord d)) = fence_seq d"
  by (simp add: cancel_tx_def)

lemma cancel_lease_keys [simp]: "lease_keys (snd (cancel_tx e j coord d)) = lease_keys d"
  by (simp add: cancel_tx_def lease_keys_def frame_simps)

lemma fence_pos_cong: "fence_pos d \<Longrightarrow> fence_seq d' = fence_seq d \<Longrightarrow> leases d' = leases d \<Longrightarrow> fence_pos d'"
  by (simp add: fence_pos_def lease_keys_def)

lemma tx_step_fence_pos: "tx_step d d' \<Longrightarrow> fence_pos d \<Longrightarrow> fence_pos d'"
proof (induction rule: tx_step.induct)
  case (submit d e key pl coord)
  then show ?case
    by (cases rule: create_tx_cases [of key d e pl coord]) (auto simp: frame_simps intro: fence_pos_cong)
next
  case (claim d e ttl coord w)
  then show ?case
    by (auto simp: claim_tx_snd leased_db_fields fence_pos_def lease_keys_def split: option.split)
next
  case (reap lid j f d e coord)
  have exp: "fence_pos (expire_lease lid t d)" for t using reap(2) by (simp add: fence_pos_def)
  have "fence_pos (record_transition j fr to co t (set_job_state j s u (expire_lease lid v d)))"
    for fr to co t s u v
    by (rule fence_pos_cong [OF exp]) (simp_all add: frame_simps)
  then show ?case
    using reap(2) exp by (auto simp: reap_tx_def Let_def split: option.split)
next
  case (commit d e coord j f w res)
  then show ?case
    by (auto simp: commit_tx_def commit_writes_snd accepted_db_def frame_simps
        split: option.split prod.split bool.split intro: fence_pos_cong)
next
  case (burn d a b c n)
  then show ?case by (auto simp: fence_pos_def lease_keys_def)
qed (auto simp: fence_pos_def)

lemma tx_steps_fence_pos: "tx_step\<^sup>*\<^sup>* empty_db d \<Longrightarrow> fence_pos d"
proof (induction rule: rtranclp_induct)
  case base
  then show ?case by (simp add: fence_pos_def lease_keys_def empty_db_def)
qed (rule tx_step_fence_pos)

lemma fence_pos_mem: "fence_pos d \<Longrightarrow> l \<in> set (leases d) \<Longrightarrow> 0 < l_fence l"
  by (auto simp: fence_pos_def lease_keys_def)

section \<open>One audit\<close>

definition audit_of :: "(json \<Rightarrow> string) \<Rightarrow> uuid \<Rightarrow> db \<Rightarrow> db \<Rightarrow> db \<Rightarrow> json" where
  "audit_of str_of j d1 d2 d3 = audit_one str_of j 200 (audit_body j d1 d2 d3)"

lemma audit_of_fields [simp]:
  "dget (audit_of so j d1 d2 d3) ''ok'' = JBool True"
  "dget (audit_of so j d1 d2 d3) ''transitions'' = JList (map trans_json (audit_transitions j d1))"
  "dget (audit_of so j d1 d2 d3) ''commits'' = JList (map commit_json (audit_commits j d2))"
  "dget (audit_of so j d1 d2 d3) ''lease_history'' = JList (map lease_json (audit_leases j d3))"
  by (simp_all add: audit_of_def audit_one_def audit_body_def)

lemma commit_json_fields [simp]:
  "is_dict (commit_json c)" "dget (commit_json c) ''accepted'' = JBool (c_accepted c)"
  "dget (commit_json c) ''fence'' = JInt (c_fence c)"
  by (simp_all add: commit_json_def)

lemma lease_json_fields [simp]:
  "is_dict (lease_json l)" "dget (lease_json l) ''fence'' = JInt (l_fence l)"
  "dget (lease_json l) ''issued_at_ms'' = JInt (l_issued l)"
  by (simp_all add: lease_json_def)

lemma trans_json_fields [simp]:
  "is_dict (trans_json t)" "dget (trans_json t) ''to'' = JStr (state_text (t_to t))"
  by (simp_all add: trans_json_def)

lemma dict_items_map [simp]:
  "(\<And>x. is_dict (f x)) \<Longrightarrow> dict_items (JList (map f xs)) = Inr (map f xs)"
  by (simp add: dict_items_def list_all_iff)

lemma any_terminal_trans: "any_terminal (map trans_json ts) = Inr (\<exists>t \<in> set ts. terminal (t_to t))"
proof (induction ts)
  case (Cons t ts)
  then show ?case by (cases "t_to t") (auto simp: terminal_names_def terminal_def)
qed simp

lemma tokens_of_leases [simp]: "tokens_of (map lease_json ls) = map l_fence ls"
  by (simp add: tokens_of_def map_filter_def filter_map o_def)

lemma stale_commits_eq:
  "stale_commits j toks (map commit_json cs) =
     map (\<lambda>c. StaleCommitAccepted j (c_fence c) (Max (set toks)))
       (filter (\<lambda>c. c_accepted c \<and> toks \<noteq> [] \<and> c_fence c < Max (set toks)) cs)"
  by (induction cs) (simp_all add: stale_commits_def)

text \<open>The general answer: what one audit makes the harness report.\<close>

lemma verify_one_audit:
  assumes "one_accept d2" and "fences_ok d3"
  shows "verify_one j (audit_of so j d1 d2 d3) = Inr
    ((if accepted_fence j d2 = None \<and> \<not> (\<exists>t \<in> set (transitions d1). t_job t = j \<and> terminal (t_to t))
      then [Lost j] else []) @
     stale_commits j (map l_fence (audit_leases j d3)) (map commit_json (audit_commits j d2)))"
proof -
  let ?good = "filter c_accepted (audit_commits j d2)"
  have good: "filter (\<lambda>c. dget c ''accepted'' = JBool True) (map commit_json (audit_commits j d2)) =
      map commit_json ?good"
    by (simp add: filter_map o_def)
  have len: "length ?good = (if accepted_fence j d2 = None then 0 else 1)"
    by (rule accepted_count) (rule assms(1))
  then have none: "?good = [] \<longleftrightarrow> accepted_fence j d2 = None" by (metis length_0_conv zero_neq_one)
  have srt: "sort (map l_fence (audit_leases j d3)) = map l_fence (audit_leases j d3)"
    using audit_leases_fences [OF assms(2), of j]
    by (intro sorted_sort_id) (auto simp: sorted_wrt_map elim: sorted_wrt_mono_rel [rotated])
  have "any_terminal (map trans_json (audit_transitions j d1)) =
      Inr (\<exists>t \<in> set (transitions d1). t_job t = j \<and> terminal (t_to t))"
    unfolding any_terminal_trans by auto
  then show ?thesis
    unfolding verify_one_def using len none srt
    by (simp add: good)
qed

lemma accepted_row_fence:
  assumes "one_accept d" and "c \<in> set (commits d)" and "c_job c = j" and "c_accepted c"
  shows "accepted_fence j d = Some (c_fence c)"
proof -
  have "find (\<lambda>c. c_job c = j \<and> c_accepted c) cs = Some c"
    if "sorted_wrt (\<lambda>a b. \<not> (c_accepted a \<and> c_accepted b \<and> c_job a = c_job b)) cs" "c \<in> set cs" for cs
    using that assms(3,4) by (induction cs) auto
  then show ?thesis using assms by (simp add: one_accept_def accepted_fence_def)
qed

text \<open>Without interleaving, the accepted commit has the highest fence for ever.\<close>

lemma accepted_stays_latest:
  assumes "tx_step\<^sup>*\<^sup>* empty_db d2" and "tx_step\<^sup>*\<^sup>* d2 d3" and "accepted_fence j d2 = Some f"
  shows "max_fence j d3 = Some f"
proof -
  have inv: "db_inv d2" using assms(1) by (rule txs.ok_reachable)
  then have s2: "settled j (Some Succeeded, job_result j d2, Some f) d2"
    using succeeded_iff_accepted [of d2 j] assms(3) by (simp add: settled_def db_inv_def)
  have "settled j (Some Succeeded, job_result j d2, Some f) d3"
    using assms(2) inv s2
    by (rule txs.stable_steps) (auto simp: db_inv_def intro: tx_step_succeeded)
  moreover have "db_inv d3" using assms(2) inv by (rule txs.ok_steps)
  ultimately show ?thesis
    by (simp add: settled_def db_inv_def hist_inv_def latest_accepted_def)
qed

lemma no_stale_commit:
  assumes "tx_step\<^sup>*\<^sup>* empty_db d2" and "tx_step\<^sup>*\<^sup>* d2 d3"
  shows "stale_commits j (map l_fence (audit_leases j d3)) (map commit_json (audit_commits j d2)) = []"
proof -
  have one: "one_accept d2"
    using txs.ok_reachable [OF assms(1)] by (simp add: db_inv_def core_inv_def)
  have "\<not> c_fence c < Max (set (map l_fence (audit_leases j d3)))"
    if c: "c \<in> set (audit_commits j d2)" "c_accepted c" and ne: "audit_leases j d3 \<noteq> []" for c
  proof -
    have "accepted_fence j d2 = Some (c_fence c)"
      using c one by (intro accepted_row_fence) auto
    then have "max_fence j d3 = Some (c_fence c)" by (rule accepted_stays_latest [OF assms])
    then have "\<forall>f \<in> set (map l_fence (audit_leases j d3)). f \<le> c_fence c" by (auto simp: max_fence_iff)
    moreover have "Max (set (map l_fence (audit_leases j d3))) \<in> set (map l_fence (audit_leases j d3))"
      by (rule Max_in) (use ne in \<open>simp_all del: audit_sets\<close>)
    ultimately show ?thesis by (meson not_less)
  qed
  then show ?thesis by (auto simp: stale_commits_eq filter_empty_conv)
qed

section \<open>All audits together\<close>

type_synonym audited = "uuid \<times> db \<times> db \<times> db"

text \<open>
  The queries of each audit were made in this order, in a run that starts with the empty
  database and has reached \<open>d\<close>.
\<close>

definition audited_during :: "db \<Rightarrow> audited list \<Rightarrow> bool" where
  "audited_during d aus \<longleftrightarrow> distinct (map fst aus) \<and>
     (\<forall>(j, d1, d2, d3) \<in> set aus. tx_step\<^sup>*\<^sup>* empty_db d1 \<and> tx_step\<^sup>*\<^sup>* d1 d2 \<and> tx_step\<^sup>*\<^sup>* d2 d3 \<and> tx_step\<^sup>*\<^sup>* d3 d)"

definition lost_of :: "audited \<Rightarrow> violation list" where
  "lost_of au = (case au of (j, d1, d2, d3) \<Rightarrow>
     if accepted_fence j d2 = None \<and> \<not> (\<exists>t \<in> set (transitions d1). t_job t = j \<and> terminal (t_to t))
     then [Lost j] else [])"

definition points_of :: "audited \<Rightarrow> (rat \<times> int \<times> string) list" where
  "points_of au = (case au of (j, d1, d2, d3) \<Rightarrow>
     map (\<lambda>l. (of_int (l_issued l), l_fence l, j)) (audit_leases j d3))"

lemma verify_one_lost:
  assumes "tx_step\<^sup>*\<^sup>* empty_db d2" and "tx_step\<^sup>*\<^sup>* d2 d3"
  shows "verify_one j (audit_of so j d1 d2 d3) = Inr (lost_of (j, d1, d2, d3))"
proof -
  have inv: "db_inv d2" using assms(1) by (rule txs.ok_reachable)
  have inv3: "db_inv d3" using assms(2) inv by (rule txs.ok_steps)
  have "one_accept d2" "fences_ok d3" using inv inv3 by (simp_all add: db_inv_def core_inv_def)
  from verify_one_audit [OF this] show ?thesis
    by (simp add: no_stale_commit [OF assms] lost_of_def)
qed

lemma fence_points_audit: "fence_points j (audit_of so j d1 d2 d3) = Inr (points_of (j, d1, d2, d3))"
  by (simp add: fence_points_def points_of_def map_filter_def o_def filter_map)

lemma global_scan_ok:
  "sorted_wrt (\<lambda>p q. fst (snd p) < fst (snd q)) ps \<Longrightarrow> (\<forall>p \<in> set ps. prev < fst (snd p)) \<Longrightarrow>
     global_scan prev ps = []"
  by (induction prev ps rule: global_scan.induct) auto

lemma sorted_distinct_wrt:
  assumes "sorted (map key xs)" and "distinct xs"
    and "\<And>x y. x \<in> set xs \<Longrightarrow> y \<in> set xs \<Longrightarrow> x \<noteq> y \<Longrightarrow> key x \<le> key y \<Longrightarrow> R x y"
  shows "sorted_wrt R xs"
  using assms by (induction xs) auto

text \<open>Every point is a lease of the final state; on its leases time order is fence order.\<close>

lemma point_is_lease:
  assumes "audited_during d aus" and "p \<in> set (concat (map points_of aus))"
  shows "\<exists>l \<in> set (leases d). p = (of_int (l_issued l), l_fence l, l_job l)"
proof -
  obtain j d1 d2 d3 l where au: "(j, d1, d2, d3) \<in> set aus" and l: "l \<in> set (leases d3)" "l_job l = j"
    and p: "p = (of_int (l_issued l), l_fence l, j)"
    using assms(2) by (force simp: points_of_def)
  have "tx_step\<^sup>*\<^sup>* d3 d" using assms(1) au by (auto simp: audited_during_def)
  from lease_persists [OF this l(1)] obtain l' where
    "l' \<in> set (leases d)" "l_job l' = l_job l" "l_fence l' = l_fence l" "l_issued l' = l_issued l"
    by blast
  then show ?thesis using l p by (intro bexI [of _ l']) simp_all
qed

lemma sorted_wrt_pairs:
  assumes "sorted_wrt P xs" and "x \<in> set xs" and "y \<in> set xs"
  shows "x = y \<or> P x y \<or> P y x"
  using assms by (induction xs) auto

lemma lease_time_order:
  assumes "fences_ok d" and "l \<in> set (leases d)" and "l' \<in> set (leases d)" and "l \<noteq> l'"
    and "l_issued l \<le> l_issued l'"
  shows "l_fence l < l_fence l'"
proof -
  have s: "sorted_wrt (\<lambda>a b. l_fence a < l_fence b) (leases d)"
    "sorted_wrt (\<lambda>a b. l_issued a < l_issued b) (leases d)"
    using assms(1) by (simp_all add: fences_ok_def sorted_wrt_map)
  then have "sorted_wrt (\<lambda>a b. l_fence a < l_fence b \<and> l_issued a < l_issued b) (leases d)"
    by (induction "leases d" arbitrary: d) (auto simp: sorted_wrt_iff_nth_less)
  from sorted_wrt_pairs [OF this assms(2,3)] show ?thesis using assms(4,5) by auto
qed

lemma points_distinct:
  assumes "audited_during d aus"
  shows "distinct (concat (map points_of aus))"
proof -
  have each: "distinct (points_of au)" if au: "au \<in> set aus" for au
  proof -
    obtain j d1 d2 d3 where eq: "au = (j, d1, d2, d3)" by (cases au)
    then have "tx_step\<^sup>*\<^sup>* empty_db d3"
      using assms au by (auto simp: audited_during_def intro: rtranclp_trans)
    then have "fences_ok d3" by (auto dest: txs.ok_reachable simp: db_inv_def core_inv_def)
    then have "distinct (map l_fence (audit_leases j d3))"
      by (intro sorted_wrt_less_distinct) (rule audit_leases_fences)
    moreover have "map (fst \<circ> snd) (points_of au) = map l_fence (audit_leases j d3)"
      by (simp add: eq points_of_def)
    ultimately show ?thesis by (metis distinct_map)
  qed
  have job: "snd (snd p) = fst au" if "p \<in> set (points_of au)" for p au
    using that by (auto simp: points_of_def split: prod.splits)
  have "distinct (map fst aus)" using assms by (simp add: audited_during_def)
  then show ?thesis using each
  proof (induction aus)
    case (Cons au aus)
    have "set (points_of au) \<inter> set (concat (map points_of aus)) = {}"
    proof (rule ccontr)
      assume "\<not> ?thesis"
      then obtain p au' where "p \<in> set (points_of au)" "au' \<in> set aus" "p \<in> set (points_of au')"
        by (auto simp: disjoint_iff)
      then have "fst au = fst au'" using job [of p au] job [of p au'] by simp
      moreover have "fst au' \<in> fst ` set aus" using \<open>au' \<in> set aus\<close> by (rule imageI)
      ultimately show False using Cons.prems(1) by simp
    qed
    then show ?case using Cons by simp
  qed simp
qed

lemma global_scan_clean:
  assumes "audited_during d aus" and "tx_step\<^sup>*\<^sup>* empty_db d"
  shows "global_scan (-1) (sort_key fst (concat (map points_of aus))) = []"
proof (rule global_scan_ok)
  let ?ps = "concat (map points_of aus)"
  note lease = point_is_lease [OF assms(1)]
  have f: "fences_ok d" using txs.ok_reachable [OF assms(2)] by (simp add: db_inv_def core_inv_def)
  show "\<forall>p \<in> set (sort_key fst ?ps). - 1 < fst (snd p)"
    using lease fence_pos_mem [OF tx_steps_fence_pos [OF assms(2)]] by fastforce
  show "sorted_wrt (\<lambda>p q. fst (snd p) < fst (snd q)) (sort_key fst ?ps)"
  proof (rule sorted_distinct_wrt [where key = fst])
    show "distinct (sort_key fst ?ps)" using points_distinct [OF assms(1)] by simp
    fix p q assume pq: "p \<in> set (sort_key fst ?ps)" "q \<in> set (sort_key fst ?ps)" "p \<noteq> q" "fst p \<le> fst q"
    obtain l where l: "l \<in> set (leases d)" "p = (of_int (l_issued l), l_fence l, l_job l)"
      using lease [of p] pq(1) by (auto simp del: set_concat)
    obtain l' where l': "l' \<in> set (leases d)" "q = (of_int (l_issued l'), l_fence l', l_job l')"
      using lease [of q] pq(2) by (auto simp del: set_concat)
    show "fst (snd p) < fst (snd q)"
      using lease_time_order [OF f l(1) l'(1)] l l' pq(3,4) by auto
  qed (rule sorted_sort_key)
qed

section \<open>Submissions\<close>

definition submit_body :: "string \<Rightarrow> json \<Rightarrow> json" where
  "submit_body key pl = JObj [(''idempotency_key'', JStr key), (''payload'', pl)]"

text \<open>
  One submission of a run: what the system does before it, the coordinator it goes to, and
  whether the answer gets back to the harness.
\<close>

record submission =
  su_before :: "db \<Rightarrow> db"
  su_env :: env
  su_coord :: coord
  su_key :: string
  su_payload :: json
  su_answered :: bool
  su_clock :: "nat \<Rightarrow> rat"

definition submit_step :: "submission \<Rightarrow> hstate \<times> db \<Rightarrow> hstate \<times> db" where
  "submit_step su s =
     (case s of (hs, d) \<Rightarrow>
        (case handle_create_job (su_env su) (Some (submit_body (su_key su) (su_payload su)))
                (su_coord su) (su_before su d) of
           (r, co', d') \<Rightarrow>
             (let (st, body) = (if \<not> su_answered su then (0, JNull)
                                else case r of Inl _ \<Rightarrow> (500, JNull) | Inr a \<Rightarrow> a)
              in (snd (submit_one (e_text (su_env su)) (su_clock su) (su_key su) (su_payload su) st body hs), d'))))"

definition no_dedup_event :: "hevent list \<Rightarrow> bool" where
  "no_dedup_event evs \<longleftrightarrow> list_all (\<lambda>ev. case ev of DedupDistinctIds k a b \<Rightarrow> False | _ \<Rightarrow> True) evs"

definition records_ok :: "hstate \<Rightarrow> db \<Rightarrow> bool" where
  "records_ok hs d \<longleftrightarrow>
     (\<forall>k j. map_of (h_keys hs) k = Some j \<longrightarrow> job_of_key k d = Some j) \<and>
     (\<forall>r \<in> set (h_jobs hs). job_of_key (fst (snd r)) d = Some (fst r)) \<and>
     distinct (map fst (h_jobs hs)) \<and> no_dedup_event (map snd (h_log hs))"

lemma create_tx_key:
  assumes "create_tx e key pl coord d = (Inr (b, j), d')"
  shows "job_of_key key d' = Some j"
  using assms
  by (cases rule: create_tx_cases [of key d e pl coord]) (auto simp: frame_simps key_insert_job)

lemma transaction_ok:
  "transaction mt co body d = (Inr x, d') \<Longrightarrow> body d = (Inr x, d')"
  by (auto simp: transaction_def split: option.splits prod.splits sum.splits)

lemma create_job_reply:
  assumes "handle_create_job e (Some (submit_body key pl)) co d = (Inr (st, body), co', d')"
    and "st \<in> {200, 201, 202}"
  shows "\<exists>j. body = JObj [(''job_id'', JStr j)] \<and> job_of_key key d' = Some j"
proof (cases "parse_submit (submit_body key pl)")
  case (Inl r)
  then have "r = Inr (400, JObj [(''error'', JStr x)])" if "r = err 400 x" for x using that by (simp add: err_def)
  moreover have "\<exists>x. r = err 400 x"
    using Inl by (auto simp: parse_submit_def submit_body_def Let_def split: if_splits)
  ultimately show ?thesis using assms Inl by (auto simp: handle_create_job_def err_def)
next
  case (Inr kp)
  then have kp: "kp = (key, pl)"
    by (auto simp: parse_submit_def submit_body_def Let_def split: if_splits)
  obtain r d1 where t: "transaction (e_mono e) co (create_tx e key pl (co_id co)) d = (r, d1)"
    by (metis surj_pair)
  show ?thesis
  proof (cases r)
    case (Inl x)
    then show ?thesis
      using assms Inr kp t by (cases x) (auto simp: handle_create_job_def err_def)
  next
    case (Inr bj)
    then have "handle_create_job e (Some (submit_body key pl)) co d =
        (Inr (created_response (fst bj) (snd bj)), co', d1)"
      using assms(1) \<open>parse_submit (submit_body key pl) = Inr kp\<close> kp t
      by (cases bj) (auto simp: handle_create_job_def Let_def)
    moreover have "job_of_key key d1 = Some (snd bj)"
      using transaction_ok [of "e_mono e" co "create_tx e key pl (co_id co)" d bj d1] t Inr
      by (cases bj) (auto dest: create_tx_key)
    ultimately show ?thesis using assms(1) by (simp add: created_response_def)
  qed
qed

lemma records_ok_steps:
  assumes "tx_step\<^sup>*\<^sup>* d d'" and "records_ok hs d"
  shows "records_ok hs d'"
proof -
  have "job_of_key k d' = Some j" if "job_of_key k d = Some j" for k j
    using assms(1) that by (induction rule: rtranclp_induct) (auto intro: tx_step_key)
  then show ?thesis using assms(2) by (simp add: records_ok_def)
qed

lemma submit_one_records:
  assumes "records_ok hs d" and "st \<in> {200, 201, 202} \<Longrightarrow> \<exists>j. body = JObj [(''job_id'', JStr j)] \<and> job_of_key key d = Some j"
  shows "records_ok (snd (submit_one so tm key pl st body hs)) d"
proof (cases "st \<in> {200, 201, 202}")
  case True
  then obtain j where j: "body = JObj [(''job_id'', JStr j)]" "job_of_key key d = Some j"
    using assms(2) by blast
  have old: "old = j" if "map_of (h_keys hs) key = Some old" for old
    using assms(1) that j(2) by (auto simp: records_ok_def)
  show ?thesis
    using True assms(1) j old
    by (auto simp: submit_one_def hlog_def records_ok_def Let_def no_dedup_event_def update_conv' map_of_eq_None_iff
        split: option.split)
next
  case False
  then show ?thesis using assms(1) by (simp add: submit_one_def Let_def hlog_def records_ok_def no_dedup_event_def)
qed

lemma submit_step_ok:
  assumes "records_ok hs d" and "\<And>d. tx_step\<^sup>*\<^sup>* d (su_before su d)"
  shows "records_ok (fst (submit_step su (hs, d))) (snd (submit_step su (hs, d))) \<and>
    tx_step\<^sup>*\<^sup>* d (snd (submit_step su (hs, d)))"
proof -
  obtain r co' d' where c: "handle_create_job (su_env su) (Some (submit_body (su_key su) (su_payload su)))
      (su_coord su) (su_before su d) = (r, co', d')"
    by (metis surj_pair)
  have "tx_step\<^sup>*\<^sup>* (su_before su d) d'"
    using create_job_steps [of "su_before su d" "su_env su" "Some (submit_body (su_key su) (su_payload su))" "su_coord su"] c
    by simp
  then have s: "tx_step\<^sup>*\<^sup>* d d'" using assms(2) [of d] by (rule rtranclp_trans [rotated])
  obtain st body where a: "(if \<not> su_answered su then (0, JNull)
      else case r of Inl _ \<Rightarrow> (500, JNull) | Inr a \<Rightarrow> a) = (st, body)" by (metis surj_pair)
  have "records_ok (snd (submit_one (e_text (su_env su)) (su_clock su) (su_key su) (su_payload su) st body hs)) d'"
  proof (rule submit_one_records)
    show "records_ok hs d'" using s assms(1) by (rule records_ok_steps)
    assume st: "st \<in> {200, 201, 202}"
    then have "r = Inr (st, body)" using a by (auto split: if_splits sum.splits)
    then show "\<exists>j. body = JObj [(''job_id'', JStr j)] \<and> job_of_key (su_key su) d' = Some j"
      using create_job_reply c st by blast
  qed
  then show ?thesis using s a by (simp add: submit_step_def c)
qed

lemma submit_run_ok:
  assumes "\<forall>su \<in> set sus. \<forall>d. tx_step\<^sup>*\<^sup>* d (su_before su d)" and "records_ok hs d"
  shows "records_ok (fst (fold submit_step sus (hs, d))) (snd (fold submit_step sus (hs, d))) \<and>
    tx_step\<^sup>*\<^sup>* d (snd (fold submit_step sus (hs, d)))"
  using assms
proof (induction sus arbitrary: hs d)
  case (Cons su sus)
  let ?s = "submit_step su (hs, d)"
  have "records_ok (fst ?s) (snd ?s) \<and> tx_step\<^sup>*\<^sup>* d (snd ?s)"
    using Cons.prems by (intro submit_step_ok) auto
  then show ?case
    using Cons.IH [of "fst ?s" "snd ?s"] Cons.prems(1) by (auto intro: rtranclp_trans)
qed simp

lemma records_ok_start: "records_ok h_start d"
  by (simp add: records_ok_def h_start_def no_dedup_event_def)

lemma job_keys_fst: "map fst (job_keys hs) = map fst (h_jobs hs)"
  by (simp add: job_keys_def o_def case_prod_unfold)

lemma verify_dedup_clean:
  assumes "distinct (map fst js)" and "\<And>j k. (j, k) \<in> set js \<Longrightarrow> g k = Some j"
  shows "verify_dedup js = []"
proof -
  have "length (ids_of_key k js) \<le> 1" for k
  proof -
    have "set (ids_of_key k js) \<subseteq> set_option (g k)" using assms(2) by (force simp: ids_of_key_def)
    then have "card (set (ids_of_key k js)) \<le> card (set_option (g k))" by (intro card_mono) auto
    also have "\<dots> \<le> 1" by (cases "g k") auto
    finally have "card (set (ids_of_key k js)) \<le> 1" .
    moreover have "distinct (ids_of_key k js)"
      unfolding ids_of_key_def using assms(1) by (rule distinct_map_filter)
    ultimately show ?thesis by (simp only: distinct_card)
  qed
  then have "\<not> Suc 0 < length (ids_of_key k js)" for k by (metis One_nat_def not_less)
  then show ?thesis by (auto simp: verify_dedup_def Let_def)
qed

lemma verify_dedup_records: "records_ok hs d \<Longrightarrow> verify_dedup (job_keys hs) = []"
  by (rule verify_dedup_clean [where g = "\<lambda>k. job_of_key k d"])
    (auto simp: job_keys_fst records_ok_def, auto simp: job_keys_def)

lemma verify_audits:
  assumes "audited_during d aus" and "tx_step\<^sup>*\<^sup>* empty_db d" and "verify_dedup js = []"
  shows "verify js (map (\<lambda>(j, d1, d2, d3). (j, audit_of so j d1 d2 d3)) aus) = Inr (concat (map lost_of aus))"
proof -
  let ?as = "map (\<lambda>(j, d1, d2, d3). (j, audit_of so j d1 d2 d3)) aus"
  have r: "tx_step\<^sup>*\<^sup>* empty_db d2 \<and> tx_step\<^sup>*\<^sup>* d2 d3" if "(j, d1, d2, d3) \<in> set aus" for j d1 d2 d3
    using assms(1) that by (auto simp: audited_during_def intro: rtranclp_trans)
  have map1: "smap f ?as = smap (\<lambda>(j, d1, d2, d3). f (j, audit_of so j d1 d2 d3)) aus"
    for f :: "string \<times> json \<Rightarrow> exn + 'b list"
    by (induction aus) auto
  have "smap (\<lambda>(jid, a). verify_one jid a) ?as = Inr (map lost_of aus)"
    unfolding map1 by (rule smap_Inr) (auto simp: verify_one_lost dest!: r)
  moreover have "smap (\<lambda>(jid, a). fence_points jid a) ?as = Inr (map points_of aus)"
    unfolding map1 by (rule smap_Inr) (auto simp: fence_points_audit)
  ultimately show ?thesis
    by (simp add: verify_def assms(3) global_scan_clean [OF assms(1,2)])
qed

lemma replay_last: "replay s es = Some (Some st) \<Longrightarrow> es = [] \<and> s = Some st \<or> es \<noteq> [] \<and> snd (last es) = st"
  by (induction s es rule: replay.induct) (auto split: if_splits)

lemma terminal_logged:
  assumes "log_ok d" and "job_state j d = Some st" and "terminal st"
  shows "\<exists>t \<in> set (transitions d). t_job t = j \<and> terminal (t_to t)"
proof -
  have "job_log j d \<noteq> [] \<and> snd (last (job_log j d)) = st"
    using replay_last [of None "job_log j d" st] assms(1,2) by (auto simp: log_ok_def)
  then have "\<exists>p \<in> set (job_log j d). snd p = st" by (metis last_in_set)
  then show ?thesis using assms(3) by (auto simp: job_log_def)
qed

lemma lost_of_finished:
  assumes "tx_step\<^sup>*\<^sup>* empty_db d1" and "job_state j d1 = Some st" and "terminal st"
  shows "lost_of (j, d1, d2, d3) = []"
  using terminal_logged [of d1 j st] txs.ok_reachable [OF assms(1)] assms(2,3)
  by (simp add: lost_of_def db_inv_def hist_inv_def)

lemma py_round_mono: "x \<le> y \<Longrightarrow> py_round x \<le> py_round y"
proof -
  assume le: "x \<le> y"
  then have "\<lfloor>x\<rfloor> \<le> \<lfloor>y\<rfloor>" by (rule floor_mono)
  moreover have "\<lfloor>x\<rfloor> \<le> py_round x \<and> py_round x \<le> \<lfloor>x\<rfloor> + 1" "\<lfloor>y\<rfloor> \<le> py_round y"
    by (auto simp: py_round_def Let_def)
  ultimately consider "\<lfloor>x\<rfloor> < \<lfloor>y\<rfloor>" | "\<lfloor>x\<rfloor> = \<lfloor>y\<rfloor>" by linarith
  then show "py_round x \<le> py_round y"
  proof cases
    case 1
    then show ?thesis
      using \<open>\<lfloor>x\<rfloor> \<le> py_round x \<and> py_round x \<le> \<lfloor>x\<rfloor> + 1\<close> \<open>\<lfloor>y\<rfloor> \<le> py_round y\<close> by linarith
  next
    case 2
    then show ?thesis using le by (auto simp: py_round_def Let_def)
  qed
qed

section \<open>Properties\<close>

text \<open>
  C7. The harness finds nothing but unfinished jobs. Submissions go to any coordinators, answers
  may be lost, and before each of them, and then before and during the audits, the system takes
  any steps with commits that do not interleave. Then no submission sees two ids for a key, and
  \<open>verify\<close> returns exactly one \<open>Lost\<close> for each audited job that had neither a terminal transition
  nor an accepted commit: no duplicate, no double commit, no stale commit, no fence out of order,
  per job or globally.
\<close>

theorem harness_finds_only_unfinished_jobs:
  assumes "\<forall>su \<in> set sus. \<forall>d. tx_step\<^sup>*\<^sup>* d (su_before su d)"
    and "fold submit_step sus (h_start, empty_db) = (hs, d0)" and "tx_step\<^sup>*\<^sup>* d0 d"
    and "audited_during d aus"
  shows "no_dedup_event (map snd (h_log hs)) \<and>
    verify (job_keys hs) (map (\<lambda>(j, d1, d2, d3). (j, audit_of so j d1 d2 d3)) aus) =
      Inr (concat (map lost_of aus))"
proof
  have run: "records_ok hs d0 \<and> tx_step\<^sup>*\<^sup>* empty_db d0"
    using submit_run_ok [OF assms(1) records_ok_start, of empty_db] assms(2) by simp
  then have reach: "tx_step\<^sup>*\<^sup>* empty_db d" using assms(3) by (blast intro: rtranclp_trans)
  show "no_dedup_event (map snd (h_log hs))" using run by (simp add: records_ok_def)
  show "verify (job_keys hs) (map (\<lambda>(j, d1, d2, d3). (j, audit_of so j d1 d2 d3)) aus) =
      Inr (concat (map lost_of aus))"
    using run by (intro verify_audits [OF assms(4) reach]) (blast intro: verify_dedup_records)
qed

text \<open>One submission of key \<open>k\<close>, which becomes job \<open>j\<close>, audited at once.\<close>

definition one_submission :: submission where
  "one_submission = \<lparr>su_before = id, su_env = env_at 100 ''j'', su_coord = boot ''c1'' 1000,
     su_key = ''k'', su_payload = JObj [], su_answered = True, su_clock = (\<lambda>_. 0)\<rparr>"

theorem harness_finds_only_unfinished_jobs_witness:
  "verify (job_keys (fst (submit_step one_submission (h_start, empty_db))))
     [(''j'', let d = snd (submit_step one_submission (h_start, empty_db)) in audit_of (\<lambda>_. []) ''j'' d d d)] =
   Inr [Lost ''j'']"
proof -
  let ?s = "submit_step one_submission (h_start, empty_db)"
  have r: "tx_step\<^sup>*\<^sup>* empty_db (snd ?s)"
    using submit_step_ok [OF records_ok_start, of one_submission empty_db] by (simp add: one_submission_def)
  have "lost_of (''j'', snd ?s, snd ?s, snd ?s) = [Lost ''j'']" by code_simp
  then show ?thesis
    using harness_finds_only_unfinished_jobs [of "[one_submission]" "fst ?s" "snd ?s" "snd ?s"
        "[(''j'', snd ?s, snd ?s, snd ?s)]" "\<lambda>_. []"] r
    by (simp add: one_submission_def audited_during_def Let_def)
qed

text \<open>
  The verdict on a run whose jobs all finished: when every audited job was succeeded or
  cancelled at the time of its audit, less than one submission in a hundred failed, and commits
  did not interleave, the harness reports no violation and passes the system.
\<close>

theorem harness_passes_finished_run:
  fixes so :: "json \<Rightarrow> string"
  assumes "audited_during d aus" and "tx_step\<^sup>*\<^sup>* empty_db d" and "records_ok hs d"
    and "\<forall>(j, d1, d2, d3) \<in> set aus. \<exists>st. job_state j d1 = Some st \<and> terminal st"
    and "100 * hcount ''submit_fail'' hs < hcount ''submit_ok'' hs"
  defines "audits \<equiv> map (\<lambda>(j, d1, d2, d3). (j, audit_of so j d1 d2 d3)) aus"
  shows "\<exists>vs. verify (job_keys hs) audits = Inr vs \<and> verdict_of vs audits hs = Pass"
proof -
  have "verify (job_keys hs) audits = Inr (concat (map lost_of aus))"
    unfolding audits_def using assms(1-3) by (intro verify_audits verify_dedup_records)
  moreover have "concat (map lost_of aus) = []"
    using assms(1,4) lost_of_finished by (fastforce simp: audited_during_def)
  moreover have "unreachable_count audits = 0"
    by (auto simp: unreachable_count_def audits_def filter_empty_conv)
  ultimately show ?thesis using assms(5) by (simp add: verdict_of_def)
qed

text \<open>The job of the race, committed in time instead.\<close>

definition committed_db :: db where
  "committed_db = snd (commit_tx (env_at 300 []) ''c1'' ''j'' 1 ''w1'' (JInt 7) race_leased)"

definition committed_records :: hstate where
  "committed_records = \<lparr>h_jobs = [(''j'', ''k'', JObj [], 201, 0)], h_keys = [(''k'', ''j'')],
     h_log = [(0, SubmitOk 201)], h_counts = [(''submit_ok'', 1)], h_lat = [0]\<rparr>"

lemma committed_reachable: "tx_step\<^sup>*\<^sup>* empty_db committed_db"
proof -
  let ?d1 = "snd (create_tx (env_at 100 ''j'') ''k'' (JObj []) ''c1'' empty_db)"
  have 1: "tx_step empty_db ?d1" by (rule tx_step.submit)
  have 2: "tx_step ?d1 race_leased" unfolding race_leased_def by (rule tx_step.claim)
  have 3: "tx_step race_leased committed_db" unfolding committed_db_def by (rule tx_step.commit)
  from 1 2 3 show ?thesis by (meson converse_rtranclp_into_rtranclp rtranclp.rtrancl_refl)
qed

theorem harness_passes_finished_run_witness:
  "\<exists>vs. verify (job_keys committed_records)
       [(''j'', audit_of (\<lambda>_. []) ''j'' committed_db committed_db committed_db)] = Inr vs \<and>
     verdict_of vs [(''j'', audit_of (\<lambda>_. []) ''j'' committed_db committed_db committed_db)] committed_records = Pass"
proof -
  have key: "job_of_key ''k'' committed_db = Some ''j''" by code_simp
  have st: "job_state ''j'' committed_db = Some Succeeded" by code_simp
  show ?thesis
    using harness_passes_finished_run [of committed_db "[(''j'', committed_db, committed_db, committed_db)]"
        committed_records "\<lambda>_. []"] committed_reachable key st
    by (simp add: audited_during_def records_ok_def no_dedup_event_def hcount_def
        committed_records_def terminal_def)
qed

text \<open>
  C32. The harness does see the commit race: on a reachable state of the interleaved system, the
  audit of the job makes \<open>verify\<close> report a stale commit, fence 1 accepted while 2 was issued.
\<close>

theorem harness_detects_commit_race:
  "\<exists>s. sys_step\<^sup>*\<^sup>* sys_start s \<and>
     verify [(''j'', ''k'')] [(''j'', audit_of (\<lambda>_. []) ''j'' (s_db s) (s_db s) (s_db s))] =
       Inr [StaleCommitAccepted ''j'' 1 2]"
proof -
  let ?d = "snd (finish_tx (env_at 1500 []) race_open race_released)"
  have "verify [(''j'', ''k'')] [(''j'', audit_of (\<lambda>_. []) ''j'' ?d ?d ?d)] =
      Inr [StaleCommitAccepted ''j'' 1 2]"
    by code_simp
  then show ?thesis
    using race_stale_accept by (metis (no_types, lifting) sys.select_convs(1))
qed

text \<open>
  Every fault of the harness's endless plan, whatever its random parameters, is one that the
  coordinators accept: the answer is 200, never 400 or an exception.
\<close>

theorem plan_is_accepted:
  "\<exists>body. fst (handle_chaos e (Some (fault_request (fst (plan acks skew ms n)) (snd (plan acks skew ms n)))) co) =
     Inr (200, body)"
proof -
  have "plan acks skew ms n \<in> set (fault_script acks skew ms)"
    unfolding plan_def Let_def by (rule nth_mem) (simp add: fault_script_def)
  then show ?thesis
    by (auto simp: fault_script_def handle_chaos_def fault_request_def or_empty_def all_faults_def
        broadcast_faults_def apply_fault_local_def Let_def)
qed

text \<open>
  A percentile of the report is one of the measured latencies, and a higher percentile is
  never a lower latency.
\<close>

theorem percentile_sound:
  assumes "xs \<noteq> []"
  shows "percentile xs p \<in> set xs \<and> (p \<le> q \<longrightarrow> percentile xs p \<le> percentile xs q)"
proof (intro conjI impI)
  let ?n = "int (length xs) - 1" and ?k = "\<lambda>p. max 0 (min (int (length xs) - 1) (py_round (p / 100 * of_int (int (length xs) - 1))))"
  have n: "1 \<le> length xs" using assms by (cases xs) simp_all
  have k: "nat (?k r) < length (sort xs)" for r using assms by (cases xs) auto
  have eq: "percentile xs r = sort xs ! nat (?k r)" for r
    using assms by (simp add: percentile_def Let_def)
  show "percentile xs p \<in> set xs" unfolding eq using nth_mem [OF k] by simp
  assume "p \<le> q"
  then have "p / 100 * of_int ?n \<le> q / 100 * of_int ?n"
    using n by (intro mult_right_mono) simp_all
  then have "py_round (p / 100 * of_int ?n) \<le> py_round (q / 100 * of_int ?n)" by (rule py_round_mono)
  then have "nat (?k p) \<le> nat (?k q)" by (intro nat_mono max.mono min.mono) simp_all
  then show "percentile xs p \<le> percentile xs q"
    unfolding eq using k by (intro sorted_nth_mono) simp_all
qed

theorem percentile_sound_witness:
  "percentile [5, 1, 3] 50 \<in> {5, 1, 3} \<and> percentile [5, 1, 3] 50 \<le> percentile [5, 1, 3] 99"
  using percentile_sound [of "[5, 1, 3]" 50 99] by simp

end
