(* ===== verification/History.thy ===== *)
theory History
  imports Interleaving "HOL-Library.Sublist"
begin

text \<open>
  The tables the schema calls append-only: no transaction of any coordinator takes a row of the
  transition log or of the commit log away or changes it; a lease keeps all but its deadline and its
  expiry, and an expiry that is set stays.
\<close>

section \<open>What a lease row keeps\<close>

definition lease_core :: "lease_row \<Rightarrow> int \<times> uuid \<times> int \<times> string \<times> int" where
  "lease_core l = (l_id l, l_job l, l_fence l, l_worker l, l_issued l)"

definition leases_kept :: "lease_row list \<Rightarrow> lease_row list \<Rightarrow> bool" where
  "leases_kept ls ls' \<longleftrightarrow> length ls \<le> length ls' \<and>
     list_all2 (\<lambda>l l'. lease_core l' = lease_core l \<and> (l_expired l = None \<or> l_expired l' = l_expired l))
       ls (take (length ls) ls')"

definition history_kept :: "db \<Rightarrow> db \<Rightarrow> bool" where
  "history_kept d d' \<longleftrightarrow> prefix (transitions d) (transitions d') \<and> prefix (commits d) (commits d') \<and>
     leases_kept (leases d) (leases d')"

lemma leases_kept_iff:
  "leases_kept ls ls' \<longleftrightarrow> length ls \<le> length ls' \<and> (\<forall>i < length ls. lease_core (ls' ! i) = lease_core (ls ! i) \<and>
     (l_expired (ls ! i) = None \<or> l_expired (ls' ! i) = l_expired (ls ! i)))"
  by (auto simp: leases_kept_def list_all2_conv_all_nth)

lemma leases_kept_refl [simp]: "leases_kept ls ls"
  by (simp add: leases_kept_iff)

lemma leases_kept_append [simp]: "leases_kept ls (ls @ ks)"
  by (simp add: leases_kept_iff nth_append)

lemma leases_kept_upd:
  assumes "\<And>l. l \<in> set ls \<Longrightarrow> P l \<Longrightarrow> lease_core (f l) = lease_core l \<and> (l_expired l = None \<or> l_expired (f l) = l_expired l)"
  shows "leases_kept ls (upd_where P f ls)"
  using assms by (simp add: leases_kept_iff upd_where_def)

lemma leases_kept_trans: "leases_kept as bs \<Longrightarrow> leases_kept bs cs \<Longrightarrow> leases_kept as cs"
  unfolding leases_kept_iff by (metis order_less_le_trans order_trans)

lemma history_kept_refl [simp]: "history_kept d d"
  by (simp add: history_kept_def)

lemma history_kept_trans: "history_kept a b \<Longrightarrow> history_kept b c \<Longrightarrow> history_kept a c"
  unfolding history_kept_def by (meson leases_kept_trans prefix_order.trans)

text \<open>A lease that was issued stays issued.\<close>

lemma lease_stays:
  assumes "history_kept d d'" and "l \<in> set (leases d)"
  shows "\<exists>l' \<in> set (leases d'). lease_core l' = lease_core l"
proof -
  obtain i where i: "i < length (leases d)" "leases d ! i = l" using assms(2) by (auto simp: in_set_conv_nth)
  then have "lease_core (leases d' ! i) = lease_core l" "i < length (leases d')"
    using assms(1) by (auto simp: history_kept_def leases_kept_iff)
  then show ?thesis by (metis nth_mem)
qed

section \<open>Every step keeps the history\<close>

lemma kept_same: "transitions d' = transitions d \<Longrightarrow> commits d' = commits d \<Longrightarrow> leases d' = leases d \<Longrightarrow> history_kept d d'"
  by (simp add: history_kept_def)

lemma kept_record [simp]: "history_kept d0 d \<Longrightarrow> history_kept d0 (record_transition j s s' c t d)"
  by (simp add: history_kept_def record_transition_def prefix_def) auto

lemma kept_insert_commit [simp]: "history_kept d0 d \<Longrightarrow> history_kept d0 (insert_commit j f w acc t d)"
  by (simp add: history_kept_def insert_commit_def prefix_def) auto

lemma kept_jobs [simp]:
  "history_kept d0 (insert_job r d) = history_kept d0 d" "history_kept d0 (set_job_state j s t d) = history_kept d0 d"
  "history_kept d0 (succeed_job j res t d) = history_kept d0 d"
  by (simp_all add: history_kept_def statement_defs)

lemma kept_seqs [simp]:
  "history_kept d0 (d\<lparr>fence_seq := a\<rparr>) = history_kept d0 d" "history_kept d0 (d\<lparr>tr_seq := a\<rparr>) = history_kept d0 d"
  "history_kept d0 (d\<lparr>ls_seq := a\<rparr>) = history_kept d0 d" "history_kept d0 (d\<lparr>cm_seq := a\<rparr>) = history_kept d0 d"
  by (simp_all add: history_kept_def)

lemma kept_claim: "history_kept d (snd (claim_tx e ttl coord w d))"
proof (cases rule: claim_tx_cases [of e d ttl coord w])
  case (claimed r)
  have "history_kept d (insert_lease j f w ms ms' d')" if "transitions d' = transitions d" "commits d' = commits d"
    "leases d' = leases d" for j f ms ms' d'
    using that by (simp add: history_kept_def insert_lease_def)
  then show ?thesis
    using claimed by (auto simp: leased_db_def default_issue_def issue_fence_def Let_def set_job_state_def split: prod.split)
qed simp

lemma kept_renew: "history_kept d (snd (renew_tx e ttl j f d))"
  by (auto simp: history_kept_def renew_tx_def Let_def lease_core_def intro!: leases_kept_upd)

lemma kept_expire:
  assumes "core_inv d" and "l \<in> set (leases d)" and "l_expired l = None"
  shows "history_kept d (expire_lease (l_id l) t d)"
proof -
  have u: "l' = l" if "l' \<in> set (leases d)" "l_id l' = l_id l" for l'
    using lease_unique_id [OF assms(1) that(1) assms(2) that(2)] .
  have "leases_kept (leases d) (upd_where (\<lambda>l'. l_id l' = l_id l) (\<lambda>l. l\<lparr>l_expired := Some t\<rparr>) (leases d))"
    by (rule leases_kept_upd, drule (1) u) (simp add: assms(3) lease_core_def)
  then have "leases_kept (leases d) (leases (expire_lease (l_id l) t d))"
    by (simp add: expire_lease_def)
  then show ?thesis by (simp add: history_kept_def expire_lease_def)
qed

lemma kept_reap:
  assumes "core_inv d" and "lease_known lid j f d"
  shows "history_kept d (snd (reap_tx e coord lid j f d))"
  using assms
proof (cases rule: reap_tx_cases [where e = e and coord = coord])
  case (requeued l)
  then show ?thesis using kept_expire [OF assms(1), of l] by (simp add: requeued_db_def)
next
  case (expired l)
  then show ?thesis using kept_expire [OF assms(1), of l] by simp
qed simp

lemma kept_writes: "history_kept d (snd (commit_writes e coord j f w res rd d))"
  by (simp add: commit_writes_snd accepted_db_def split: option.split prod.split bool.split)

lemma tx_step_kept: "tx_step d d' \<Longrightarrow> core_inv d \<Longrightarrow> history_kept d d'"
proof (induction rule: tx_step.induct)
  case (submit d e key pl coord)
  then show ?case by (cases rule: create_tx_cases [of key d e pl coord]) simp_all
next
  case (cancel d e j coord)
  show ?case by (simp add: cancel_tx_def)
next
  case (claim d e ttl coord w)
  show ?case by (rule kept_claim)
next
  case (commit d e coord j f w res)
  show ?case by (simp add: commit_tx_def kept_writes)
next
  case (reap lid j f d e coord)
  show ?case using reap.prems reap.hyps by (rule kept_reap)
next
  case (renew d e ttl j f)
  show ?case by (rule kept_renew)
qed (simp add: history_kept_def)

lemma sys_step_kept: "sys_step s t \<Longrightarrow> sys_inv s \<Longrightarrow> history_kept (s_db s) (s_db t)"
proof (induction rule: sys_step.induct)
  case (other s d)
  then show ?case by (simp add: sys_inv_def tx_step_kept)
next
  case (end_commit s n oc e r d)
  then have d: "d = snd (finish_tx e oc (s_db s))" by simp
  show ?case by (simp add: d finish_tx_def kept_writes)
next
  case (killed_after_reply s n oc e r d)
  show ?case by (simp add: roll_back_def)
qed simp_all

lemma sys_steps_kept:
  assumes "sys_step\<^sup>*\<^sup>* s t" and "sys_inv s"
  shows "history_kept (s_db s) (s_db t)"
  using assms(1)
proof (induction rule: rtranclp_induct)
  case (step t u)
  moreover have "sys_inv t" using step.hyps(1) assms(2) by (rule sysm.ok_steps)
  ultimately show ?case using sys_step_kept history_kept_trans by blast
qed simp

section \<open>Property\<close>

text \<open>
  C16. The history is append-only. Whatever the coordinators do after any reachable state, and however
  their commits interleave: the transition log and the commit log are extended at the end; no lease
  disappears, moves or changes its job, fence, worker or issue time; and a lease that was expired
  keeps its expiry, so it is never live again.
\<close>

theorem history_append_only:
  assumes "sys_step\<^sup>*\<^sup>* sys_start s" and "sys_step\<^sup>*\<^sup>* s t"
  shows "prefix (transitions (s_db s)) (transitions (s_db t)) \<and> prefix (commits (s_db s)) (commits (s_db t)) \<and>
    length (leases (s_db s)) \<le> length (leases (s_db t)) \<and>
    (\<forall>i < length (leases (s_db s)). lease_core (leases (s_db t) ! i) = lease_core (leases (s_db s) ! i) \<and>
      (l_expired (leases (s_db s) ! i) = None \<or> l_expired (leases (s_db t) ! i) = l_expired (leases (s_db s) ! i)))"
  using sys_steps_kept [OF assms(2) sysm.ok_reachable [OF assms(1)]]
  by (simp add: history_kept_def leases_kept_iff)

theorem history_append_only_witness:
  "prefix (transitions race_reaped) (transitions race_released) \<and> l_expired (leases race_released ! 0) = Some 1300 \<and>
   length (leases race_reaped) = 1 \<and> length (leases race_released) = 2"
proof -
  have "tx_step race_reaped race_released" unfolding race_released_def by (rule tx_step.claim)
  then have "sys_step (race_sys race_reaped) (race_sys race_released)"
    using sys_step.other [of "race_sys race_reaped" race_released] by (simp add: race_sys_def)
  then have st: "sys_step\<^sup>*\<^sup>* (race_sys race_reaped) (race_sys race_released)" by (rule r_into_rtranclp)
  have v: "length (leases race_reaped) = 1" "length (leases race_released) = 2" "l_expired (leases race_reaped ! 0) = Some 1300"
    by code_simp+
  show ?thesis using history_append_only [OF race_to_reaped st] v by (simp add: race_sys_def)
qed

end
