(* ===== verification/Cluster.thy ===== *)
theory Cluster
  imports History Faults Workers
begin

text \<open>
  The whole system: any number of coordinator processes over one database and one Redis, run by a
  list of actions. An action is one handler of one coordinator (a request, a worker's message, a
  published message, one claim of the dispatch loop, one row of the reaper), one half of a commit
  handler, or a crash. What the database sees of any run is a run of the system of \<open>Interleaving\<close>, so
  everything proved there holds for the handlers as they are composed here.
\<close>

section \<open>The two halves of a commit handler\<close>

text \<open>
  \<open>handle_commit\<close> up to its reads (\<open>None\<close>: it returns or raises without reading), and the rest of
  it. The gate is passed in the first half only.
\<close>

definition commit_open :: "env \<Rightarrow> nat \<Rightarrow> json \<Rightarrow> coord \<Rightarrow> db \<Rightarrow> open_commit option" where
  "commit_open e a data co d =
     (let jv = dget data ''job_id''
      in case as_int (dget data ''fence'') of
           None \<Rightarrow> None
         | Some f \<Rightarrow>
             if jv = JNull \<or> gate (e_mono e) co \<noteq> None then None
             else
               (case json_uuid e jv of
                  Inl x \<Rightarrow> None
                | Inr j \<Rightarrow> Some (open_tx e (co_id co) j f (w_id (co_conns co a))
                                   (result_json (dget data ''result'')) d)))"

definition commit_close ::
    "env \<Rightarrow> nat \<Rightarrow> string \<Rightarrow> open_commit \<Rightarrow> coord \<Rightarrow> db \<Rightarrow> (exn + unit) \<times> coord \<times> db" where
  "commit_close e a raw oc co d =
     (case finish_tx e oc d of
        (Inl x, d') \<Rightarrow> (Inl x, co, d')
      | (Inr out, d') \<Rightarrow> (Inr (), commit_effects e a raw out co, d'))"

text \<open>Run one after the other they are the handler.\<close>

lemma commit_writes_raises:
  "commit_writes e coord j f w res rd d = (r, d') \<Longrightarrow> r = Inl x \<Longrightarrow> d' = d"
  by (auto simp: commit_writes_def split: option.splits prod.splits bool.splits if_splits)

lemma commit_open_close:
  assumes "commit_open e a data co d = Some oc"
  shows "commit_close e a (raw_id (dget data ''job_id'')) oc co d = handle_commit e a data co d"
proof -
  let ?jv = "dget data ''job_id''" and ?w = "w_id (co_conns co a)" and ?res = "result_json (dget data ''result'')"
  obtain f j where o: "as_int (dget data ''fence'') = Some f" "?jv \<noteq> JNull" "gate (e_mono e) co = None"
      "json_uuid e ?jv = Inr j" "oc = open_tx e (co_id co) j f ?w ?res d"
    using assms by (auto simp: commit_open_def Let_def split: option.splits if_splits sum.splits)
  obtain r d' where w: "commit_writes e (co_id co) j f ?w ?res (commit_reads e j f d) d = (r, d')"
    by (metis surj_pair)
  from o w show ?thesis
    by (cases r) (use commit_writes_raises [OF w] in \<open>auto simp: commit_close_def handle_commit_def
      open_tx_def finish_tx_def commit_body_def commit_tx_def transaction_open\<close>)
qed

lemma commit_open_none:
  "commit_open e a data co d = None \<Longrightarrow> snd (handle_commit e a data co d) = (co, d)"
  by (auto simp: commit_open_def handle_commit_def commit_body_def transaction_def Let_def
      split: option.splits sum.splits prod.splits if_splits)

section \<open>The cluster\<close>

text \<open>
  An open commit handler: its coordinator, the life of that process it belongs to, the address of
  the connection and the job id as the worker wrote it.
\<close>

record slot =
  sl_co :: nat
  sl_life :: nat
  sl_conn :: nat
  sl_raw :: string

text \<open>
  \<open>cl_life\<close> counts the restarts of a process; \<open>cl_wire\<close> is everything published so far, with its
  channel; \<open>cl_deaf\<close> holds the coordinator and the channel of each subscription an exception ended.
\<close>

record cluster =
  cl_sys :: sys
  cl_co :: "nat \<Rightarrow> coord"
  cl_life :: "nat \<Rightarrow> nat"
  cl_slots :: "nat \<Rightarrow> slot option"
  cl_wire :: "(string \<times> json) list"
  cl_deaf :: "(nat \<times> string) list"

abbreviation cl_db :: "cluster \<Rightarrow> db" where
  "cl_db s \<equiv> s_db (cl_sys s)"

definition cl_start :: "(nat \<Rightarrow> string) \<Rightarrow> (nat \<Rightarrow> int) \<Rightarrow> cluster" where
  "cl_start ids ttl = \<lparr>cl_sys = sys_start, cl_co = (\<lambda>c. boot (ids c) (ttl c)), cl_life = (\<lambda>_. 0),
     cl_slots = (\<lambda>_. None), cl_wire = [], cl_deaf = []\<rparr>"

fun published :: "redis_cmd list \<Rightarrow> (string \<times> json) list" where
  "published [] = []"
| "published (Publish ch m # cs) = (ch, m) # published cs"
| "published (_ # cs) = published cs"

text \<open>Coordinator \<open>c\<close> becomes \<open>co\<close>; what it has published since goes on the wire.\<close>

definition cl_put :: "nat \<Rightarrow> coord \<Rightarrow> cluster \<Rightarrow> cluster" where
  "cl_put c co s = s\<lparr>cl_co := (cl_co s)(c := co),
     cl_wire := cl_wire s @ published (drop (length (co_redis (cl_co s c))) (co_redis co))\<rparr>"

definition cl_set_db :: "db \<Rightarrow> cluster \<Rightarrow> cluster" where
  "cl_set_db d s = s\<lparr>cl_sys := (cl_sys s)\<lparr>s_db := d\<rparr>\<rparr>"

definition cl_restart :: "nat \<Rightarrow> cluster \<Rightarrow> cluster" where
  "cl_restart c s = s\<lparr>cl_co := (cl_co s)(c := boot (co_id (cl_co s c)) (co_ttl (cl_co s c))),
     cl_life := (cl_life s)(c := Suc (cl_life s c)), cl_deaf := filter (\<lambda>(c', ch). c' \<noteq> c) (cl_deaf s)\<rparr>"

text \<open>A subscriber of \<open>c\<close> gets a published message.\<close>

definition cl_hear :: "nat \<Rightarrow> env \<Rightarrow> string \<times> json \<Rightarrow> cluster \<Rightarrow> cluster" where
  "cl_hear c e msg s =
     (let (ch, m) = msg; co = cl_co s c
      in if (c, ch) \<in> set (cl_deaf s) then s
         else if ch = wakeup_channel then cl_put c (co\<lparr>co_wake := True\<rparr>) s
         else
           (case (if ch = chaos_channel then chaos_deliver (e_mono e) m co
                  else if ch = concurrency_channel then concurrency_deliver e m co
                  else Inr co) of
              Inl x \<Rightarrow> s\<lparr>cl_deaf := (c, ch) # cl_deaf s\<rparr>
            | Inr co' \<Rightarrow> cl_put c co' s))"

section \<open>Actions\<close>

datatype act =
    ASubmit nat env "json option"
  | ACancel nat env env string
  | AFault nat env "json option"
  | ASetConcurrency nat env string "json option"
  | AHear nat env nat
  | ARegister nat json
  | AMessage nat env nat json
  | AOpenCommit nat env nat json nat
  | ACloseCommit env nat
  | ADieInCommit env nat
  | ALoseCommit nat
  | ADisconnect nat nat
  | AClaim nat env nat
  | AReap nat env int uuid int
  | ARestart nat

definition sys_close :: "nat \<Rightarrow> db \<Rightarrow> (string \<times> uuid \<times> int \<times> bool) list \<Rightarrow> sys \<Rightarrow> sys" where
  "sys_close n d rs s = s\<lparr>s_db := d, s_open := (s_open s)(n := None), s_replies := s_replies s @ rs\<rparr>"

text \<open>
  What an action does; one that is not enabled does nothing. A commit message opens a handler in
  the free slot \<open>n\<close>; it can be closed as long as its process lives. \<open>ADieInCommit\<close> is the crash after
  the reply has been sent, \<open>ALoseCommit\<close> a transaction that never reaches its writes. A claim is
  made for a connection that has capacity, a reap for a lease that some scan has returned.
\<close>

fun cl_do :: "act \<Rightarrow> cluster \<Rightarrow> cluster" where
  "cl_do (ASubmit c e body) s =
     (let (r, co, d) = handle_create_job e body (cl_co s c) (cl_db s) in cl_put c co (cl_set_db d s))"
| "cl_do (ACancel c e e2 j) s = cl_set_db (snd (handle_cancel_job e e2 id j (cl_co s c) (cl_db s))) s"
| "cl_do (AFault c e body) s = cl_put c (snd (handle_chaos e body (cl_co s c))) s"
| "cl_do (ASetConcurrency c e wid body) s =
     cl_put c (snd (handle_set_concurrency e wid body (cl_co s c))) s"
| "cl_do (AHear c e k) s = (if k < length (cl_wire s) then cl_hear c e (cl_wire s ! k) s else s)"
| "cl_do (ARegister c first) s =
     (case ws_register first (cl_co s c) of None \<Rightarrow> s | Some (a, co) \<Rightarrow> cl_put c co s)"
| "cl_do (AMessage c e a data) s =
     (if dget data ''type'' = JStr ''commit'' then s
      else (let (r, co, d) = route e a data (cl_co s c) (cl_db s) in cl_put c co (cl_set_db d s)))"
| "cl_do (AOpenCommit c e a data n) s =
     (case (s_open (cl_sys s) n, commit_open e a data (cl_co s c) (cl_db s)) of
        (None, Some oc) \<Rightarrow>
          s\<lparr>cl_sys := (cl_sys s)\<lparr>s_open := (s_open (cl_sys s))(n \<mapsto> oc)\<rparr>,
            cl_slots := (cl_slots s)(n \<mapsto> \<lparr>sl_co = c, sl_life = cl_life s c, sl_conn = a,
                                          sl_raw = raw_id (dget data ''job_id'')\<rparr>)\<rparr>
      | _ \<Rightarrow> s)"
| "cl_do (ACloseCommit e n) s =
     (case (s_open (cl_sys s) n, cl_slots s n) of
        (Some oc, Some sl) \<Rightarrow>
          if sl_life sl = cl_life s (sl_co sl) then
            (let (r, co, d) = commit_close e (sl_conn sl) (sl_raw sl) oc (cl_co s (sl_co sl)) (cl_db s)
             in cl_put (sl_co sl) co
                  (s\<lparr>cl_sys := sys_close n d (reply_of oc (fst (finish_tx e oc (cl_db s)))) (cl_sys s)\<rparr>))
          else s
      | _ \<Rightarrow> s)"
| "cl_do (ADieInCommit e n) s =
     (case (s_open (cl_sys s) n, cl_slots s n) of
        (Some oc, Some sl) \<Rightarrow>
          if sl_life sl = cl_life s (sl_co sl) then
            (let (r, d) = finish_tx e oc (cl_db s)
             in cl_restart (sl_co sl)
                  (s\<lparr>cl_sys := sys_close n (roll_back (cl_db s) d) (reply_of oc r) (cl_sys s)\<rparr>))
          else s
      | _ \<Rightarrow> s)"
| "cl_do (ALoseCommit n) s = s\<lparr>cl_sys := (cl_sys s)\<lparr>s_open := (s_open (cl_sys s))(n := None)\<rparr>\<rparr>"
| "cl_do (ADisconnect c a) s = cl_put c (ws_end a (cl_co s c)) s"
| "cl_do (AClaim c e a) s =
     (if has_capacity (co_conns (cl_co s c) a) then
        (let (r, co, d) = claim_one e a (cl_co s c) (cl_db s) in cl_put c co (cl_set_db d s))
      else s)"
| "cl_do (AReap c e lid j f) s =
     (if lease_known lid j f (cl_db s) then
        (let (r, co, d) = reap_one e lid j f (cl_co s c) (cl_db s) in cl_put c co (cl_set_db d s))
      else s)"
| "cl_do (ARestart c) s = cl_restart c s"

definition cl_run :: "act list \<Rightarrow> cluster \<Rightarrow> cluster" where
  "cl_run as s = fold cl_do as s"

lemma cl_run_simps [simp]: "cl_run [] s = s" "cl_run (a # as) s = cl_run as (cl_do a s)"
  "cl_run (as @ bs) s = cl_run bs (cl_run as s)"
  by (simp_all add: cl_run_def)

lemma cl_run_induct:
  assumes "P s" and "\<And>a s. P s \<Longrightarrow> P (cl_do a s)"
  shows "P (cl_run as s)"
  using assms(1) by (induction as arbitrary: s) (simp_all add: assms(2))

section \<open>The database's view\<close>

lemma cl_put_fields [simp]:
  "cl_sys (cl_put c co s) = cl_sys s" "cl_life (cl_put c co s) = cl_life s"
  "cl_slots (cl_put c co s) = cl_slots s" "cl_deaf (cl_put c co s) = cl_deaf s"
  "cl_co (cl_put c co s) = (cl_co s)(c := co)"
  by (simp_all add: cl_put_def)

lemma cl_set_db_fields [simp]:
  "cl_sys (cl_set_db d s) = (cl_sys s)\<lparr>s_db := d\<rparr>" "cl_life (cl_set_db d s) = cl_life s"
  "cl_slots (cl_set_db d s) = cl_slots s" "cl_deaf (cl_set_db d s) = cl_deaf s"
  "cl_co (cl_set_db d s) = cl_co s" "cl_wire (cl_set_db d s) = cl_wire s"
  by (simp_all add: cl_set_db_def)

lemma cl_restart_fields [simp]:
  "cl_sys (cl_restart c s) = cl_sys s" "cl_slots (cl_restart c s) = cl_slots s"
  "cl_wire (cl_restart c s) = cl_wire s"
  "cl_co (cl_restart c s) = (cl_co s)(c := boot (co_id (cl_co s c)) (co_ttl (cl_co s c)))"
  by (simp_all add: cl_restart_def)

lemma cl_hear_sys [simp]: "cl_sys (cl_hear c e msg s) = cl_sys s"
  by (cases msg) (simp add: cl_hear_def Let_def split: sum.split)

lemma sys_other_steps: "tx_step\<^sup>*\<^sup>* (s_db s) d \<Longrightarrow> sys_step\<^sup>*\<^sup>* s (s\<lparr>s_db := d\<rparr>)"
proof (induction rule: rtranclp_induct)
  case (step d d')
  have "sys_step (s\<lparr>s_db := d\<rparr>) (s\<lparr>s_db := d'\<rparr>)"
    using sys_step.other [of "s\<lparr>s_db := d\<rparr>" d'] step.hyps(2) by simp
  then show ?case using step.IH by (rule rtranclp.rtrancl_into_rtrancl [rotated])
qed simp

lemma sys_close_step:
  assumes "s_open s n = Some oc" and "finish_tx e oc (s_db s) = (r, d)"
  shows "sys_step s (sys_close n d (reply_of oc r) s)"
    and "sys_step s (sys_close n (roll_back (s_db s) d) (reply_of oc r) s)"
  using sys_step.end_commit [OF assms] sys_step.killed_after_reply [OF assms] by (simp_all add: sys_close_def)

lemma commit_close_db: "snd (snd (commit_close e a raw oc co d)) = snd (finish_tx e oc d)"
  by (simp add: commit_close_def split: prod.split sum.split)

lemma commit_open_begin:
  assumes "commit_open e a data co (s_db s) = Some oc" and "s_open s n = None"
  shows "sys_step s (s\<lparr>s_open := (s_open s)(n \<mapsto> oc)\<rparr>)"
proof -
  obtain j f w res where "oc = open_tx e (co_id co) j f w res (s_db s)"
    using assms(1) by (auto simp: commit_open_def Let_def split: option.splits if_splits sum.splits)
  then show ?thesis using sys_step.begin_commit [OF assms(2)] by simp
qed

lemma cl_put_set_db_step:
  "tx_step\<^sup>*\<^sup>* (cl_db s) (snd (snd p)) \<Longrightarrow>
     sys_step\<^sup>*\<^sup>* (cl_sys s) (cl_sys (case p of (r, co, d) \<Rightarrow> cl_put c co (cl_set_db d s)))"
  by (cases p) (simp add: sys_other_steps)

lemma cl_do_step: "sys_step\<^sup>*\<^sup>* (cl_sys s) (cl_sys (cl_do a s))"
proof (cases a)
  case (ASubmit c e body)
  then show ?thesis using create_job_steps by (simp add: cl_put_set_db_step)
next
  case (ACancel c e e2 j)
  have "tx_step\<^sup>*\<^sup>* (cl_db s) (snd (handle_cancel_job e e2 id j (cl_co s c) (cl_db s)))"
    by (rule cancel_job_steps) simp
  then show ?thesis using ACancel by (simp add: sys_other_steps)
next
  case (ARegister c first)
  then show ?thesis by (simp split: option.split prod.split)
next
  case (AMessage c e a data)
  then show ?thesis using route_steps by (simp add: cl_put_set_db_step)
next
  case (AOpenCommit c e a data n)
  then show ?thesis by (auto split: option.split intro!: r_into_rtranclp commit_open_begin)
next
  case (ACloseCommit e n)
  then show ?thesis
    by (cases "s_open (cl_sys s) n"; cases "cl_slots s n")
      (auto simp: commit_close_def split: prod.split sum.split intro!: r_into_rtranclp sys_close_step(1))
next
  case (ADieInCommit e n)
  then show ?thesis
    by (cases "s_open (cl_sys s) n"; cases "cl_slots s n")
      (auto split: prod.split intro!: r_into_rtranclp sys_close_step(2))
next
  case (ALoseCommit n)
  show ?thesis
  proof (cases "s_open (cl_sys s) n")
    case None
    then have "(s_open (cl_sys s))(n := None) = s_open (cl_sys s)" by (simp add: fun_upd_idem)
    then show ?thesis using ALoseCommit by simp
  next
    case (Some oc)
    then show ?thesis using ALoseCommit sys_step.killed_before_writes by (simp add: r_into_rtranclp)
  qed
next
  case (AClaim c e a)
  then show ?thesis using claim_one_steps by (simp add: cl_put_set_db_step)
next
  case (AReap c e lid j f)
  then show ?thesis using reap_one_steps by (simp add: cl_put_set_db_step)
qed simp_all

lemma cl_run_steps: "sys_step\<^sup>*\<^sup>* (cl_sys s) (cl_sys (cl_run as s))"
proof (induction as arbitrary: s)
  case (Cons a as)
  have "sys_step\<^sup>*\<^sup>* (cl_sys (cl_do a s)) (cl_sys (cl_run as (cl_do a s)))" by (rule Cons.IH)
  from rtranclp_trans [OF cl_do_step this] show ?case by simp
qed simp

lemma cl_run_reach: "sys_step\<^sup>*\<^sup>* sys_start (cl_sys (cl_run as (cl_start ids ttl)))"
  using cl_run_steps [of "cl_start ids ttl" as] by (simp add: cl_start_def)

section \<open>Rounds are runs\<close>

text \<open>A dispatch round is a list of claims, a reap round a list of reaps.\<close>

definition becomes :: "nat \<Rightarrow> cluster \<Rightarrow> coord \<Rightarrow> db \<Rightarrow> bool" where
  "becomes c s co d \<longleftrightarrow> (\<exists>as. cl_co (cl_run as s) c = co \<and> cl_db (cl_run as s) = d)"

lemma becomes_now: "becomes c s (cl_co s c) (cl_db s)"
  unfolding becomes_def by (rule exI [of _ "[]"]) simp

lemma becomes_run: "becomes c (cl_run as s) co d \<Longrightarrow> becomes c s co d"
  unfolding becomes_def by (metis cl_run_simps(3))

lemma becomes_do: "becomes c (cl_do a s) co d \<Longrightarrow> becomes c s co d"
  by (rule becomes_run [where as = "[a]"]) simp

lemma claim_loop_acts:
  "claim_loop fuel es k a (cl_co s c) (cl_db s) = Some (r, co, d) \<Longrightarrow> becomes c s co d"
proof (induction fuel arbitrary: k s)
  case (Suc fuel)
  show ?case
  proof (cases "has_capacity (co_conns (cl_co s c) a)")
    case True
    obtain r1 co1 d1 where o: "claim_one (es k) a (cl_co s c) (cl_db s) = (r1, co1, d1)" by (metis surj_pair)
    let ?t = "cl_do (AClaim c (es k) a) s"
    have t: "cl_co ?t c = co1" "cl_db ?t = d1" using True o by simp_all
    have "becomes c ?t co d"
    proof (cases "r1 = Inr True")
      case True
      then have "claim_loop fuel es (Suc k) a (cl_co ?t c) (cl_db ?t) = Some (r, co, d)"
        using Suc.prems o t \<open>has_capacity (co_conns (cl_co s c) a)\<close> by simp
      then show ?thesis by (rule Suc.IH)
    next
      case False
      then have "co = co1" "d = d1"
        using Suc.prems o \<open>has_capacity (co_conns (cl_co s c) a)\<close> by (auto split: sum.splits bool.splits)
      then show ?thesis using becomes_now [of c ?t] t by simp
    qed
    then show ?thesis by (rule becomes_do)
  next
    case False
    then show ?thesis using Suc.prems becomes_now [of c s] by simp
  qed
qed simp

lemma round_loop_acts:
  "round_loop es k as (cl_co s c) (cl_db s) = Some (r, co, d) \<Longrightarrow> becomes c s co d"
proof (induction as arbitrary: k s)
  case Nil
  then show ?case using becomes_now [of c s] by simp
next
  case (Cons a as)
  obtain r1 co1 d1 where l: "claim_loop (Suc (num_pending (cl_db s))) es k a (cl_co s c) (cl_db s) = Some (r1, co1, d1)"
    using Cons.prems by (auto split: option.splits simp del: claim_loop.simps)
  from claim_loop_acts [OF l] obtain acts where
      t: "cl_co (cl_run acts s) c = co1" "cl_db (cl_run acts s) = d1" by (auto simp: becomes_def)
  have "becomes c (cl_run acts s) co d"
  proof (cases r1)
    case (Inl x)
    then show ?thesis using Cons.prems l t becomes_now [of c "cl_run acts s"] by (simp del: claim_loop.simps)
  next
    case (Inr k')
    then show ?thesis using Cons.prems l t by (intro Cons.IH [of k']) (simp del: claim_loop.simps)
  qed
  then show ?case by (rule becomes_run)
qed

lemma dispatch_round_acts:
  "dispatch_round es (cl_co s c) (cl_db s) = Some (r, co, d) \<Longrightarrow> becomes c s co d"
  unfolding dispatch_round_def by (rule round_loop_acts)

lemma reap_rows_acts:
  "\<forall>l \<in> set ls. lease_known (l_id l) (l_job l) (l_fence l) (cl_db s) \<Longrightarrow>
     reap_rows es k ls (cl_co s c) (cl_db s) = (r, co, d) \<Longrightarrow> becomes c s co d"
proof (induction ls arbitrary: k s)
  case Nil
  then show ?case using becomes_now [of c s] by simp
next
  case (Cons l ls)
  obtain r1 co1 d1 where o: "reap_one (es k) (l_id l) (l_job l) (l_fence l) (cl_co s c) (cl_db s) = (r1, co1, d1)"
    by (metis surj_pair)
  let ?t = "cl_do (AReap c (es k) (l_id l) (l_job l) (l_fence l)) s"
  have t: "cl_co ?t c = co1" "cl_db ?t = d1" using Cons.prems(1) o by simp_all
  have "tx_step\<^sup>*\<^sup>* (cl_db s) d1"
    using reap_one_steps [of "l_id l" "l_job l" "l_fence l" "cl_db s" "es k" "cl_co s c"] Cons.prems(1) o by simp
  then have known: "\<forall>l \<in> set ls. lease_known (l_id l) (l_job l) (l_fence l) (cl_db ?t)"
    using Cons.prems(1) t by (auto intro: tx_steps_lease_known)
  have "becomes c ?t co d"
  proof (cases r1)
    case (Inl x)
    then have "co = co1" "d = d1" using Cons.prems(2) o by simp_all
    then show ?thesis using becomes_now [of c ?t] t by simp
  next
    case (Inr u)
    then have "reap_rows es (Suc k) ls (cl_co ?t c) (cl_db ?t) = (r, co, d)"
      using Cons.prems(2) o t by simp
    then show ?thesis by (rule Cons.IH [OF known])
  qed
  then show ?case by (rule becomes_do)
qed

lemma reap_round_acts: "reap_round es (cl_co s c) (cl_db s) = (r, co, d) \<Longrightarrow> becomes c s co d"
  using reap_scan_known becomes_now [of c s]
  by (auto simp: reap_round_def fetch_def split: option.splits sum.splits if_splits intro: reap_rows_acts)

section \<open>Property\<close>


end
