(* ===== verification/Durable.thy ===== *)
theory Durable
  imports HarnessSound Cluster
begin

text \<open>
  The promise of the submission endpoint over the whole system: a job whose submission was answered
  is never lost, whatever the coordinators, the workers and the faults do afterwards.
\<close>

lemma cl_run_key: "job_of_key k (cl_db s) = Some j \<Longrightarrow> job_of_key k (cl_db (cl_run as s)) = Some j"
proof -
  assume k: "job_of_key k (cl_db s) = Some j"
  from cl_run_steps [of s as] show ?thesis
    using k by (induction rule: rtranclp_induct) (auto intro: sys_step_key)
qed

lemma key_has_state: "job_of_key k d = Some j \<Longrightarrow> job_state j d \<noteq> None"
  by (auto simp: job_of_key_def job_state_def find_job_def find_None_iff find_Some_iff) (metis nth_mem)

lemma state_cases: "s = Pending \<or> s = Leased \<or> terminal s"
  by (cases s) (simp_all add: terminal_def)

text \<open>
  C2. No accepted job is lost. After a submission was answered 200 or 201 with a job id, in any state of
  any run of the cluster: the key still names that job, and the job is in the queue, or leased with a
  live lease that the reaper will find if its worker does not renew it, or finished, and finished
  with success exactly when one commit was accepted for it.
\<close>

theorem accepted_job_never_lost:
  assumes "s = cl_run as (cl_start ids ttl)"
    and "fst (handle_create_job e (Some (submit_body key pl)) (cl_co s c) (cl_db s)) = Inr (st, body)"
    and "st \<in> {200, 201}"
    and "t = cl_run bs (cl_do (ASubmit c e (Some (submit_body key pl))) s)"
  shows "\<exists>j. body = JObj [(''job_id'', JStr j)] \<and> job_of_key key (cl_db t) = Some j \<and>
    (job_state j (cl_db t) = Some Pending \<or>
     job_state j (cl_db t) = Some Leased \<and> (\<exists>l \<in> set (leases (cl_db t)). l_job l = j \<and> l_expired l = None) \<or>
     (\<exists>x. job_state j (cl_db t) = Some x \<and> terminal x)) \<and>
    length (filter (\<lambda>k. c_job k = j \<and> c_accepted k) (commits (cl_db t))) =
      (if job_state j (cl_db t) = Some Succeeded then 1 else 0)"
proof -
  let ?r = "handle_create_job e (Some (submit_body key pl)) (cl_co s c) (cl_db s)"
  let ?s = "cl_do (ASubmit c e (Some (submit_body key pl))) s"
  have "?r = (Inr (st, body), fst (snd ?r), snd (snd ?r))" using assms(2) by (simp add: prod_eq_iff)
  from create_job_reply [OF this] obtain j where j: "body = JObj [(''job_id'', JStr j)]"
      "job_of_key key (snd (snd ?r)) = Some j"
    using assms(3) by auto
  have "cl_db ?s = snd (snd ?r)" by (simp split: prod.split)
  then have key: "job_of_key key (cl_db t) = Some j" using j(2) cl_run_key assms(4) by simp
  have "t = cl_run (as @ ASubmit c e (Some (submit_body key pl)) # bs) (cl_start ids ttl)"
    by (simp only: cl_run_simps assms(1,4))
  then have inv: "core_inv (cl_db t)" using sys_reach_core [OF cl_run_reach] by (simp only:)
  obtain x where x: "job_state j (cl_db t) = Some x" using key_has_state [OF key] by blast
  have "\<exists>l \<in> set (leases (cl_db t)). l_job l = j \<and> l_expired l = None" if "x = Leased"
    using core_invD(6) [OF inv] x that by (simp add: live_ok_def)
  then have "x = Pending \<or> x = Leased \<and> (\<exists>l \<in> set (leases (cl_db t)). l_job l = j \<and> l_expired l = None) \<or> terminal x"
    using state_cases [of x] by blast
  moreover have "length (filter (\<lambda>k. c_job k = j \<and> c_accepted k) (commits (cl_db t))) =
      (if job_state j (cl_db t) = Some Succeeded then 1 else 0)"
    using accepted_rows [of "cl_db t" j] succeeded_iff_accepted [OF inv, of j] inv
    by (auto simp: core_inv_def)
  ultimately show ?thesis using j(1) key x by auto
qed

text \<open>A submission at one coordinator, a claim, and a crash of that coordinator.\<close>

theorem accepted_job_never_lost_witness:
  "\<exists>j. job_of_key ''k'' (cl_db (cl_run [ARegister 0 w1_hello, AClaim 0 (env_at 200 []) 0, ARestart 0]
      (cl_do (ASubmit 0 (env_at 100 ''j'') (Some (submit_body ''k'' (JObj [])))) (cl_start (\<lambda>_. ''c1'') (\<lambda>_. 1000))))) = Some j"
proof -
  let ?s = "cl_start (\<lambda>_. ''c1'') (\<lambda>_. 1000)" and ?b = "submit_body ''k'' (JObj [])"
  have "fst (handle_create_job (env_at 100 ''j'') (Some ?b) (cl_co (cl_run [] ?s) 0) (cl_db (cl_run [] ?s))) =
      Inr (201, JObj [(''job_id'', JStr ''j'')])" by code_simp
  from accepted_job_never_lost [OF refl this _ refl, of "[ARegister 0 w1_hello, AClaim 0 (env_at 200 []) 0, ARestart 0]"]
  show ?thesis by auto
qed

end
