(* ===== verification/ClusterSafety.thy ===== *)
theory ClusterSafety
  imports Cluster
begin

text \<open>
  What the coordinators publish never ends a subscription of a peer, or of their own: the two
  subscribers that apply messages have no handler for an exception, and the senders only publish
  what every receiver can apply.
\<close>

section \<open>What the coordinators publish\<close>

definition harmless :: "string \<times> json \<Rightarrow> bool" where
  "harmless msg = (case msg of (ch, m) \<Rightarrow>
     (ch = chaos_channel \<longrightarrow> (\<forall>mt co. \<exists>co'. chaos_deliver mt m co = Inr co')) \<and>
     (ch = concurrency_channel \<longrightarrow> (\<forall>e co. \<exists>co'. concurrency_deliver e m co = Inr co')))"

fun harmless_cmd :: "redis_cmd \<Rightarrow> bool" where
  "harmless_cmd (Publish ch m) = harmless (ch, m)"
| "harmless_cmd _ = True"

definition says_harmless :: "coord \<Rightarrow> coord \<Rightarrow> bool" where
  "says_harmless co co' \<longleftrightarrow> (\<exists>cs. co_redis co' = co_redis co @ cs \<and> list_all harmless_cmd cs)"

lemma says_same: "co_redis co' = co_redis co \<Longrightarrow> says_harmless co co'"
  by (simp add: says_harmless_def)

lemma says_publish: "says_harmless co co' \<Longrightarrow> harmless (ch, m) \<Longrightarrow> says_harmless co (publish ok ch m co')"
  by (auto simp: says_harmless_def publish_def)

lemma says_rates: "says_harmless co co' \<Longrightarrow> says_harmless co (rates_incr ok sec ev n co')"
  by (auto simp: says_harmless_def rates_incr_def mem_add_def Let_def)

lemma harmless_wakeup: "harmless (wakeup_channel, m)"
  by (simp add: harmless_def wakeup_channel_def chaos_channel_def concurrency_channel_def)

lemma harmless_concurrency: "harmless (concurrency_channel, concurrency_message wid v from)"
  by (auto simp: harmless_def chaos_channel_def concurrency_channel_def concurrency_deliver_def
      concurrency_message_def split: option.split)

text \<open>Whether a fault raises depends on its parameters only.\<close>

lemma fault_everywhere:
  assumes "apply_fault_local mt fault params co = Inr x"
  obtains b p' where "apply_fault_local mt' fault params p = Inr (b, p')"
  using assms by (auto simp: apply_fault_local_def split: if_splits sum.splits)

lemma harmless_fault:
  assumes "apply_fault_local mt fault params co = Inr x" and "is_dict params" and "fault \<in> set broadcast_faults"
  shows "harmless (chaos_channel, fault_message fault params from)"
proof -
  have "\<exists>co'. chaos_deliver mt' (fault_message fault params from) p = Inr co'" for mt' p
  proof (cases "from = co_id p")
    case True
    then show ?thesis using chaos_deliver_own by blast
  next
    case False
    obtain b p' where "apply_fault_local mt' fault params p = Inr (b, p')"
      using assms(1) by (rule fault_everywhere)
    then show ?thesis using chaos_deliver_peer [OF False assms(2,3)] by simp
  qed
  then show ?thesis by (simp add: harmless_def chaos_channel_def concurrency_channel_def)
qed

lemma says_chaos: "says_harmless co (snd (handle_chaos e body co))"
proof -
  have "says_harmless co co1" if "apply_fault_local mt fault params co = Inr (b, co1)" for mt fault params b co1
    using that by (intro says_same) (auto simp: apply_fault_local_def partition_db_def split: if_splits sum.splits)
  then show ?thesis
    by (auto simp: handle_chaos_def Let_def says_same split: option.split sum.split prod.split
        intro!: says_publish harmless_fault)
qed

lemma says_chaos_deliver: "chaos_deliver mt m co = Inr co' \<Longrightarrow> says_harmless co co'"
  by (rule says_same) (auto simp: chaos_deliver_def apply_fault_local_def partition_db_def Let_def
      split: if_splits sum.splits option.splits)

lemma redis_set_concurrency: "co_redis (snd (apply_set_concurrency e wid v n co)) = co_redis co"
  by (simp add: apply_set_concurrency_def split: option.split)

lemma says_set_concurrency: "says_harmless co (snd (handle_set_concurrency e wid body co))"
  using redis_set_concurrency
  by (auto simp: handle_set_concurrency_def Let_def says_same split: option.split sum.split prod.split
      intro!: says_publish harmless_concurrency) (metis says_same snd_conv)

lemma says_concurrency_deliver: "concurrency_deliver e m co = Inr co' \<Longrightarrow> says_harmless co co'"
  by (rule says_same) (auto simp: concurrency_deliver_def redis_set_concurrency
      split: if_splits sum.splits option.splits)

lemma says_create_job: "says_harmless co (fst (snd (handle_create_job e body co d)))"
  by (auto simp: handle_create_job_def Let_def says_same split: option.split sum.split prod.split exn.split
      intro!: says_publish says_rates harmless_wakeup)

lemma says_commit_effects: "says_harmless co (commit_effects e a raw out co)"
proof -
  have "co_redis (finish e a raw b co') = co_redis co'" for b co'
    by (simp add: finish_def Let_def)
  then have f: "says_harmless co (finish e a raw b co')" if "says_harmless co co'" for b co'
    using that by (simp add: says_harmless_def)
  show ?thesis
    unfolding commit_effects_def by (rule f) (auto simp: says_same split: commit_outcome.split intro!: says_rates)
qed

lemma says_commit_close: "says_harmless co (fst (snd (commit_close e a raw oc co d)))"
  by (auto simp: commit_close_def says_same says_commit_effects split: prod.split sum.split)

lemma says_claim_one: "says_harmless co (fst (snd (claim_one e a co d)))"
  by (rule says_same) (simp add: claim_one_def Let_def split: prod.split sum.split option.split)

lemma says_reap_one: "says_harmless co (fst (snd (reap_one e lid j f co d)))"
  by (auto simp: reap_one_def Let_def says_same split: prod.split sum.split reap_outcome.split
      intro!: says_publish harmless_wakeup)

lemma redis_register: "ws_register first co = Some (a, co') \<Longrightarrow> co_redis co' = co_redis co"
  by (auto simp: ws_register_def Let_def reg_add_def split: option.splits)

lemma route_other_coord: "dget data ''type'' \<noteq> JStr ''commit'' \<Longrightarrow> fst (snd (route e a data co d)) = co"
  by (auto simp: route_def split: sum.split prod.split exn.split)

section \<open>The subscriptions survive\<close>

definition wire_ok :: "cluster \<Rightarrow> bool" where
  "wire_ok s \<longleftrightarrow> list_all harmless (cl_wire s) \<and> cl_deaf s = []"

lemma published_harmless: "list_all harmless_cmd cs \<Longrightarrow> list_all harmless (published cs)"
  by (induction cs rule: published.induct) auto

lemma wire_ok_put: "wire_ok s \<Longrightarrow> says_harmless (cl_co s c) co \<Longrightarrow> wire_ok (cl_put c co s)"
  by (auto simp: wire_ok_def cl_put_def says_harmless_def published_harmless)

lemma wire_ok_same: "wire_ok s \<Longrightarrow> cl_wire s' = cl_wire s \<Longrightarrow> cl_deaf s' = cl_deaf s \<Longrightarrow> wire_ok s'"
  by (simp add: wire_ok_def)

lemma wire_ok_set_db [simp]: "wire_ok (cl_set_db d s) = wire_ok s"
  by (simp add: wire_ok_def)

lemma wire_ok_sys [simp]: "wire_ok (s\<lparr>cl_sys := x\<rparr>) = wire_ok s" "wire_ok (s\<lparr>cl_slots := y\<rparr>) = wire_ok s"
  by (simp_all add: wire_ok_def)

lemma wire_ok_restart: "wire_ok s \<Longrightarrow> wire_ok (cl_restart c s)"
  by (simp add: wire_ok_def cl_restart_def)

lemma wire_ok_put_db:
  "wire_ok s \<Longrightarrow> says_harmless (cl_co s c) (fst (snd p)) \<Longrightarrow>
     wire_ok (case p of (r, co, d) \<Rightarrow> cl_put c co (cl_set_db d s))"
  by (cases p) (simp add: wire_ok_put)

lemma wire_ok_hear:
  assumes "wire_ok s" and "msg \<in> set (cl_wire s)"
  shows "wire_ok (cl_hear c e msg s)"
proof -
  obtain ch m where msg: "msg = (ch, m)" by (cases msg)
  let ?co = "cl_co s c"
  have h: "harmless (ch, m)" using assms msg by (auto simp: wire_ok_def list_all_iff)
  have deliver: "\<exists>co'. (if ch = chaos_channel then chaos_deliver (e_mono e) m ?co
      else if ch = concurrency_channel then concurrency_deliver e m ?co else Inr ?co) = Inr co' \<and>
      says_harmless ?co co'"
    using h says_chaos_deliver says_concurrency_deliver says_same by (auto simp: harmless_def) metis+
  show ?thesis
  proof (cases "ch = wakeup_channel")
    case True
    then show ?thesis using assms(1) msg by (auto simp: cl_hear_def Let_def intro!: wire_ok_put says_same)
  next
    case False
    then show ?thesis using assms(1) msg deliver by (auto simp: cl_hear_def Let_def intro!: wire_ok_put)
  qed
qed

lemma cl_do_wire: "wire_ok s \<Longrightarrow> wire_ok (cl_do a s)"
proof (cases a)
  case (ASubmit c e body)
  assume "wire_ok s" then show ?thesis using ASubmit by (simp add: wire_ok_put_db says_create_job)
next
  case (AFault c e body)
  assume "wire_ok s" then show ?thesis using AFault by (simp add: wire_ok_put says_chaos)
next
  case (ASetConcurrency c e wid body)
  assume "wire_ok s" then show ?thesis using ASetConcurrency by (simp add: wire_ok_put says_set_concurrency)
next
  case (AHear c e k)
  assume "wire_ok s" then show ?thesis using AHear by (simp add: wire_ok_hear)
next
  case (ARegister c first)
  assume "wire_ok s" then show ?thesis using ARegister
    by (auto split: option.split intro!: wire_ok_put says_same dest: redis_register)
next
  case (AMessage c e a data)
  assume "wire_ok s" then show ?thesis using AMessage
    by (simp add: wire_ok_put_db route_other_coord says_same)
next
  case (AOpenCommit c e a data n)
  assume "wire_ok s" then show ?thesis using AOpenCommit by (auto split: option.split)
next
  case (ACloseCommit e n)
  assume "wire_ok s" then show ?thesis using ACloseCommit
    by (cases "s_open (cl_sys s) n"; cases "cl_slots s n")
      (auto split: prod.split intro!: wire_ok_put, metis fst_conv says_commit_close snd_conv)
next
  case (ADieInCommit e n)
  assume "wire_ok s" then show ?thesis using ADieInCommit
    by (cases "s_open (cl_sys s) n"; cases "cl_slots s n")
      (auto split: prod.split intro!: wire_ok_restart)
next
  case (ADisconnect c a)
  assume "wire_ok s" then show ?thesis using ADisconnect
    by (auto simp: ws_end_def reg_remove_def intro!: wire_ok_put says_same)
next
  case (AClaim c e a)
  assume "wire_ok s" then show ?thesis using AClaim by (simp add: wire_ok_put_db says_claim_one)
next
  case (AReap c e lid j f)
  assume "wire_ok s" then show ?thesis using AReap by (simp add: wire_ok_put_db says_reap_one)
next
  case (ARestart c)
  assume "wire_ok s" then show ?thesis using ARestart by (simp add: wire_ok_restart)
qed simp_all

lemma cl_run_wire: "wire_ok (cl_run as (cl_start ids ttl))"
  by (rule cl_run_induct) (simp_all add: cl_do_wire, simp add: wire_ok_def cl_start_def)

section \<open>Property\<close>

text \<open>
  C25. No published message ever ends a subscriber. An exception in the subscriber of the faults or of
  the concurrency changes would stop it for the life of its process; whatever requests the
  coordinators get, well-formed or not, and in whatever order and however late their messages are
  delivered, none of the messages raises.
\<close>

theorem subscribers_survive: "cl_deaf (cl_run as (cl_start ids ttl)) = []"
  using cl_run_wire by (simp add: wire_ok_def)

end
