(* ===== verification/Pushes.thy ===== *)
theory Pushes
  imports ClusterSafety
begin

text \<open>
  What the coordinators push to the workers agrees with the leases: every dispatch frame and every
  job a coordinator counts as in flight is backed by a lease of that connection's worker, and no
  fence is pushed twice, on whichever coordinators and connections.
\<close>

section \<open>Dispatches and leases\<close>

definition dispatches :: "conn \<Rightarrow> (string \<times> int) list" where
  "dispatches s = concat (map (\<lambda>fr. case fr of FDispatch j p f \<Rightarrow> [(j, f)] | _ \<Rightarrow> []) (w_sent s))"

definition issued :: "db \<Rightarrow> string \<Rightarrow> uuid \<Rightarrow> int \<Rightarrow> bool" where
  "issued d w j f \<longleftrightarrow> (\<exists>l \<in> set (leases d). l_worker l = w \<and> l_job l = j \<and> l_fence l = f)"

definition conn_backed :: "db \<Rightarrow> conn \<Rightarrow> bool" where
  "conn_backed d s \<longleftrightarrow> (\<forall>(j, f) \<in> set (dispatches s). issued d (w_id s) j f) \<and>
     (\<forall>j \<in> set (w_inflight s). \<exists>f. issued d (w_id s) j f) \<and> distinct (map snd (dispatches s))"

definition fences_apart :: "conn \<Rightarrow> conn \<Rightarrow> bool" where
  "fences_apart s s' \<longleftrightarrow> snd ` set (dispatches s) \<inter> snd ` set (dispatches s') = {}"

definition pushes_ok :: "db \<Rightarrow> (nat \<Rightarrow> coord) \<Rightarrow> bool" where
  "pushes_ok d cs \<longleftrightarrow> (\<forall>c a. conn_backed d (co_conns (cs c) a)) \<and>
     (\<forall>c a c' a'. (c, a) \<noteq> (c', a') \<longrightarrow> fences_apart (co_conns (cs c) a) (co_conns (cs c') a'))"

text \<open>A handler that pushes no job: a connection it touches is new, or keeps its dispatches.\<close>

definition conn_calm :: "conn \<Rightarrow> conn \<Rightarrow> bool" where
  "conn_calm s s' \<longleftrightarrow> dispatches s' = [] \<and> w_inflight s' = [] \<or>
     dispatches s' = dispatches s \<and> w_id s' = w_id s \<and> set (w_inflight s') \<subseteq> set (w_inflight s)"

definition calm :: "coord \<Rightarrow> coord \<Rightarrow> bool" where
  "calm co co' \<longleftrightarrow> (\<forall>a. conn_calm (co_conns co a) (co_conns co' a))"

lemma issued_kept: "history_kept d d' \<Longrightarrow> issued d w j f \<Longrightarrow> issued d' w j f"
  by (auto simp: issued_def lease_core_def dest!: lease_stays)

lemma issued_below: "core_inv d \<Longrightarrow> issued d w j f \<Longrightarrow> f \<le> fence_seq d"
  by (auto simp: issued_def core_inv_def fences_ok_def)

lemma conn_backed_kept: "conn_backed d s \<Longrightarrow> history_kept d d' \<Longrightarrow> conn_backed d' s"
  by (auto simp: conn_backed_def intro: issued_kept) (meson issued_kept)

lemma conn_backed_calm: "conn_backed d s \<Longrightarrow> conn_calm s s' \<Longrightarrow> conn_backed d s'"
  by (auto simp: conn_backed_def conn_calm_def)

lemma conn_calm_refl [simp]: "conn_calm s s"
  by (simp add: conn_calm_def)

lemma calm_same: "co_conns co' = co_conns co \<Longrightarrow> calm co co'"
  by (simp add: calm_def)

lemma conn_calm_trans: "conn_calm r s \<Longrightarrow> conn_calm s t \<Longrightarrow> conn_calm r t"
  by (auto simp: conn_calm_def)

lemma calm_trans: "calm a b \<Longrightarrow> calm b c \<Longrightarrow> calm a c"
  unfolding calm_def by (blast intro: conn_calm_trans)

lemma calm_upd: "(\<And>s. conn_calm s (f s)) \<Longrightarrow> calm co (upd_conn a f co)"
  by (simp add: calm_def)

lemma pushes_calm:
  assumes "pushes_ok d cs" and "history_kept d d'" and "calm (cs c) co"
  shows "pushes_ok d' (cs(c := co))"
proof -
  let ?cs = "cs(c := co)"
  have calm: "conn_calm (co_conns (cs c') a) (co_conns (?cs c') a)" for c' a
    using assms(3) by (simp add: calm_def)
  have sub: "snd ` set (dispatches (co_conns (?cs c') a)) \<subseteq> snd ` set (dispatches (co_conns (cs c') a))" for c' a
    using calm [of c' a] by (auto simp: conn_calm_def)
  have "conn_backed d (co_conns (cs c') a)" for c' a using assms(1) by (simp add: pushes_ok_def)
  from conn_backed_calm [OF conn_backed_kept [OF this assms(2)] calm]
  have "conn_backed d' (co_conns (?cs c') a)" for c' a .
  moreover have "fences_apart (co_conns (?cs c1) a1) (co_conns (?cs c2) a2)" if "(c1, a1) \<noteq> (c2, a2)" for c1 a1 c2 a2
  proof -
    have "fences_apart (co_conns (cs c1) a1) (co_conns (cs c2) a2)"
      using assms(1) that by (simp add: pushes_ok_def)
    then show ?thesis using sub [of c1 a1] sub [of c2 a2] unfolding fences_apart_def by blast
  qed
  ultimately show ?thesis unfolding pushes_ok_def by blast
qed

lemma pushes_push:
  assumes "pushes_ok d cs" and "core_inv d" and "history_kept d d'"
    and new: "issued d' (w_id (co_conns (cs c) a)) j f" "fence_seq d < f"
    and s: "dispatches s = dispatches (co_conns (cs c) a) @ [(j, f)]" "w_id s = w_id (co_conns (cs c) a)"
      "set (w_inflight s) \<subseteq> insert j (set (w_inflight (co_conns (cs c) a)))"
    and co: "co_conns co = (co_conns (cs c))(a := s)"
  shows "pushes_ok d' (cs(c := co))"
proof -
  let ?cs = "cs(c := co)"
  have backed: "conn_backed d (co_conns (cs c') a')" for c' a' using assms(1) by (simp add: pushes_ok_def)
  have fresh: "f \<notin> snd ` set (dispatches (co_conns (cs c') a'))" for c' a'
    using backed [of c' a'] issued_below [OF assms(2)] new(2) by (force simp: conn_backed_def)
  have "conn_backed d' s"
    using conn_backed_kept [OF backed [of c a] assms(3)] new(1) s fresh [of c a]
    by (auto simp: conn_backed_def)
  then have "conn_backed d' (co_conns (?cs c') a')" for c' a'
    using conn_backed_kept [OF backed assms(3)] by (simp add: co)
  moreover have "fences_apart (co_conns (?cs c1) a1) (co_conns (?cs c2) a2)" if "(c1, a1) \<noteq> (c2, a2)" for c1 a1 c2 a2
  proof -
    have ap: "fences_apart (co_conns (cs c1) a1) (co_conns (cs c2) a2)"
      using assms(1) that by (simp add: pushes_ok_def)
    have disp: "snd ` set (dispatches (co_conns (?cs c') a')) =
        (if (c', a') = (c, a) then insert f (snd ` set (dispatches (co_conns (cs c') a')))
         else snd ` set (dispatches (co_conns (cs c') a')))" for c' a'
      by (auto simp: co s)
    show ?thesis using ap that fresh [of c1 a1] fresh [of c2 a2] unfolding fences_apart_def disp by auto
  qed
  ultimately show ?thesis unfolding pushes_ok_def by blast
qed

section \<open>The handlers that push nothing\<close>

lemma dispatches_send [simp]:
  "dispatches (s\<lparr>w_sent := w_sent s @ [fr]\<rparr>) =
     dispatches s @ (case fr of FDispatch j p f \<Rightarrow> [(j, f)] | _ \<Rightarrow> [])"
  by (simp add: dispatches_def)

lemma dispatches_frames [simp]:
  "dispatches (s\<lparr>w_inflight := js\<rparr>) = dispatches s" "dispatches (s\<lparr>w_limit := n\<rparr>) = dispatches s"
  by (simp_all add: dispatches_def)

lemma calm_send:
  assumes "\<And>j p f. fr \<noteq> FDispatch j p f"
  shows "calm co (ws_send ok a fr co)"
  using assms by (auto simp: ws_send_def calm_same conn_calm_def split: frame.split intro!: calm_upd)

lemma calm_create_job: "calm co (fst (snd (handle_create_job e body co d)))"
  by (rule calm_same) (simp add: handle_create_job_def Let_def split: option.split sum.split prod.split exn.split)

lemma calm_chaos: "calm co (snd (handle_chaos e body co))"
  by (rule calm_same)
    (auto simp: handle_chaos_def Let_def split: option.split sum.split prod.split dest: fault_frame(2))

lemma calm_chaos_deliver: "chaos_deliver mt m co = Inr co' \<Longrightarrow> calm co co'"
  by (rule calm_same) (auto simp: chaos_deliver_def Let_def split: sum.splits option.splits if_splits
      dest: fault_frame(2))

lemma calm_apply_set_concurrency: "calm co (snd (apply_set_concurrency e wid v n co))"
proof -
  have "calm co (ws_send ok a (FSetConcurrency v) (upd_conn a (\<lambda>s. s\<lparr>w_limit := n\<rparr>) co))" for ok a
    by (rule calm_trans [OF calm_upd calm_send]) (simp_all add: conn_calm_def)
  then show ?thesis by (simp add: apply_set_concurrency_def calm_same split: option.split)
qed

lemma calm_set_concurrency: "calm co (snd (handle_set_concurrency e wid body co))"
proof -
  have a: "calm co co'" if "apply_set_concurrency e wid v n co = (b, co')" for v n b co'
    using calm_apply_set_concurrency [of co e wid v n] that by simp
  have "calm co (publish ok ch m co')" if "apply_set_concurrency e wid v n co = (b, co')" for v n b co' ok ch m
    by (rule calm_trans [OF a [OF that] calm_same]) simp
  then show ?thesis
    by (auto simp: handle_set_concurrency_def Let_def calm_same split: option.split sum.split prod.split)
qed

lemma calm_concurrency_deliver: "concurrency_deliver e m co = Inr co' \<Longrightarrow> calm co co'"
  by (auto simp: concurrency_deliver_def calm_same split: if_splits sum.splits option.splits
      intro: calm_apply_set_concurrency)

lemma calm_new: "calm co (co\<lparr>co_conns := (co_conns co)(a := new_conn wid n), co_next := k, co_reg := r\<rparr>)"
  by (simp add: calm_def conn_calm_def new_conn_def dispatches_def)

lemma calm_register: "ws_register first co = Some (a, co') \<Longrightarrow> calm co co'"
  by (auto simp: ws_register_def Let_def reg_add_def calm_new split: option.splits)

lemma calm_finish: "calm co (finish e a raw b co)"
proof -
  let ?co = "upd_conn a (inflight_discard raw) co"
  have u: "calm co ?co" by (rule calm_upd) (auto simp: conn_calm_def inflight_discard_def)
  have "calm ?co (?co\<lparr>co_drop_acks := n\<rparr>)" for n by (rule calm_same) simp
  moreover have "calm ?co (ws_send ok a (if b then FAck raw else FRejected raw) ?co)" for ok
    by (rule calm_send) simp
  ultimately show ?thesis using calm_trans [OF u] by (simp add: finish_def Let_def)
qed

lemma calm_commit_effects: "calm co (commit_effects e a raw out co)"
  unfolding commit_effects_def
  by (rule calm_trans [OF _ calm_finish]) (auto simp: calm_same split: commit_outcome.split)

lemma calm_commit_close: "calm co (fst (snd (commit_close e a raw oc co d)))"
  by (auto simp: commit_close_def calm_same calm_commit_effects split: prod.split sum.split)

lemma calm_reap_one: "calm co (fst (snd (reap_one e lid j f co d)))"
  by (rule calm_same) (auto simp: reap_one_def Let_def split: prod.split sum.split reap_outcome.split)

lemma calm_end: "calm co (ws_end a co)"
  by (rule calm_same) (simp add: ws_end_def reg_remove_def)

lemma calm_boot: "calm co (boot cid ttl)"
  by (simp add: calm_def conn_calm_def boot_def new_conn_def dispatches_def)

section \<open>Every action keeps the pushes backed\<close>

definition pushed_inv :: "cluster \<Rightarrow> bool" where
  "pushed_inv s \<longleftrightarrow> sys_inv (cl_sys s) \<and> pushes_ok (cl_db s) (cl_co s)"

lemma pushed_inv_do:
  assumes "pushed_inv s" and "pushes_ok (cl_db (cl_do a s)) (cl_co (cl_do a s))"
  shows "pushed_inv (cl_do a s)"
  using assms sysm.ok_steps [OF cl_do_step] by (simp add: pushed_inv_def)

lemma pushed_kept: "pushed_inv s \<Longrightarrow> history_kept (cl_db s) (cl_db (cl_do a s))"
  using sys_steps_kept [OF cl_do_step] by (simp add: pushed_inv_def)

lemma pushed_calm:
  assumes "pushed_inv s" and "cl_co (cl_do a s) = (cl_co s)(c := co)" and "calm (cl_co s c) co"
  shows "pushed_inv (cl_do a s)"
proof (rule pushed_inv_do [OF assms(1)])
  have "pushes_ok (cl_db s) (cl_co s)" using assms(1) by (simp add: pushed_inv_def)
  from pushes_calm [OF this pushed_kept [OF assms(1)] assms(3)]
  show "pushes_ok (cl_db (cl_do a s)) (cl_co (cl_do a s))" by (simp add: assms(2))
qed

lemma pushed_idle: "pushed_inv s \<Longrightarrow> cl_co (cl_do a s) = cl_co s \<Longrightarrow> pushed_inv (cl_do a s)"
  by (rule pushed_calm [where c = 0 and co = "cl_co s 0"]) (simp_all add: calm_same)

lemma cl_co_put_db: "cl_co (case p of (r, co, d) \<Rightarrow> cl_put c co (cl_set_db d s)) = (cl_co s)(c := fst (snd p))"
  by (simp split: prod.split)

lemma pushed_hear: "\<exists>co. cl_co (cl_hear c e msg s) = (cl_co s)(c := co) \<and> calm (cl_co s c) co"
proof -
  have idle: "\<exists>co. cl_co s = (cl_co s)(c := co) \<and> calm (cl_co s c) co"
    by (rule exI [of _ "cl_co s c"]) (simp add: calm_same)
  show ?thesis
    using idle by (cases msg) (auto simp: cl_hear_def Let_def calm_same calm_chaos_deliver
        calm_concurrency_deliver split: sum.split)
qed

lemma pushed_claim:
  assumes "pushed_inv s"
  shows "pushed_inv (cl_do (AClaim c e a) s)"
proof (cases "has_capacity (co_conns (cl_co s c) a)")
  case True
  let ?co = "cl_co s c" and ?d = "cl_db s"
  show ?thesis
  proof (cases rule: claim_one_cases [of e ?co a ?d])
    case (lost r)
    have "calm ?co (upd_conn a (inflight_discard (j_id r)) (upd_conn a (inflight_add (j_id r)) ?co))"
      by (auto simp: calm_def conn_calm_def inflight_discard_def inflight_add_def)
    then show ?thesis using assms lost(4) True by (intro pushed_calm) simp_all
  next
    case (pushed r)
    let ?co' = "ws_send True a (FDispatch (j_id r) (JStr (e_text e (j_payload r))) (fence_seq ?d + 1))
        (upd_conn a (inflight_add (j_id r)) ?co)"
      and ?d' = "leased_db e (co_ttl ?co) (co_id ?co) (j_id r) (w_id (co_conns ?co a)) ?d"
    have eff: "cl_db (cl_do (AClaim c e a) s) = ?d'" "cl_co (cl_do (AClaim c e a) s) = (cl_co s)(c := ?co')"
      using pushed(4) True by simp_all
    have inv: "pushes_ok ?d (cl_co s)" "core_inv ?d" using assms by (simp_all add: pushed_inv_def sys_inv_def)
    have kept: "history_kept ?d ?d'" using pushed_kept [OF assms, of "AClaim c e a"] eff(1) by simp
    have issued: "issued ?d' (w_id (co_conns ?co a)) (j_id r) (fence_seq ?d + 1)"
      by (simp add: issued_def leased_db_fields)
    show ?thesis
      by (rule pushed_inv_do [OF assms], unfold eff, rule pushes_push [OF inv kept issued, where
            s = "inflight_add (j_id r) (co_conns ?co a)
              \<lparr>w_sent := w_sent (co_conns ?co a) @ [FDispatch (j_id r) (JStr (e_text e (j_payload r))) (fence_seq ?d + 1)]\<rparr>"])
        (simp_all add: inflight_add_def ws_send_def dispatches_def)
  qed (rule pushed_idle [OF assms], simp add: True)+
qed (use assms in \<open>auto intro!: pushed_idle\<close>)

text \<open>An open handler whose process lives.\<close>

definition alive :: "nat \<Rightarrow> cluster \<Rightarrow> (open_commit \<times> slot) option" where
  "alive n s = (case (s_open (cl_sys s) n, cl_slots s n) of
     (Some oc, Some sl) \<Rightarrow> if sl_life sl = cl_life s (sl_co sl) then Some (oc, sl) else None | _ \<Rightarrow> None)"

lemma pushed_close:
  assumes "pushed_inv s"
  shows "pushed_inv (cl_do (ACloseCommit e n) s)"
proof (cases "alive n s")
  case None
  then show ?thesis by (intro pushed_idle [OF assms]) (auto simp: alive_def split: option.splits if_splits)
next
  case (Some p)
  then obtain oc sl where o: "s_open (cl_sys s) n = Some oc" "cl_slots s n = Some sl"
      "sl_life sl = cl_life s (sl_co sl)" by (auto simp: alive_def split: option.splits if_splits)
  obtain r co d where c: "commit_close e (sl_conn sl) (sl_raw sl) oc (cl_co s (sl_co sl)) (cl_db s) = (r, co, d)"
    by (metis surj_pair)
  then have "calm (cl_co s (sl_co sl)) co"
    using calm_commit_close [of "cl_co s (sl_co sl)" e "sl_conn sl" "sl_raw sl" oc "cl_db s"] by simp
  then show ?thesis using o c by (intro pushed_calm [OF assms, where c = "sl_co sl" and co = co]) simp_all
qed

lemma pushed_die:
  assumes "pushed_inv s"
  shows "pushed_inv (cl_do (ADieInCommit e n) s)"
proof (cases "alive n s")
  case None
  then show ?thesis by (intro pushed_idle [OF assms]) (auto simp: alive_def split: option.splits if_splits)
next
  case (Some p)
  then obtain oc sl where "s_open (cl_sys s) n = Some oc" "cl_slots s n = Some sl"
      "sl_life sl = cl_life s (sl_co sl)" by (auto simp: alive_def split: option.splits if_splits)
  then show ?thesis by (intro pushed_calm [OF assms _ calm_boot]) (simp split: prod.split)
qed

lemma pushed_register:
  assumes "pushed_inv s"
  shows "pushed_inv (cl_do (ARegister c first) s)"
proof (cases "ws_register first (cl_co s c)")
  case (Some p)
  obtain b co where "ws_register first (cl_co s c) = Some (b, co)" using Some by (cases p) auto
  then show ?thesis by (intro pushed_calm [OF assms _ calm_register]) simp_all
qed (simp add: assms)

lemma pushed_reap:
  assumes "pushed_inv s"
  shows "pushed_inv (cl_do (AReap c e lid j f) s)"
proof (cases "lease_known lid j f (cl_db s)")
  case True
  show ?thesis by (rule pushed_calm [OF assms _ calm_reap_one]) (simp add: True cl_co_put_db)
qed (simp add: assms)

lemma cl_do_pushed:
  assumes "pushed_inv s"
  shows "pushed_inv (cl_do a s)"
proof (cases a)
  case (ASubmit c e body)
  show ?thesis unfolding ASubmit
    by (rule pushed_calm [OF assms _ calm_create_job]) (simp add: cl_co_put_db)
next
  case (AFault c e body)
  show ?thesis unfolding AFault by (rule pushed_calm [OF assms _ calm_chaos]) simp
next
  case (ASetConcurrency c e wid body)
  show ?thesis unfolding ASetConcurrency by (rule pushed_calm [OF assms _ calm_set_concurrency]) simp
next
  case (AHear c e k)
  show ?thesis
  proof (cases "k < length (cl_wire s)")
    case True
    obtain co where "cl_co (cl_hear c e (cl_wire s ! k) s) = (cl_co s)(c := co)" "calm (cl_co s c) co"
      using pushed_hear by blast
    then show ?thesis unfolding AHear using True by (intro pushed_calm [OF assms]) simp_all
  qed (simp add: AHear assms)
next
  case (ARegister c first)
  show ?thesis unfolding ARegister using assms by (rule pushed_register)
next
  case (AMessage c e a data)
  show ?thesis unfolding AMessage by (rule pushed_idle [OF assms]) (simp add: cl_co_put_db route_other_coord)
next
  case (AOpenCommit c e a data n)
  show ?thesis unfolding AOpenCommit by (rule pushed_idle [OF assms]) (simp split: option.split)
next
  case (ACloseCommit e n)
  show ?thesis unfolding ACloseCommit using assms by (rule pushed_close)
next
  case (ADieInCommit e n)
  show ?thesis unfolding ADieInCommit using assms by (rule pushed_die)
next
  case (ADisconnect c a)
  show ?thesis unfolding ADisconnect by (rule pushed_calm [OF assms _ calm_end]) simp
next
  case (AClaim c e a)
  show ?thesis unfolding AClaim using assms by (rule pushed_claim)
next
  case (AReap c e lid j f)
  show ?thesis unfolding AReap using assms by (rule pushed_reap)
next
  case (ARestart c)
  show ?thesis unfolding ARestart by (rule pushed_calm [OF assms _ calm_boot]) simp
qed (hypsubst, rule pushed_idle [OF assms], simp)+

lemma cl_run_pushed: "pushed_inv (cl_run as (cl_start ids ttl))"
proof (rule cl_run_induct)
  show "pushed_inv (cl_start ids ttl)"
    using sysm.ok_start by (simp add: pushed_inv_def cl_start_def pushes_ok_def conn_backed_def fences_apart_def
        dispatches_def boot_def new_conn_def)
qed (rule cl_do_pushed)

section \<open>Property\<close>

text \<open>
  C10. A job is handed out once per lease. In every run of the cluster: a dispatch frame that a
  coordinator has sent carries the job and the fence of a lease issued to the worker of that
  connection; a job counted as in flight on a connection is leased, or was, to its worker; and no
  two dispatch frames, on whichever coordinators and connections, carry the same fence.
\<close>

theorem dispatches_leased_once:
  assumes "s = cl_run as (cl_start ids ttl)"
  shows "(\<forall>c a j f. (j, f) \<in> set (dispatches (co_conns (cl_co s c) a)) \<longrightarrow>
      issued (cl_db s) (w_id (co_conns (cl_co s c) a)) j f) \<and>
    (\<forall>c a j. j \<in> set (w_inflight (co_conns (cl_co s c) a)) \<longrightarrow>
      (\<exists>f. issued (cl_db s) (w_id (co_conns (cl_co s c) a)) j f)) \<and>
    (\<forall>c a. distinct (map snd (dispatches (co_conns (cl_co s c) a)))) \<and>
    (\<forall>c a c' a' j j' f. (j, f) \<in> set (dispatches (co_conns (cl_co s c) a)) \<longrightarrow>
      (j', f) \<in> set (dispatches (co_conns (cl_co s c') a')) \<longrightarrow> c = c' \<and> a = a')"
proof -
  have ok: "pushes_ok (cl_db s) (cl_co s)" using cl_run_pushed by (simp add: assms pushed_inv_def)
  have apart: "c = c' \<and> a = a'" if "(j, f) \<in> set (dispatches (co_conns (cl_co s c) a))"
      "(j', f) \<in> set (dispatches (co_conns (cl_co s c') a'))" for c a c' a' j j' f
  proof (rule ccontr)
    assume "\<not> (c = c' \<and> a = a')"
    then have "fences_apart (co_conns (cl_co s c) a) (co_conns (cl_co s c') a')"
      using ok by (auto simp: pushes_ok_def)
    then show False using that by (force simp: fences_apart_def)
  qed
  have b: "conn_backed (cl_db s) (co_conns (cl_co s c) a)" for c a using ok by (simp add: pushes_ok_def)
  have "issued (cl_db s) (w_id (co_conns (cl_co s c) a)) j f"
    if "(j, f) \<in> set (dispatches (co_conns (cl_co s c) a))" for c a j f
    using b [of c a] that by (auto simp: conn_backed_def)
  then show ?thesis using apart b by (auto simp: conn_backed_def)
qed

text \<open>Two workers on two coordinators, two jobs, one claim each.\<close>

definition two_claims :: "act list" where
  "two_claims =
     [ARegister 0 w1_hello, ARegister 1 (JObj [(''type'', JStr ''register''), (''worker_id'', JStr ''w2'')]),
      ASubmit 0 (env_at 100 ''j'') (Some (JObj [(''idempotency_key'', JStr ''k'')])),
      ASubmit 1 (env_at 110 ''i'') (Some (JObj [(''idempotency_key'', JStr ''l'')])),
      AClaim 0 (env_at 200 []) 0, AClaim 1 (env_at 210 []) 0]"

definition two_names :: "nat \<Rightarrow> string" where
  "two_names c = (if c = 0 then ''c1'' else ''c2'')"

theorem dispatches_leased_once_witness:
  "(''j'', 1) \<in> set (dispatches (co_conns (cl_co (cl_run two_claims (cl_start two_names (\<lambda>_. 1000))) 0) 0)) \<and>
   (''i'', 2) \<in> set (dispatches (co_conns (cl_co (cl_run two_claims (cl_start two_names (\<lambda>_. 1000))) 1) 0)) \<and>
   issued (cl_db (cl_run two_claims (cl_start two_names (\<lambda>_. 1000)))) ''w1'' ''j'' 1 \<and>
   issued (cl_db (cl_run two_claims (cl_start two_names (\<lambda>_. 1000)))) ''w2'' ''i'' 2"
proof -
  let ?s = "cl_run two_claims (cl_start two_names (\<lambda>_. 1000))"
  have d: "dispatches (co_conns (cl_co ?s 0) 0) = [(''j'', 1)]" "dispatches (co_conns (cl_co ?s 1) 0) = [(''i'', 2)]"
    by code_simp+
  have w: "w_id (co_conns (cl_co ?s 0) 0) = ''w1''" "w_id (co_conns (cl_co ?s 1) 0) = ''w2''"
    by code_simp+
  note p = dispatches_leased_once [OF refl [of ?s], THEN conjunct1, rule_format]
  show ?thesis using p [of "''j''" 1 0 0] p [of "''i''" 2 1 0] by (simp add: d w del: One_nat_def)
qed

end
