(* ===== verification/WorkerProc.thy ===== *)
theory WorkerProc
  imports Workers
begin

text \<open>
  The parts of the worker process, \<open>worker/worker.py\<close>: the resizable semaphore that bounds its
  jobs, its frames, the clamped sleep of a job, the heartbeat loop and the commit retry loop each
  by itself, and the reconnect back-off. Times are whole milliseconds of the monotonic clock. How
  the tasks of one worker run together is in \<open>WorkerRun\<close>.
\<close>

section \<open>The resizable semaphore\<close>

text \<open>
  \<open>ResizableSemaphore\<close>. Tasks are numbers: \<open>sm_sleep\<close> wait on the condition, \<open>sm_ready\<close> were
  notified and will check again when they get the lock, \<open>sm_held\<close> are inside.
\<close>

record sem =
  sm_limit :: int
  sm_use :: int
  sm_sleep :: "nat list"
  sm_ready :: "nat list"
  sm_held :: "nat list"

definition sem_new :: "int \<Rightarrow> sem" where
  "sem_new n = \<lparr>sm_limit = max 0 n, sm_use = 0, sm_sleep = [], sm_ready = [], sm_held = []\<rparr>"

text \<open>The loop head of \<open>acquire\<close>: wait while all slots are in use, else take one.\<close>

definition sem_try :: "nat \<Rightarrow> sem \<Rightarrow> sem" where
  "sem_try t s =
     (if sm_use s \<ge> sm_limit s then s\<lparr>sm_sleep := sm_sleep s @ [t]\<rparr>
      else s\<lparr>sm_use := sm_use s + 1, sm_held := sm_held s @ [t]\<rparr>)"

definition sem_wake :: "nat \<Rightarrow> sem \<Rightarrow> sem" where
  "sem_wake t s = sem_try t (s\<lparr>sm_ready := removeAll t (sm_ready s)\<rparr>)"

definition notify_all :: "sem \<Rightarrow> sem" where
  "notify_all s = s\<lparr>sm_ready := sm_ready s @ sm_sleep s, sm_sleep := []\<rparr>"

definition sem_release :: "nat \<Rightarrow> sem \<Rightarrow> sem" where
  "sem_release t s = notify_all (s\<lparr>sm_use := sm_use s - 1, sm_held := removeAll t (sm_held s)\<rparr>)"

definition sem_set_limit :: "int \<Rightarrow> sem \<Rightarrow> sem" where
  "sem_set_limit n s = notify_all (s\<lparr>sm_limit := max 0 n\<rparr>)"

text \<open>A task that waits is cancelled (its connection ended).\<close>

definition sem_abandon :: "nat \<Rightarrow> sem \<Rightarrow> sem" where
  "sem_abandon t s = s\<lparr>sm_sleep := removeAll t (sm_sleep s), sm_ready := removeAll t (sm_ready s)\<rparr>"

inductive sem_step :: "sem \<Rightarrow> sem \<Rightarrow> bool" where
  enter: "t \<notin> set (sm_sleep s @ sm_ready s @ sm_held s) \<Longrightarrow> sem_step s (sem_try t s)"
| wake: "t \<in> set (sm_ready s) \<Longrightarrow> sem_step s (sem_wake t s)"
| leave: "t \<in> set (sm_held s) \<Longrightarrow> sem_step s (sem_release t s)"
| resize: "sem_step s (sem_set_limit n s)"
| abandon: "sem_step s (sem_abandon t s)"

inductive_cases sem_stepE: "sem_step s t"

text \<open>
  The count is the number of tasks inside, nobody waits twice, and whoever sleeps does so
  because every slot is taken: no wakeup is lost.
\<close>

definition sem_ok :: "sem \<Rightarrow> bool" where
  "sem_ok s \<longleftrightarrow> sm_use s = int (length (sm_held s)) \<and> 0 \<le> sm_limit s \<and>
     distinct (sm_sleep s @ sm_ready s @ sm_held s) \<and> (sm_sleep s \<noteq> [] \<longrightarrow> sm_limit s \<le> sm_use s)"

lemma sem_try_ok:
  "sem_ok s \<Longrightarrow> t \<notin> set (sm_sleep s @ sm_ready s @ sm_held s) \<Longrightarrow> sem_ok (sem_try t s)"
  by (auto simp: sem_ok_def sem_try_def)

lemma length_removeAll_distinct: "distinct xs \<Longrightarrow> x \<in> set xs \<Longrightarrow> length (removeAll x xs) = length xs - 1"
  by (simp add: distinct_remove1_removeAll [symmetric] length_remove1)

lemma sem_release_ok:
  assumes "sem_ok s" and "t \<in> set (sm_held s)"
  shows "sem_ok (sem_release t s)"
proof -
  have "length (sm_held s) \<ge> 1" using assms(2) by (cases "sm_held s") simp_all
  moreover have "length (removeAll t (sm_held s)) = length (sm_held s) - 1"
    using assms by (intro length_removeAll_distinct) (simp_all add: sem_ok_def)
  ultimately show ?thesis
    using assms(1) by (auto simp: sem_ok_def sem_release_def notify_all_def distinct_removeAll of_nat_diff)
qed

lemma sem_step_ok: "sem_ok s \<Longrightarrow> sem_step s t \<Longrightarrow> sem_ok t"
proof (erule sem_stepE, goal_cases)
  case (2 u)
  have "sem_ok (s\<lparr>sm_ready := removeAll u (sm_ready s)\<rparr>)"
    using 2(1) by (auto simp: sem_ok_def distinct_removeAll)
  moreover have "u \<notin> set (sm_sleep s @ removeAll u (sm_ready s) @ sm_held s)"
    using 2 by (auto simp: sem_ok_def)
  ultimately show ?case using 2(2) sem_try_ok [of "s\<lparr>sm_ready := removeAll u (sm_ready s)\<rparr>" u]
    by (simp add: sem_wake_def)
next
  case (4 n)
  then show ?case by (auto simp: sem_ok_def sem_set_limit_def notify_all_def)
next
  case (5 u)
  then show ?case by (auto simp: sem_ok_def sem_abandon_def distinct_removeAll)
qed (auto simp: sem_try_ok sem_release_ok)

interpretation sems: step_system "sem_new n" sem_step sem_ok for n
proof unfold_locales
  show "sem_ok (sem_new n)" by (simp add: sem_ok_def sem_new_def)
  show "sem_ok t" if "sem_ok s" "sem_step s t" for s t using that by (rule sem_step_ok)
qed

section \<open>Messages\<close>

text \<open>The frame a worker sends when it connects.\<close>

definition register_msg :: "string \<Rightarrow> int \<Rightarrow> json" where
  "register_msg wid n = JObj [(''type'', JStr ''register''), (''worker_id'', JStr wid),
     (''concurrency'', JInt n)]"

section \<open>Executing a job\<close>

text \<open>
  The sleep \<open>_execute\<close> takes from the payload: a payload sent as text is decoded, anything that
  is not a dictionary counts as empty, and the number is clamped to a minute. \<open>int(...)\<close> may
  raise, and the task ends before it took a slot.
\<close>

definition payload_dict :: "(string \<Rightarrow> json option) \<Rightarrow> json \<Rightarrow> json" where
  "payload_dict loads v =
     (let p = (if py_truth v then v else JObj []);
          q = (case p of JStr s \<Rightarrow> (case loads s of None \<Rightarrow> JObj [] | Some x \<Rightarrow> x) | _ \<Rightarrow> p)
      in if is_dict q then q else JObj [])"

definition sleep_ms :: "(string \<Rightarrow> json option) \<Rightarrow> json \<Rightarrow> exn + int" where
  "sleep_ms loads data =
     (case py_int (dget_or (payload_dict loads (dget data ''payload'')) ''sleep_ms'' (JInt 0)) of
        Inl x \<Rightarrow> Inl x
      | Inr n \<Rightarrow> Inr (max 0 (min n 60000)))"

definition job_result_msg :: "string \<Rightarrow> int \<Rightarrow> json" where
  "job_result_msg wid n = JObj [(''ok'', JBool True), (''worker'', JStr wid), (''slept_ms'', JInt n)]"

definition commit_msg :: "json \<Rightarrow> json \<Rightarrow> json \<Rightarrow> json" where
  "commit_msg jv fv res = JObj [(''type'', JStr ''commit''), (''job_id'', jv), (''fence'', fv), (''result'', res)]"

definition heartbeat_msg :: "json \<Rightarrow> json \<Rightarrow> json" where
  "heartbeat_msg jv fv = JObj [(''type'', JStr ''heartbeat''), (''job_id'', jv), (''fence'', fv)]"

section \<open>Heartbeats\<close>

definition heartbeat_ms :: int where "heartbeat_ms = 3000"

text \<open>
  The loop of \<open>_run_with_heartbeats\<close>: the times at which heartbeats are sent. The \<open>k\<close>-th sleep
  lasts \<open>lag k\<close> milliseconds longer than asked for, \<open>sent k\<close> is whether the \<open>k\<close>-th send works.
\<close>

function hb_loop :: "(nat \<Rightarrow> nat) \<Rightarrow> (nat \<Rightarrow> bool) \<Rightarrow> nat \<Rightarrow> int \<Rightarrow> int \<Rightarrow> int list" where
  "hb_loop lag sent k now deadline =
     (if deadline - now \<le> 0 then []
      else
        (let t = now + min heartbeat_ms (deadline - now) + int (lag k)
         in if t \<ge> deadline then []
            else if sent k then t # hb_loop lag sent (Suc k) t deadline
            else []))"
  by pat_completeness auto
termination
  by (relation "measure (\<lambda>(lag, sent, k, now, deadline). nat (deadline - now))")
    (auto simp: heartbeat_ms_def)

declare hb_loop.simps [simp del]

definition run_with_heartbeats :: "(nat \<Rightarrow> nat) \<Rightarrow> (nat \<Rightarrow> bool) \<Rightarrow> int \<Rightarrow> int \<Rightarrow> int list" where
  "run_with_heartbeats lag sent start dur =
     (if sent 0 then start # hb_loop lag sent 1 start (start + dur) else [])"

section \<open>The commit retry loop\<close>

definition commit_max_attempts :: nat where "commit_max_attempts = 8"

text \<open>One attempt: the send raised, a confirmation came in time, or it did not.\<close>

datatype attempt = SendFailed | Confirmed | TimedOut

datatype retry_result = SocketDead | Answered | GaveUp

fun commit_retry :: "nat \<Rightarrow> ('s \<Rightarrow> attempt \<times> 's) \<Rightarrow> 's \<Rightarrow> retry_result \<times> 's" where
  "commit_retry 0 try s = (GaveUp, s)"
| "commit_retry (Suc n) try s =
     (case try s of
        (SendFailed, s') \<Rightarrow> (SocketDead, s')
      | (Confirmed, s') \<Rightarrow> (Answered, s')
      | (TimedOut, s') \<Rightarrow> commit_retry n try s')"

definition commit_with_retry :: "('s \<Rightarrow> attempt \<times> 's) \<Rightarrow> 's \<Rightarrow> retry_result \<times> 's" where
  "commit_with_retry try s = commit_retry commit_max_attempts try s"

section \<open>Reconnecting\<close>

definition backoff_min :: rat where "backoff_min = 1 / 2"

definition backoff_max :: rat where "backoff_max = 10"

text \<open>
  \<open>run\<close>: for every connection that ended, whether it ended cleanly and the random number drawn;
  the result is the sleeps in seconds. A clean end resets the back-off before the sleep.
\<close>

fun reconnect_sleeps :: "rat \<Rightarrow> (bool \<times> rat) list \<Rightarrow> rat list" where
  "reconnect_sleeps b [] = []"
| "reconnect_sleeps b ((clean, r) # ends) =
     (let b1 = (if clean then backoff_min else b)
      in min b1 backoff_max * (1 / 2 + r) # reconnect_sleeps (min (b1 * 2) backoff_max) ends)"

section \<open>Lemmas\<close>

text \<open>Neighbouring elements of a list of times.\<close>

fun gaps_within :: "int \<Rightarrow> int list \<Rightarrow> bool" where
  "gaps_within g (x # y # ys) = (y - x \<le> g \<and> gaps_within g (y # ys))"
| "gaps_within g _ = True"

lemma hb_loop_gaps:
  "(\<And>k. int (lag k) \<le> L) \<Longrightarrow> (\<And>k. sent k) \<Longrightarrow>
     gaps_within (heartbeat_ms + L) (now # hb_loop lag sent k now deadline @ [deadline])"
proof (induction lag sent k now deadline rule: hb_loop.induct)
  case (1 lag sent k now deadline)
  let ?t = "now + min heartbeat_ms (deadline - now) + int (lag k)"
  have L: "0 \<le> int (lag k)" "int (lag k) \<le> L" using 1(2) [of k] by simp_all
  consider "deadline - now \<le> 0" | "0 < deadline - now" "deadline \<le> ?t" | "0 < deadline - now" "?t < deadline"
    by linarith
  then show ?case
  proof cases
    case 1
    then show ?thesis using L by (subst hb_loop.simps) (simp add: heartbeat_ms_def)
  next
    case 2
    then show ?thesis using L by (subst hb_loop.simps) (simp add: Let_def)
  next
    case 3
    then have "gaps_within (heartbeat_ms + L) (?t # hb_loop lag sent (Suc k) ?t deadline @ [deadline])"
      using "1.prems" by (intro "1.IH" [OF _ refl]) simp_all
    then show ?thesis using 3 L "1.prems"(2) by (subst hb_loop.simps) (simp add: Let_def)
  qed
qed

lemma reconnect_sleeps_bounds:
  assumes "backoff_min \<le> b" and "b \<le> backoff_max"
    and "\<forall>(clean, r) \<in> set ends. 0 \<le> r \<and> r < 1" and "s \<in> set (reconnect_sleeps b ends)"
  shows "1 / 4 \<le> s \<and> s < 15"
  using assms
proof (induction ends arbitrary: b)
  case (Cons x ends)
  obtain clean r where x: "x = (clean, r)" by (cases x)
  let ?b = "if clean then backoff_min else b"
  have b: "1 / 2 \<le> ?b" "?b \<le> 10" "0 \<le> r" "r < 1"
    using Cons.prems x by (auto simp: backoff_min_def backoff_max_def)
  from Cons.prems(4) x
  have "s = min ?b backoff_max * (1 / 2 + r) \<or> s \<in> set (reconnect_sleeps (min (?b * 2) backoff_max) ends)"
    by (simp add: Let_def)
  then show ?case
  proof
    assume s: "s = min ?b backoff_max * (1 / 2 + r)"
    have "1 / 2 * (1 / 2) \<le> ?b * (1 / 2 + r)" using b by (intro mult_mono) simp_all
    moreover have "?b * (1 / 2 + r) \<le> 10 * (1 / 2 + r)" using b by (intro mult_right_mono) simp_all
    moreover have "min ?b backoff_max = ?b" using b by (simp add: backoff_max_def)
    ultimately show ?thesis using s b(4) by simp
  next
    assume "s \<in> set (reconnect_sleeps (min (?b * 2) backoff_max) ends)"
    then show ?thesis
      using Cons.prems(3) b by (intro Cons.IH) (auto simp: backoff_min_def backoff_max_def)
  qed
qed simp

text \<open>
  The reconnect delay is bounded: however connections end and whatever the jitter, every
  sleep is between a quarter of a second and fifteen seconds.
\<close>

lemma reconnect_bounded:
  assumes "\<forall>(clean, r) \<in> set ends. 0 \<le> r \<and> r < 1"
  shows "\<forall>s \<in> set (reconnect_sleeps backoff_min ends). 1 / 4 \<le> s \<and> s < 15"
proof
  fix s assume "s \<in> set (reconnect_sleeps backoff_min ends)"
  then show "1 / 4 \<le> s \<and> s < 15"
    by (intro reconnect_sleeps_bounds [OF _ _ assms]) (simp_all add: backoff_min_def backoff_max_def)
qed

section \<open>Properties\<close>

text \<open>
  The semaphore bounds the running jobs without losing a waiter. After any sequence of
  acquires, wakeups, releases, resizes and cancellations: the count is the number of tasks
  inside; a step lets at most one more in, and only below the limit of that moment; and while a
  slot is free nobody is asleep, so that every waiting task has been notified.
\<close>

theorem semaphore_correct:
  assumes "sem_step\<^sup>*\<^sup>* (sem_new n) s" and "sem_step s t"
  shows "sm_use t = int (length (sm_held t)) \<and>
    (sm_use t > sm_use s \<longrightarrow> sm_use t = sm_use s + 1 \<and> sm_use t \<le> sm_limit t) \<and>
    (sm_use t < sm_limit t \<longrightarrow> sm_sleep t = [])"
proof -
  have ok: "sem_ok s" using assms(1) by (rule sems.ok_reachable)
  have "sem_ok t" using ok assms(2) by (rule sem_step_ok)
  moreover have "sm_use t > sm_use s \<longrightarrow> sm_use t = sm_use s + 1 \<and> sm_use t \<le> sm_limit t"
    using assms(2)
    by cases (auto simp: sem_try_def sem_wake_def sem_release_def sem_set_limit_def notify_all_def
        sem_abandon_def)
  ultimately show ?thesis by (auto simp: sem_ok_def)
qed

theorem semaphore_correct_witness:
  "sm_use (sem_try 7 (sem_new 1)) = 1 \<and> sm_sleep (sem_try 8 (sem_try 7 (sem_new 1))) = [8] \<and>
   sm_ready (sem_set_limit 2 (sem_try 8 (sem_try 7 (sem_new 1)))) = [8] \<and>
   sm_use (sem_wake 8 (sem_set_limit 2 (sem_try 8 (sem_try 7 (sem_new 1))))) = 2"
proof -
  have "sem_step\<^sup>*\<^sup>* (sem_new 1) (sem_new 1)" by simp
  moreover have "sem_step (sem_new 1) (sem_try 7 (sem_new 1))"
    by (rule sem_step.enter) (simp add: sem_new_def)
  ultimately have "sm_use (sem_try 7 (sem_new 1)) = int (length (sm_held (sem_try 7 (sem_new 1))))"
    using semaphore_correct by blast
  then show ?thesis
    by (simp add: sem_try_def sem_new_def sem_set_limit_def notify_all_def sem_wake_def)
qed

text \<open>
  C40. A running job keeps pinging: with every sleep late by at most \<open>L\<close> milliseconds and the socket
  alive, the first heartbeat goes out at the start, and neither two neighbouring heartbeats nor
  the last one and the end of the job are more than 3000 + \<open>L\<close> milliseconds apart.
\<close>

theorem heartbeats_regular:
  assumes "\<And>k. int (lag k) \<le> L" and "\<And>k. sent k"
  shows "hd (run_with_heartbeats lag sent start dur) = start \<and>
    gaps_within (heartbeat_ms + L) (run_with_heartbeats lag sent start dur @ [start + dur])"
  using assms hb_loop_gaps [of lag L sent start 1 "start + dur"]
  by (simp add: run_with_heartbeats_def)

theorem heartbeats_regular_witness:
  "gaps_within 3050 (run_with_heartbeats (\<lambda>_. 50) (\<lambda>_. True) 1000 7000 @ [8000])"
  using heartbeats_regular [of "\<lambda>_. 50" 50 "\<lambda>_. True" 1000 7000] by (simp add: heartbeat_ms_def)

text \<open>
  A job never stalls a slot for more than a minute, but a payload the clamp was written for
  can still make the task raise before it takes the slot: \<open>sleep_ms: null\<close> does, and such a task
  sends neither heartbeat nor commit.
\<close>

theorem sleep_clamped:
  "(sleep_ms loads data = Inr n \<longrightarrow> 0 \<le> n \<and> n \<le> 60000) \<and>
   sleep_ms loads (JObj [(''payload'', JObj [(''sleep_ms'', JNull)])]) = Inl TypeError"
  by (auto simp: sleep_ms_def payload_dict_def split: sum.splits)

theorem sleep_clamped_witness:
  "sleep_ms (\<lambda>_. None) (JObj [(''payload'', JObj [(''sleep_ms'', JInt 90000)])]) = Inr 60000 \<and>
   0 \<le> (60000 :: int) \<and> (60000 :: int) \<le> 60000"
proof -
  have "sleep_ms (\<lambda>_. None) (JObj [(''payload'', JObj [(''sleep_ms'', JInt 90000)])]) = Inr 60000"
    by (simp add: sleep_ms_def payload_dict_def)
  then show ?thesis
    using sleep_clamped [of "\<lambda>_. None" "JObj [(''payload'', JObj [(''sleep_ms'', JInt 90000)])]" 60000] by simp
qed

end
