(* ===== verification/WorkerRun.thy ===== *)
theory WorkerRun
  imports WorkerProc
begin

text \<open>
  One worker process as a whole, \<open>worker/worker.py\<close>: the read loop of a connection, the executor
  task of every dispatched job with its heartbeats and its commit retries, the shared semaphore
  and the table of acknowledgement events, disconnects and reconnects. A task is cut at its
  awaits; everything between two awaits is one step.
\<close>

section \<open>State\<close>

text \<open>
  Where an executor task stands: created, waiting in \<open>acquire\<close>, about to send a heartbeat, asleep
  until a time, about to send the \<open>n\<close>-th commit, waiting for its confirmation until a time.
\<close>

datatype phase =
    PNew
  | PWait
  | PBeat
  | PSleep int
  | PSend nat
  | PAck nat int

fun holds_slot :: "phase \<Rightarrow> bool" where
  "holds_slot PNew = False"
| "holds_slot PWait = False"
| "holds_slot _ = True"

fun committing :: "phase \<Rightarrow> bool" where
  "committing (PSend n) = True"
| "committing (PAck n u) = True"
| "committing _ = False"

text \<open>The frame it was started with, its clamped sleep and the end of that sleep.\<close>

record task =
  tk_data :: json
  tk_phase :: phase
  tk_ms :: int
  tk_end :: int

text \<open>
  The \<open>Worker\<close> object. Tasks are numbered in the order they were created; \<open>wk_tasks\<close> is the set
  \<open>_jobs\<close>. Every call of \<open>_commit_with_retry\<close> makes one event object, named by its task: \<open>wk_acks\<close>
  is the dictionary \<open>_acks\<close> from job id to event, \<open>wk_set\<close> the events that are set. \<open>wk_got\<close> and
  \<open>wk_sent\<close> record the present connection: the frame each task was started with, and the time, the
  task, the frame and the outcome of every send.
\<close>

record wproc =
  wk_id :: string
  wk_conc :: int
  wk_sem :: sem
  wk_acks :: "(json \<times> nat) list"
  wk_set :: "nat list"
  wk_tasks :: "nat \<Rightarrow> task option"
  wk_next :: nat
  wk_clock :: int
  wk_up :: bool
  wk_got :: "nat \<Rightarrow> json option"
  wk_sent :: "(int \<times> nat option \<times> json \<times> bool) list"

definition wk_new :: "string \<Rightarrow> int \<Rightarrow> wproc" where
  "wk_new wid n = \<lparr>wk_id = wid, wk_conc = n, wk_sem = sem_new n, wk_acks = [], wk_set = [],
     wk_tasks = (\<lambda>_. None), wk_next = 0, wk_clock = 0, wk_up = False, wk_got = (\<lambda>_. None),
     wk_sent = []\<rparr>"

text \<open>The URL the worker dials, and \<open>main\<close> up to the start of the event loop.\<close>

definition ws_url :: "string \<Rightarrow> string" where
  "ws_url lb = rstrip_char (CHR ''/'') lb @ ''/ws''"

definition worker_main :: "(string \<Rightarrow> string option) \<Rightarrow> exn + wproc \<times> string" where
  "worker_main env =
     (case py_int_of_str (getenv env ''WORKER_CONCURRENCY'' ''2'') of
        None \<Rightarrow> Inl ValueError
      | Some n \<Rightarrow> Inr (wk_new (getenv env ''WORKER_ID'' ''w?'') n, ws_url (getenv env ''LB_WS_URL'' ''ws://lb:8080'')))"

section \<open>Incoming frames\<close>

text \<open>
  The key under which a value is found in a dictionary: lists and dictionaries are not hashable,
  numbers and booleans that are equal are the same key.
\<close>

fun hash_key :: "json \<Rightarrow> exn + json" where
  "hash_key (JList xs) = Inl TypeError"
| "hash_key (JObj kvs) = Inl TypeError"
| "hash_key (JBool b) = Inr (JFloat (if b then 1 else 0))"
| "hash_key (JInt i) = Inr (JFloat (of_int i))"
| "hash_key v = Inr v"

text \<open>
  \<open>_handle\<close>: a dispatch starts a task, a confirmation sets the event of its job if somebody
  waits on it, a concurrency change resizes the semaphore.
\<close>

definition wk_handle :: "json \<Rightarrow> wproc \<Rightarrow> exn + wproc" where
  "wk_handle data w =
     (case jget data ''type'' of
        Inl x \<Rightarrow> Inl x
      | Inr _ \<Rightarrow>
          (let ty = dget data ''type''
           in if ty = JStr ''dispatch'' then
                Inr (w\<lparr>wk_tasks := (wk_tasks w)(wk_next w \<mapsto>
                         \<lparr>tk_data = data, tk_phase = PNew, tk_ms = 0, tk_end = 0\<rparr>),
                       wk_got := (wk_got w)(wk_next w \<mapsto> data), wk_next := wk_next w + 1\<rparr>)
              else if ty = JStr ''ack'' \<or> ty = JStr ''commit_rejected'' then
                (case hash_key (dget data ''job_id'') of
                   Inl x \<Rightarrow> Inl x
                 | Inr k \<Rightarrow>
                     (case map_of (wk_acks w) k of
                        None \<Rightarrow> Inr w
                      | Some ev \<Rightarrow> Inr (w\<lparr>wk_set := List.insert ev (wk_set w)\<rparr>)))
              else if ty = JStr ''set_concurrency'' then
                (case as_int (dget data ''n'') of
                   Some n \<Rightarrow>
                     if 0 \<le> n then Inr (w\<lparr>wk_conc := n, wk_sem := sem_set_limit n (wk_sem w)\<rparr>) else Inr w
                 | None \<Rightarrow> Inr w)
              else Inr w))"

section \<open>The steps of a task\<close>

definition set_phase :: "nat \<Rightarrow> phase \<Rightarrow> wproc \<Rightarrow> wproc" where
  "set_phase t p w = w\<lparr>wk_tasks := (wk_tasks w)(t := map_option (\<lambda>k. k\<lparr>tk_phase := p\<rparr>) (wk_tasks w t))\<rparr>"

definition log_send :: "nat option \<Rightarrow> json \<Rightarrow> bool \<Rightarrow> wproc \<Rightarrow> wproc" where
  "log_send t fr ok w = w\<lparr>wk_sent := wk_sent w @ [(wk_clock w, t, fr, ok)]\<rparr>"

text \<open>The task is done: its callback takes it out of \<open>_jobs\<close>.\<close>

definition end_task :: "nat \<Rightarrow> wproc \<Rightarrow> wproc" where
  "end_task t w = w\<lparr>wk_tasks := (wk_tasks w)(t := None)\<rparr>"

definition leave_slot :: "nat \<Rightarrow> wproc \<Rightarrow> wproc" where
  "leave_slot t w = w\<lparr>wk_sem := sem_release t (wk_sem w)\<rparr>"

text \<open>
  \<open>async with self._slots\<close>: after the attempt the task is inside, at the head of
  \<open>_run_with_heartbeats\<close> with its deadline computed, or asleep in the semaphore.
\<close>

definition enter_slot :: "nat \<Rightarrow> sem \<Rightarrow> wproc \<Rightarrow> wproc" where
  "enter_slot t s w =
     (if t \<in> set (sm_held s)
      then w\<lparr>wk_sem := s, wk_tasks := (wk_tasks w)(t := map_option
               (\<lambda>k. k\<lparr>tk_phase := PBeat, tk_end := wk_clock w + tk_ms k\<rparr>) (wk_tasks w t))\<rparr>
      else set_phase t PWait (w\<lparr>wk_sem := s\<rparr>))"

text \<open>\<open>_execute\<close> up to the semaphore: the decoding of the payload may raise, which ends the task.\<close>

definition task_begin :: "(string \<Rightarrow> json option) \<Rightarrow> nat \<Rightarrow> task \<Rightarrow> wproc \<Rightarrow> wproc" where
  "task_begin loads t k w =
     (case sleep_ms loads (tk_data k) of
        Inl _ \<Rightarrow> end_task t w
      | Inr n \<Rightarrow> enter_slot t (sem_try t (wk_sem w)) (w\<lparr>wk_tasks := (wk_tasks w)(t \<mapsto> k\<lparr>tk_ms := n\<rparr>)\<rparr>))"

text \<open>The head of \<open>_commit_with_retry\<close>: a fresh event under the job's id.\<close>

definition to_commit :: "nat \<Rightarrow> task \<Rightarrow> wproc \<Rightarrow> wproc" where
  "to_commit t k w =
     (case hash_key (dget (tk_data k) ''job_id'') of
        Inl _ \<Rightarrow> end_task t (leave_slot t w)
      | Inr key \<Rightarrow> set_phase t (PSend 1) (w\<lparr>wk_acks := AList.update key t (wk_acks w)\<rparr>))"

text \<open>Its \<open>finally\<close> block, which pops whatever event is stored under the id, and the end of the task.\<close>

definition finish_commit :: "nat \<Rightarrow> task \<Rightarrow> wproc \<Rightarrow> wproc" where
  "finish_commit t k w =
     (case hash_key (dget (tk_data k) ''job_id'') of
        Inl _ \<Rightarrow> end_task t (leave_slot t w)
      | Inr key \<Rightarrow> end_task t (leave_slot t (w\<lparr>wk_acks := AList.delete key (wk_acks w)\<rparr>)))"

text \<open>
  A heartbeat was sent, or its send failed, which ends \<open>_run_with_heartbeats\<close> without an error; a
  sleep is over.
\<close>

definition task_beat :: "bool \<Rightarrow> nat \<Rightarrow> task \<Rightarrow> wproc \<Rightarrow> wproc" where
  "task_beat ok t k w =
     (let w1 = log_send (Some t) (heartbeat_msg (dget (tk_data k) ''job_id'') (dget (tk_data k) ''fence'')) ok w
      in if \<not> ok then to_commit t k w1
         else if tk_end k - wk_clock w \<le> 0 then to_commit t k w1
         else set_phase t (PSleep (wk_clock w + min heartbeat_ms (tk_end k - wk_clock w))) w1)"

definition task_tick :: "nat \<Rightarrow> task \<Rightarrow> wproc \<Rightarrow> wproc" where
  "task_tick t k w = (if wk_clock w \<ge> tk_end k then to_commit t k w else set_phase t PBeat w)"

definition ack_timeout_ms :: int where "ack_timeout_ms = 2000"

definition task_send :: "bool \<Rightarrow> nat \<Rightarrow> nat \<Rightarrow> task \<Rightarrow> wproc \<Rightarrow> wproc" where
  "task_send ok n t k w =
     (let w1 = log_send (Some t) (commit_msg (dget (tk_data k) ''job_id'') (dget (tk_data k) ''fence'')
                 (job_result_msg (wk_id w) (tk_ms k))) ok w
      in if ok then set_phase t (PAck n (wk_clock w + ack_timeout_ms)) w1 else finish_commit t k w1)"

text \<open>No confirmation in time: send again, or give up after the last attempt.\<close>

definition task_timeout :: "nat \<Rightarrow> nat \<Rightarrow> task \<Rightarrow> wproc \<Rightarrow> wproc" where
  "task_timeout n t k w =
     (if n < commit_max_attempts then set_phase t (PSend (n + 1)) w else finish_commit t k w)"

section \<open>The end of a connection\<close>

text \<open>
  \<open>CancelledError\<close> at the await the task stands at. A task that never ran just ends; one in
  \<open>acquire\<close> leaves the queue; the others leave their slot, and \<open>_commit_with_retry\<close> pops the event.
\<close>

definition cancel_task :: "nat \<Rightarrow> wproc \<Rightarrow> wproc" where
  "cancel_task t w =
     (case wk_tasks w t of
        None \<Rightarrow> w
      | Some k \<Rightarrow>
          (case tk_phase k of
             PNew \<Rightarrow> end_task t w
           | PWait \<Rightarrow> end_task t (w\<lparr>wk_sem := sem_abandon t (wk_sem w)\<rparr>)
           | PBeat \<Rightarrow> end_task t (leave_slot t w)
           | PSleep _ \<Rightarrow> end_task t (leave_slot t w)
           | PSend _ \<Rightarrow> finish_commit t k w
           | PAck _ _ \<Rightarrow> finish_commit t k w))"

text \<open>\<open>_cancel_jobs\<close>, in the \<open>finally\<close> block of \<open>_connect_once\<close>.\<close>

definition wk_drop :: "wproc \<Rightarrow> wproc" where
  "wk_drop w = (fold cancel_task [0..<wk_next w] w)\<lparr>wk_up := False\<rparr>"

text \<open>A new connection is up: register.\<close>

definition wk_connect :: "bool \<Rightarrow> wproc \<Rightarrow> wproc" where
  "wk_connect ok w =
     (let w1 = log_send None (register_msg (wk_id w) (wk_conc w)) ok
                 (w\<lparr>wk_got := (\<lambda>_. None), wk_sent := []\<rparr>)
      in w1\<lparr>wk_up := ok\<rparr>)"

text \<open>
  \<open>_read_loop\<close> on one message. Text that is not JSON is skipped, an exception of the handler ends
  the connection, and so do close and error frames; other frames are ignored.
\<close>

datatype wsmsg = WText string | WClose | WError | WOther

definition wk_message :: "(string \<Rightarrow> json option) \<Rightarrow> wsmsg \<Rightarrow> wproc \<Rightarrow> wproc" where
  "wk_message loads m w =
     (case m of
        WText s \<Rightarrow>
          (case loads s of
             None \<Rightarrow> w
           | Some data \<Rightarrow> (case wk_handle data w of Inl _ \<Rightarrow> wk_drop w | Inr w' \<Rightarrow> w'))
      | WClose \<Rightarrow> wk_drop w
      | WError \<Rightarrow> wk_drop w
      | WOther \<Rightarrow> w)"

section \<open>The process\<close>

text \<open>What can happen next; the number of an event is the task it is about.\<close>

datatype wevent =
    EConnect bool
  | EMessage wsmsg
  | EEnd
  | EElapse nat
  | EBegin nat
  | EWake nat
  | EBeat nat bool
  | ETick nat
  | ESend nat bool
  | EConfirmed nat
  | ETimeout nat

fun wk_do :: "(string \<Rightarrow> json option) \<Rightarrow> wevent \<Rightarrow> wproc \<Rightarrow> wproc option" where
  "wk_do loads (EConnect ok) w = (if wk_up w then None else Some (wk_connect ok w))"
| "wk_do loads (EMessage m) w = (if wk_up w then Some (wk_message loads m w) else None)"
| "wk_do loads EEnd w = (if wk_up w then Some (wk_drop w) else None)"
| "wk_do loads (EElapse n) w = Some (w\<lparr>wk_clock := wk_clock w + int n\<rparr>)"
| "wk_do loads (EBegin t) w =
     (case wk_tasks w t of
        Some k \<Rightarrow> if tk_phase k = PNew then Some (task_begin loads t k w) else None
      | None \<Rightarrow> None)"
| "wk_do loads (EWake t) w =
     (case wk_tasks w t of
        Some k \<Rightarrow> if tk_phase k = PWait \<and> t \<in> set (sm_ready (wk_sem w))
                  then Some (enter_slot t (sem_wake t (wk_sem w)) w) else None
      | None \<Rightarrow> None)"
| "wk_do loads (EBeat t ok) w =
     (case wk_tasks w t of
        Some k \<Rightarrow> if tk_phase k = PBeat then Some (task_beat ok t k w) else None
      | None \<Rightarrow> None)"
| "wk_do loads (ETick t) w =
     (case wk_tasks w t of
        Some k \<Rightarrow> (case tk_phase k of
                     PSleep u \<Rightarrow> if u \<le> wk_clock w then Some (task_tick t k w) else None
                   | _ \<Rightarrow> None)
      | None \<Rightarrow> None)"
| "wk_do loads (ESend t ok) w =
     (case wk_tasks w t of
        Some k \<Rightarrow> (case tk_phase k of PSend n \<Rightarrow> Some (task_send ok n t k w) | _ \<Rightarrow> None)
      | None \<Rightarrow> None)"
| "wk_do loads (EConfirmed t) w =
     (case wk_tasks w t of
        Some k \<Rightarrow> (case tk_phase k of
                     PAck n u \<Rightarrow> if t \<in> set (wk_set w) then Some (finish_commit t k w) else None
                   | _ \<Rightarrow> None)
      | None \<Rightarrow> None)"
| "wk_do loads (ETimeout t) w =
     (case wk_tasks w t of
        Some k \<Rightarrow> (case tk_phase k of
                     PAck n u \<Rightarrow> if u \<le> wk_clock w then Some (task_timeout n t k w) else None
                   | _ \<Rightarrow> None)
      | None \<Rightarrow> None)"

inductive wk_step :: "(string \<Rightarrow> json option) \<Rightarrow> wproc \<Rightarrow> wproc \<Rightarrow> bool" for loads where
  step: "wk_do loads ev w = Some w' \<Longrightarrow> wk_step loads w w'"

inductive_cases wk_stepE: "wk_step loads w w'"

text \<open>A given sequence of events, for concrete runs.\<close>

fun wk_run :: "(string \<Rightarrow> json option) \<Rightarrow> wevent list \<Rightarrow> wproc \<Rightarrow> wproc option" where
  "wk_run loads [] w = Some w"
| "wk_run loads (ev # evs) w = (case wk_do loads ev w of None \<Rightarrow> None | Some w' \<Rightarrow> wk_run loads evs w')"

lemma wk_run_steps: "wk_run loads evs w = Some w' \<Longrightarrow> (wk_step loads)\<^sup>*\<^sup>* w w'"
proof (induction evs arbitrary: w)
  case (Cons ev evs)
  then obtain v where v: "wk_do loads ev w = Some v" "wk_run loads evs v = Some w'"
    by (auto split: option.splits)
  from wk_step.step [OF v(1)] Cons.IH [OF v(2)] show ?case by (rule converse_rtranclp_into_rtranclp)
qed simp

end
