(* ===== verification/WorkerSlots.thy ===== *)
theory WorkerSlots
  imports WorkerRun
begin

text \<open>
  The invariant of the worker process of \<open>WorkerRun\<close>: the semaphore agrees with the tasks, the
  table of acknowledgement events with the tasks that commit, and a worker without a connection
  has no task.
\<close>

section \<open>The slots\<close>

text \<open>
  The semaphore agrees with the tasks: whoever is past it is counted, whoever waits in it is
  queued, and its limit is the present concurrency.
\<close>

definition slots_ok :: "wproc \<Rightarrow> bool" where
  "slots_ok w \<longleftrightarrow> sem_ok (wk_sem w) \<and> sm_limit (wk_sem w) = max 0 (wk_conc w) \<and>
     (\<forall>t. t \<in> set (sm_held (wk_sem w)) \<longleftrightarrow> (\<exists>k. wk_tasks w t = Some k \<and> holds_slot (tk_phase k))) \<and>
     (\<forall>t. t \<in> set (sm_sleep (wk_sem w) @ sm_ready (wk_sem w)) \<longleftrightarrow>
        (\<exists>k. wk_tasks w t = Some k \<and> tk_phase k = PWait)) \<and>
     (\<forall>t. wk_tasks w t \<noteq> None \<longrightarrow> t < wk_next w)"

text \<open>An acknowledgement event belongs to a task that is committing the job it is stored under.\<close>

definition acks_ok :: "wproc \<Rightarrow> bool" where
  "acks_ok w \<longleftrightarrow> distinct (map fst (wk_acks w)) \<and>
     (\<forall>key t. map_of (wk_acks w) key = Some t \<longrightarrow>
        (\<exists>k. wk_tasks w t = Some k \<and> committing (tk_phase k) \<and>
             hash_key (dget (tk_data k) ''job_id'') = Inr key))"

definition wk_ok :: "wproc \<Rightarrow> bool" where
  "wk_ok w \<longleftrightarrow> slots_ok w \<and> acks_ok w \<and> (\<not> wk_up w \<longrightarrow> wk_tasks w = (\<lambda>_. None))"

lemmas wk_step_defs = set_phase_def log_send_def end_task_def leave_slot_def

lemma sem_fields [simp]:
  "sm_limit (sem_try t s) = sm_limit s" "sm_limit (sem_wake t s) = sm_limit s"
  "sm_limit (sem_release t s) = sm_limit s" "sm_limit (sem_abandon t s) = sm_limit s"
  "set (sm_held (sem_release t s)) = set (sm_held s) - {t}"
  "set (sm_held (sem_abandon t s)) = set (sm_held s)"
  "set (sm_sleep (sem_release t s)) \<union> set (sm_ready (sem_release t s)) = set (sm_sleep s) \<union> set (sm_ready s)"
  "set (sm_sleep (sem_abandon t s)) \<union> set (sm_ready (sem_abandon t s)) = set (sm_sleep s) \<union> set (sm_ready s) - {t}"
  by (auto simp: sem_try_def sem_wake_def sem_release_def sem_abandon_def notify_all_def)

lemma holds_not_wait [simp]: "holds_slot p \<Longrightarrow> p \<noteq> PWait"
  by auto

lemma committing_holds: "committing p \<Longrightarrow> holds_slot p"
  by (cases p) simp_all

lemma slots_set_phase:
  assumes "slots_ok w" and "wk_tasks w t = Some k" and "holds_slot (tk_phase k)" and "holds_slot p"
  shows "slots_ok (set_phase t p w)"
  using assms unfolding slots_ok_def set_phase_def by (auto simp: set_eq_iff)

lemma slots_frame:
  "slots_ok (w\<lparr>wk_acks := a\<rparr>) = slots_ok w" "slots_ok (w\<lparr>wk_set := e\<rparr>) = slots_ok w"
  "slots_ok (w\<lparr>wk_clock := c\<rparr>) = slots_ok w" "slots_ok (w\<lparr>wk_up := b\<rparr>) = slots_ok w"
  "slots_ok (w\<lparr>wk_got := g\<rparr>) = slots_ok w" "slots_ok (w\<lparr>wk_sent := x\<rparr>) = slots_ok w"
  "slots_ok (log_send s fr ok w) = slots_ok w"
  by (simp_all add: slots_ok_def log_send_def)

lemma slots_leave:
  assumes "slots_ok w" and "wk_tasks w t = Some k" and "holds_slot (tk_phase k)"
  shows "slots_ok (end_task t (leave_slot t w))"
proof -
  have "sem_ok (sem_release t (wk_sem w))"
    using assms by (intro sem_release_ok) (auto simp: slots_ok_def)
  moreover have "t \<notin> set (sm_sleep (wk_sem w) @ sm_ready (wk_sem w))"
    using assms by (auto simp: slots_ok_def)
  ultimately show ?thesis
    using assms by (auto simp: slots_ok_def end_task_def leave_slot_def)
qed

lemma slots_end_new:
  assumes "slots_ok w" and "wk_tasks w t = Some k" and "tk_phase k = PNew"
  shows "slots_ok (end_task t w)"
  using assms by (auto simp: slots_ok_def end_task_def)

lemma slots_abandon:
  assumes "slots_ok w" and "wk_tasks w t = Some k" and "tk_phase k = PWait"
  shows "slots_ok (end_task t (w\<lparr>wk_sem := sem_abandon t (wk_sem w)\<rparr>))"
proof -
  have "sem_ok (sem_abandon t (wk_sem w))"
    using assms(1) by (auto simp: slots_ok_def intro: sem_step_ok sem_step.abandon)
  moreover have "t \<notin> set (sm_held (wk_sem w))" using assms by (auto simp: slots_ok_def)
  ultimately show ?thesis
    using assms by (auto simp: slots_ok_def end_task_def)
qed

text \<open>What an attempt to get a slot does to the queues.\<close>

lemma sem_try_sets:
  "set (sm_ready (sem_try t s)) = set (sm_ready s)"
  "(t \<in> set (sm_held (sem_try t s)) \<and> set (sm_held (sem_try t s)) = insert t (set (sm_held s)) \<and>
      set (sm_sleep (sem_try t s)) = set (sm_sleep s)) \<or>
   (sm_held (sem_try t s) = sm_held s \<and> set (sm_sleep (sem_try t s)) = insert t (set (sm_sleep s)))"
  by (auto simp: sem_try_def)

lemma slots_enter:
  assumes "slots_ok w" and "wk_tasks w t = Some k" and "\<not> holds_slot (tk_phase k)"
    and "sem_ok s" and "sm_limit s = sm_limit (wk_sem w)"
    and "set (sm_held s) = insert t (set (sm_held (wk_sem w))) \<and>
           set (sm_sleep s) \<union> set (sm_ready s) = set (sm_sleep (wk_sem w)) \<union> set (sm_ready (wk_sem w)) - {t} \<or>
         set (sm_held s) = set (sm_held (wk_sem w)) \<and>
           set (sm_sleep s) \<union> set (sm_ready s) = insert t (set (sm_sleep (wk_sem w)) \<union> set (sm_ready (wk_sem w)))"
  shows "slots_ok (enter_slot t s w)"
proof -
  have "t \<notin> set (sm_held (wk_sem w))" using assms(1-3) by (auto simp: slots_ok_def)
  with assms show ?thesis
    by (auto simp: slots_ok_def enter_slot_def set_phase_def)
qed

lemma slots_begin:
  assumes "slots_ok w" and "wk_tasks w t = Some k" and "tk_phase k = PNew"
  shows "slots_ok (task_begin loads t k w)"
proof (cases "sleep_ms loads (tk_data k)")
  case (Inl x)
  then show ?thesis using assms by (simp add: task_begin_def slots_end_new)
next
  case (Inr n)
  let ?w = "w\<lparr>wk_tasks := (wk_tasks w)(t \<mapsto> k\<lparr>tk_ms := n\<rparr>)\<rparr>"
  have w: "slots_ok ?w" using assms by (auto simp: slots_ok_def)
  have out: "t \<notin> set (sm_sleep (wk_sem w) @ sm_ready (wk_sem w) @ sm_held (wk_sem w))"
    using assms by (auto simp: slots_ok_def)
  have "sem_ok (sem_try t (wk_sem w))" using assms(1) out by (intro sem_try_ok) (auto simp: slots_ok_def)
  then have "slots_ok (enter_slot t (sem_try t (wk_sem w)) ?w)"
    using assms(3) out sem_try_sets [of t "wk_sem w"] by (intro slots_enter [OF w]) auto
  then show ?thesis using Inr by (simp add: task_begin_def)
qed

lemma slots_wake:
  assumes "slots_ok w" and "wk_tasks w t = Some k" and "tk_phase k = PWait"
    and "t \<in> set (sm_ready (wk_sem w))"
  shows "slots_ok (enter_slot t (sem_wake t (wk_sem w)) w)"
proof -
  let ?s = "(wk_sem w)\<lparr>sm_ready := removeAll t (sm_ready (wk_sem w))\<rparr>"
  have ok: "sem_ok (wk_sem w)" using assms(1) by (simp add: slots_ok_def)
  then have "sem_ok (sem_wake t (wk_sem w))" using assms(4) by (blast intro: sem_step_ok sem_step.wake)
  moreover have "t \<notin> set (sm_sleep (wk_sem w))" using ok assms(4) by (auto simp: sem_ok_def)
  ultimately show ?thesis
    using assms(3,4) sem_try_sets [of t ?s] by (intro slots_enter [OF assms(1,2)]) (auto simp: sem_wake_def)
qed

lemma slots_to_commit:
  assumes "slots_ok w" and "wk_tasks w t = Some k" and "holds_slot (tk_phase k)"
  shows "slots_ok (to_commit t k' w)"
  using assms slots_set_phase [of "w\<lparr>wk_acks := a\<rparr>" t k "PSend 1" for a] slots_leave [OF assms]
  by (auto simp: to_commit_def slots_frame split: sum.split)

lemma slots_finish:
  assumes "slots_ok w" and "wk_tasks w t = Some k" and "holds_slot (tk_phase k)"
  shows "slots_ok (finish_commit t k' w)"
  using assms slots_leave [of "w\<lparr>wk_acks := a\<rparr>" t k for a] slots_leave [OF assms]
  by (auto simp: finish_commit_def slots_frame split: sum.split)

lemma log_send_fields [simp]:
  "wk_tasks (log_send s fr ok w) = wk_tasks w" "wk_acks (log_send s fr ok w) = wk_acks w"
  "wk_sem (log_send s fr ok w) = wk_sem w" "wk_clock (log_send s fr ok w) = wk_clock w"
  "wk_next (log_send s fr ok w) = wk_next w" "wk_up (log_send s fr ok w) = wk_up w"
  "wk_conc (log_send s fr ok w) = wk_conc w" "wk_got (log_send s fr ok w) = wk_got w"
  "wk_set (log_send s fr ok w) = wk_set w" "wk_id (log_send s fr ok w) = wk_id w"
  by (simp_all add: log_send_def)

lemma slots_beat:
  assumes "slots_ok w" and "wk_tasks w t = Some k" and "tk_phase k = PBeat"
  shows "slots_ok (task_beat ok t k w)"
  using assms
  by (auto simp: task_beat_def Let_def slots_frame intro!: slots_to_commit slots_set_phase)

lemma slots_tick:
  assumes "slots_ok w" and "wk_tasks w t = Some k" and "tk_phase k = PSleep u"
  shows "slots_ok (task_tick t k w)"
  using assms by (auto simp: task_tick_def intro!: slots_to_commit slots_set_phase)

lemma slots_send:
  assumes "slots_ok w" and "wk_tasks w t = Some k" and "tk_phase k = PSend n"
  shows "slots_ok (task_send ok n t k w)"
  using assms by (auto simp: task_send_def Let_def slots_frame intro!: slots_finish slots_set_phase)

lemma slots_timeout:
  assumes "slots_ok w" and "wk_tasks w t = Some k" and "tk_phase k = PAck n u"
  shows "slots_ok (task_timeout n t k w)"
  using assms by (auto simp: task_timeout_def intro!: slots_finish slots_set_phase)

lemma slots_cancel: "slots_ok w \<Longrightarrow> slots_ok (cancel_task t w)"
  by (auto simp: cancel_task_def slots_end_new slots_abandon
      intro!: slots_leave slots_finish split: option.split phase.split)

lemma slots_cancel_all: "slots_ok w \<Longrightarrow> slots_ok (fold cancel_task ts w)"
  by (induction ts arbitrary: w) (auto intro: slots_cancel)

lemma slots_drop: "slots_ok w \<Longrightarrow> slots_ok (wk_drop w)"
  by (simp add: wk_drop_def slots_frame slots_cancel_all)

lemma slots_handle: "slots_ok w \<Longrightarrow> wk_handle data w = Inr w' \<Longrightarrow> slots_ok w'"
proof -
  assume ok: "slots_ok w" and h: "wk_handle data w = Inr w'"
  have resize: "slots_ok (w\<lparr>wk_conc := n, wk_sem := sem_set_limit n (wk_sem w)\<rparr>)" for n
  proof -
    have "sem_ok (sem_set_limit n (wk_sem w))"
      using ok by (auto simp: slots_ok_def intro: sem_step_ok sem_step.resize)
    then show ?thesis using ok by (auto simp: slots_ok_def sem_set_limit_def notify_all_def)
  qed
  have new: "slots_ok (w\<lparr>wk_tasks := (wk_tasks w)(wk_next w \<mapsto> k), wk_got := g, wk_next := Suc (wk_next w)\<rparr>)"
    if "tk_phase k = PNew" for k g
    using ok that by (auto simp: slots_ok_def less_Suc_eq)
  show ?thesis
    using h ok resize new
    by (auto simp: wk_handle_def Let_def slots_frame split: sum.splits option.splits if_splits)
qed

lemma slots_message: "slots_ok w \<Longrightarrow> slots_ok (wk_message loads m w)"
  by (auto simp: wk_message_def slots_drop slots_handle split: wsmsg.split option.split sum.split)

lemma slots_do: "slots_ok w \<Longrightarrow> wk_do loads ev w = Some w' \<Longrightarrow> slots_ok w'"
  by (cases ev)
    (auto simp: slots_frame slots_message slots_drop slots_begin slots_wake slots_beat slots_tick slots_send
      slots_finish slots_timeout wk_connect_def Let_def split: option.splits if_splits phase.splits)

section \<open>The events\<close>

lemma acks_frame:
  "acks_ok (w\<lparr>wk_sem := s\<rparr>) = acks_ok w" "acks_ok (w\<lparr>wk_set := e\<rparr>) = acks_ok w"
  "acks_ok (w\<lparr>wk_clock := c\<rparr>) = acks_ok w" "acks_ok (w\<lparr>wk_up := b\<rparr>) = acks_ok w"
  "acks_ok (w\<lparr>wk_got := g\<rparr>) = acks_ok w" "acks_ok (w\<lparr>wk_sent := x\<rparr>) = acks_ok w"
  "acks_ok (w\<lparr>wk_next := n\<rparr>) = acks_ok w" "acks_ok (w\<lparr>wk_conc := i\<rparr>) = acks_ok w"
  "acks_ok (log_send s' fr ok w) = acks_ok w" "acks_ok (leave_slot t w) = acks_ok w"
  by (simp_all add: acks_ok_def log_send_def leave_slot_def)

text \<open>A task that is not committing has no event, so it may change or end.\<close>

lemma acks_other:
  assumes "acks_ok w" and "\<And>k. wk_tasks w t = Some k \<Longrightarrow> \<not> committing (tk_phase k)"
  shows "acks_ok (w\<lparr>wk_tasks := (wk_tasks w)(t := x)\<rparr>)"
  using assms unfolding acks_ok_def by fastforce

lemma acks_stay:
  assumes "acks_ok w" and "wk_tasks w t = Some k" and "committing p"
  shows "acks_ok (set_phase t p w)"
  using assms unfolding acks_ok_def set_phase_def by fastforce

lemma acks_to_commit:
  assumes "acks_ok w" and "wk_tasks w t = Some k" and "\<not> committing (tk_phase k)"
  shows "acks_ok (to_commit t k w)"
proof (cases "hash_key (dget (tk_data k) ''job_id'')")
  case (Inl x)
  then show ?thesis
    using acks_other [of w t None] assms
    by (simp add: to_commit_def end_task_def leave_slot_def) (simp add: acks_ok_def)
next
  case (Inr key)
  have "distinct (map fst (AList.update key t (wk_acks w)))"
    using assms(1) by (intro distinct_update) (simp add: acks_ok_def)
  then show ?thesis
    using assms Inr unfolding acks_ok_def to_commit_def set_phase_def
    by (fastforce simp: update_conv' split: if_splits)
qed

lemma acks_finish:
  assumes "acks_ok w" and "wk_tasks w t = Some k"
  shows "acks_ok (finish_commit t k w)"
proof (cases "hash_key (dget (tk_data k) ''job_id'')")
  case (Inl y)
  have "wk_tasks w e \<noteq> Some k" if "map_of (wk_acks w) key = Some e" for key e
    using assms(1) that Inl by (fastforce simp: acks_ok_def)
  then have "e \<noteq> t" if "map_of (wk_acks w) key = Some e" for key e
    using assms(2) that by blast
  then show ?thesis
    using assms(1) Inl unfolding acks_ok_def finish_commit_def end_task_def leave_slot_def by fastforce
next
  case (Inr key)
  have "distinct (map fst (AList.delete key (wk_acks w)))"
    using assms(1) by (intro distinct_delete) (simp add: acks_ok_def)
  then show ?thesis
    using assms(1,2) Inr unfolding acks_ok_def finish_commit_def end_task_def leave_slot_def
    by (fastforce simp: delete_conv' split: if_splits)
qed

lemma acks_enter:
  assumes "acks_ok w" and "wk_tasks w t = Some k" and "\<not> committing (tk_phase k)"
  shows "acks_ok (enter_slot t s w)"
  using acks_other [of "w\<lparr>wk_sem := s\<rparr>" t] assms
  by (auto simp: enter_slot_def set_phase_def acks_frame)

lemma acks_begin:
  assumes "acks_ok w" and "wk_tasks w t = Some k" and "tk_phase k = PNew"
  shows "acks_ok (task_begin loads t k w)"
  using assms acks_other [of w t]
  by (auto simp: task_begin_def end_task_def intro!: acks_enter split: sum.split)

lemma acks_beat:
  assumes "acks_ok w" and "wk_tasks w t = Some k" and "tk_phase k = PBeat"
  shows "acks_ok (task_beat ok t k w)"
  using assms acks_other [of "log_send s fr b w" t for s fr b]
  by (auto simp: task_beat_def Let_def acks_frame set_phase_def intro!: acks_to_commit)

lemma acks_tick:
  assumes "acks_ok w" and "wk_tasks w t = Some k" and "tk_phase k = PSleep u"
  shows "acks_ok (task_tick t k w)"
  using assms acks_other [of w t] by (auto simp: task_tick_def set_phase_def intro!: acks_to_commit)

lemma acks_send:
  assumes "acks_ok w" and "wk_tasks w t = Some k" and "tk_phase k = PSend n"
  shows "acks_ok (task_send ok n t k w)"
  using assms by (auto simp: task_send_def Let_def acks_frame intro!: acks_finish acks_stay)

lemma acks_timeout:
  assumes "acks_ok w" and "wk_tasks w t = Some k" and "tk_phase k = PAck n u"
  shows "acks_ok (task_timeout n t k w)"
  using assms by (auto simp: task_timeout_def intro!: acks_finish acks_stay)

lemma acks_cancel: "acks_ok w \<Longrightarrow> acks_ok (cancel_task t w)"
  using acks_other [of w t] acks_other [of "w\<lparr>wk_sem := s\<rparr>" t None for s]
  by (auto simp: cancel_task_def acks_finish acks_frame end_task_def leave_slot_def
      split: option.split phase.split)

lemma acks_cancel_all: "acks_ok w \<Longrightarrow> acks_ok (fold cancel_task ts w)"
  by (induction ts arbitrary: w) (auto intro: acks_cancel)

lemma acks_drop: "acks_ok w \<Longrightarrow> acks_ok (wk_drop w)"
  by (simp add: wk_drop_def acks_frame acks_cancel_all)

lemma slots_next: "slots_ok w \<Longrightarrow> wk_next w \<le> t \<Longrightarrow> wk_tasks w t = None"
  by (cases "wk_tasks w t") (force simp: slots_ok_def)+

lemma acks_handle: "slots_ok w \<Longrightarrow> acks_ok w \<Longrightarrow> wk_handle data w = Inr w' \<Longrightarrow> acks_ok w'"
  using acks_other [of w "wk_next w"] slots_next [of w "wk_next w"]
  by (auto simp: wk_handle_def Let_def acks_frame split: sum.splits option.splits if_splits)

lemma acks_message: "slots_ok w \<Longrightarrow> acks_ok w \<Longrightarrow> acks_ok (wk_message loads m w)"
  by (auto simp: wk_message_def acks_drop acks_handle split: wsmsg.split option.split sum.split)

lemma acks_do: "slots_ok w \<Longrightarrow> acks_ok w \<Longrightarrow> wk_do loads ev w = Some w' \<Longrightarrow> acks_ok w'"
  by (cases ev)
    (auto simp: acks_frame acks_message acks_drop acks_begin acks_enter acks_beat acks_tick acks_send
      acks_finish acks_timeout wk_connect_def Let_def split: option.splits if_splits phase.splits)

section \<open>The end of a connection\<close>

lemma cancel_task_tasks [simp]:
  "wk_tasks (cancel_task t w) = (wk_tasks w)(t := None)" "wk_next (cancel_task t w) = wk_next w"
  "wk_clock (cancel_task t w) = wk_clock w" "wk_conc (cancel_task t w) = wk_conc w"
  by (auto simp: cancel_task_def end_task_def leave_slot_def finish_commit_def fun_upd_idem
      split: option.split phase.split sum.split)

lemma cancel_all_tasks:
  "wk_tasks (fold cancel_task ts w) = (\<lambda>t. if t \<in> set ts then None else wk_tasks w t)"
  by (induction ts arbitrary: w) auto

lemma drop_tasks: "slots_ok w \<Longrightarrow> wk_tasks (wk_drop w) = (\<lambda>_. None)"
  by (rule ext) (simp add: wk_drop_def cancel_all_tasks slots_next)

lemma drop_up [simp]: "\<not> wk_up (wk_drop w)"
  by (simp add: wk_drop_def)

text \<open>Only a message, the end of the connection and a connection change whether the socket is up.\<close>

lemma step_up:
  "wk_up (set_phase t p w) = wk_up w" "wk_up (end_task t w) = wk_up w" "wk_up (leave_slot t w) = wk_up w"
  "wk_up (enter_slot t s w) = wk_up w" "wk_up (to_commit t k w) = wk_up w"
  "wk_up (finish_commit t k w) = wk_up w"
  by (auto simp: wk_step_defs enter_slot_def to_commit_def finish_commit_def split: sum.split)

lemma handle_up: "wk_handle data w = Inr w' \<Longrightarrow> wk_up w' = wk_up w"
  by (auto simp: wk_handle_def Let_def split: sum.splits option.splits if_splits)

lemma idle_do:
  assumes "slots_ok w" and "\<not> wk_up w \<longrightarrow> wk_tasks w = (\<lambda>_. None)" and "wk_do loads ev w = Some w'"
  shows "\<not> wk_up w' \<longrightarrow> wk_tasks w' = (\<lambda>_. None)"
  using assms
  by (cases ev)
    (auto simp: wk_message_def wk_connect_def drop_tasks handle_up step_up task_begin_def task_beat_def
      task_tick_def task_send_def task_timeout_def Let_def log_send_def
      split: option.splits if_splits phase.splits wsmsg.splits sum.splits)

lemma wk_ok_new: "wk_ok (wk_new wid n)"
  by (simp add: wk_ok_def slots_ok_def acks_ok_def sem_ok_def sem_new_def wk_new_def)

lemma wk_ok_step: "wk_ok w \<Longrightarrow> wk_step loads w w' \<Longrightarrow> wk_ok w'"
  by (elim wk_stepE) (auto simp: wk_ok_def dest: slots_do acks_do idle_do)

interpretation workers: step_system "wk_new wid n" "wk_step loads" wk_ok for wid n loads
  by unfold_locales (rule wk_ok_new, rule wk_ok_step)

end
