(* ===== verification/WorkerSends.thy ===== *)
theory WorkerSends
  imports WorkerSlots
begin

text \<open>
  What a worker process sends: an invariant of the frames of the present connection, concrete
  runs, and the properties of the worker as a whole.
\<close>

section \<open>What is sent\<close>

definition is_commit :: "json \<Rightarrow> bool" where
  "is_commit fr \<longleftrightarrow> dget fr ''type'' = JStr ''commit''"

text \<open>The commits a task has sent, or tried to send, on this connection.\<close>

definition commits_of :: "nat \<Rightarrow> wproc \<Rightarrow> nat" where
  "commits_of t w = length (filter (\<lambda>(c, s, fr, ok). s = Some t \<and> is_commit fr) (wk_sent w))"

definition send_failed :: "nat \<Rightarrow> wproc \<Rightarrow> bool" where
  "send_failed t w \<longleftrightarrow> (\<exists>(c, s, fr, ok) \<in> set (wk_sent w). s = Some t \<and> \<not> ok)"

definition silent :: "nat \<Rightarrow> wproc \<Rightarrow> bool" where
  "silent t w \<longleftrightarrow> (\<forall>x \<in> set (wk_sent w). fst (snd x) \<noteq> Some t)"

text \<open>Sends that a task in a phase has behind it.\<close>

fun tries :: "phase \<Rightarrow> nat" where
  "tries (PSend n) = n - 1"
| "tries (PAck n u) = n"
| "tries _ = 0"

fun tries_bound :: "phase \<Rightarrow> bool" where
  "tries_bound (PSend n) = (1 \<le> n \<and> n \<le> commit_max_attempts)"
| "tries_bound (PAck n u) = (n \<le> commit_max_attempts)"
| "tries_bound _ = True"

text \<open>
  A frame of task \<open>t\<close>: a heartbeat or the commit for the dispatch the task was started with, and
  the commit's result names the clamped sleep of that dispatch.
\<close>

definition frame_of :: "(string \<Rightarrow> json option) \<Rightarrow> string \<Rightarrow> json \<Rightarrow> json \<Rightarrow> bool" where
  "frame_of loads wid data fr \<longleftrightarrow>
     fr = heartbeat_msg (dget data ''job_id'') (dget data ''fence'') \<or>
     (\<exists>n. sleep_ms loads data = Inr n \<and>
        fr = commit_msg (dget data ''job_id'') (dget data ''fence'') (job_result_msg wid n))"

definition sent_ok :: "(string \<Rightarrow> json option) \<Rightarrow> wproc \<Rightarrow> int \<times> nat option \<times> json \<times> bool \<Rightarrow> bool" where
  "sent_ok loads w x = (case x of (c, s, fr, ok) \<Rightarrow> c \<le> wk_clock w \<and>
     (case s of None \<Rightarrow> True | Some t \<Rightarrow>
        (\<exists>data. wk_got w t = Some data \<and> frame_of loads (wk_id w) data fr)))"

definition task_hist :: "(string \<Rightarrow> json option) \<Rightarrow> wproc \<Rightarrow> nat \<Rightarrow> task \<Rightarrow> bool" where
  "task_hist loads w t k \<longleftrightarrow> wk_got w t = Some (tk_data k) \<and>
     (tk_phase k \<noteq> PNew \<longrightarrow> sleep_ms loads (tk_data k) = Inr (tk_ms k)) \<and>
     commits_of t w = tries (tk_phase k) \<and> tries_bound (tk_phase k) \<and>
     (\<not> holds_slot (tk_phase k) \<longrightarrow> silent t w) \<and>
     (committing (tk_phase k) \<longrightarrow> tk_end k \<le> wk_clock w \<or> send_failed t w)"

definition sends_ok :: "(string \<Rightarrow> json option) \<Rightarrow> wproc \<Rightarrow> bool" where
  "sends_ok loads w \<longleftrightarrow> (\<forall>t k. wk_tasks w t = Some k \<longrightarrow> task_hist loads w t k) \<and>
     (\<forall>x \<in> set (wk_sent w). sent_ok loads w x) \<and> (\<forall>t. commits_of t w \<le> commit_max_attempts) \<and>
     (\<forall>t data. wk_got w t = Some data \<longrightarrow> t < wk_next w \<and> dget data ''type'' = JStr ''dispatch'')"

lemma commits_of_append:
  "wk_sent w' = wk_sent w @ xs \<Longrightarrow> \<forall>x \<in> set xs. fst (snd x) \<noteq> Some t \<Longrightarrow> commits_of t w' = commits_of t w"
  by (auto simp: commits_of_def filter_empty_conv)

lemma send_failed_append: "wk_sent w' = wk_sent w @ xs \<Longrightarrow> send_failed t w \<Longrightarrow> send_failed t w'"
  by (auto simp: send_failed_def)

lemma silent_append:
  "wk_sent w' = wk_sent w @ xs \<Longrightarrow> \<forall>x \<in> set xs. fst (snd x) \<noteq> Some t \<Longrightarrow> silent t w' = silent t w"
  by (auto simp: silent_def)

text \<open>A step that is about one task and only adds to the history.\<close>

lemma sends_step:
  assumes "sends_ok loads w" and "wk_got w' = wk_got w" and "wk_clock w \<le> wk_clock w'"
    and "wk_id w' = wk_id w" and "wk_next w' = wk_next w" and "wk_sent w' = wk_sent w @ xs"
    and "\<And>x. x \<in> set xs \<Longrightarrow> fst (snd x) = Some t \<and> sent_ok loads w' x"
    and "\<And>s. s \<noteq> t \<Longrightarrow> wk_tasks w' s = wk_tasks w s"
    and "\<And>k. wk_tasks w' t = Some k \<Longrightarrow> task_hist loads w' t k"
    and "commits_of t w' \<le> commit_max_attempts"
  shows "sends_ok loads w'"
proof -
  have c: "commits_of s w' = commits_of s w" if "s \<noteq> t" for s
    using assms(6,7) that by (intro commits_of_append) fastforce+
  have q: "silent s w' = silent s w" if "s \<noteq> t" for s
    using assms(6,7) that by (intro silent_append) fastforce+
  have "task_hist loads w' s k" if "wk_tasks w' s = Some k" for s k
  proof (cases "s = t")
    case False
    then have "task_hist loads w s k" using assms(1,8) that by (auto simp: sends_ok_def)
    then show ?thesis
      using c [OF False] q [OF False] assms(2,3) send_failed_append [OF assms(6)] by (auto simp: task_hist_def)
  qed (use that assms(9) in simp)
  moreover have "sent_ok loads w' x" if "x \<in> set (wk_sent w')" for x
    using that assms(1-4,6,7) by (auto simp: sends_ok_def sent_ok_def split: option.splits)
  moreover have "commits_of s w' \<le> commit_max_attempts" for s
    using c [of s] assms(1,10) by (cases "s = t") (auto simp: sends_ok_def)
  ultimately show ?thesis using assms(1,2,5) by (auto simp: sends_ok_def)
qed

lemma msg_kinds [simp]: "\<not> is_commit (heartbeat_msg a b)" "is_commit (commit_msg a b c)"
  by (simp_all add: is_commit_def heartbeat_msg_def commit_msg_def)

lemma end_fields [simp]:
  "wk_got (end_task t w) = wk_got w" "wk_clock (end_task t w) = wk_clock w" "wk_id (end_task t w) = wk_id w"
  "wk_next (end_task t w) = wk_next w" "wk_sent (end_task t w) = wk_sent w"
  "wk_tasks (end_task t w) = (wk_tasks w)(t := None)"
  "wk_got (leave_slot t w) = wk_got w" "wk_clock (leave_slot t w) = wk_clock w"
  "wk_id (leave_slot t w) = wk_id w" "wk_next (leave_slot t w) = wk_next w"
  "wk_sent (leave_slot t w) = wk_sent w" "wk_tasks (leave_slot t w) = wk_tasks w"
  "wk_got (set_phase t p w) = wk_got w" "wk_clock (set_phase t p w) = wk_clock w"
  "wk_id (set_phase t p w) = wk_id w" "wk_next (set_phase t p w) = wk_next w"
  "wk_sent (set_phase t p w) = wk_sent w"
  "wk_tasks (set_phase t p w) = (wk_tasks w)(t := map_option (\<lambda>k. k\<lparr>tk_phase := p\<rparr>) (wk_tasks w t))"
  by (simp_all add: wk_step_defs)

lemma commits_of_frame: "wk_sent w' = wk_sent w \<Longrightarrow> commits_of t w' = commits_of t w"
  by (simp add: commits_of_def)

lemma silent_frame: "wk_sent w' = wk_sent w \<Longrightarrow> silent t w' = silent t w"
  by (simp add: silent_def)

lemma commits_of_log [simp]:
  "commits_of t (log_send s fr ok w) = commits_of t w + (if s = Some t \<and> is_commit fr then 1 else 0)"
  by (simp add: commits_of_def log_send_def)

lemma send_failed_log [simp]:
  "send_failed t (log_send s fr ok w) = (send_failed t w \<or> s = Some t \<and> \<not> ok)"
  by (auto simp: send_failed_def log_send_def)

lemma sends_frame:
  assumes "wk_tasks w' = wk_tasks w" and "wk_got w' = wk_got w" and "wk_clock w \<le> wk_clock w'"
    and "wk_id w' = wk_id w" and "wk_next w' = wk_next w" and "wk_sent w' = wk_sent w" and "sends_ok loads w"
  shows "sends_ok loads w'"
proof (rule sends_step [OF assms(7,2,3,4,5), where xs = "[]" and t = 0])
  show "task_hist loads w' 0 k" if "wk_tasks w' 0 = Some k" for k
  proof -
    have "task_hist loads w 0 k" using assms(1,7) that by (simp add: sends_ok_def)
    then show ?thesis
      using assms(2,3) commits_of_frame [OF assms(6), of 0] silent_frame [OF assms(6), of 0] send_failed_append [of w' w "[]" 0] assms(6)
      by (auto simp: task_hist_def)
  qed
  show "commits_of 0 w' \<le> commit_max_attempts"
    using assms(7) commits_of_frame [OF assms(6), of 0] by (simp add: sends_ok_def)
qed (simp_all add: assms)

text \<open>A task that ends, or goes on without sending.\<close>

lemma sends_end: "sends_ok loads w \<Longrightarrow> sends_ok loads (end_task t w)"
  by (rule sends_step [where xs = "[]" and t = t and w = w])
    (simp_all add: commits_of_frame [of "end_task t w" w] sends_ok_def)

lemma sends_leave: "sends_ok loads w \<Longrightarrow> sends_ok loads (end_task t (leave_slot t w))"
  by (rule sends_end, rule sends_frame [where w = w]) simp_all

lemma sends_acks: "sends_ok loads w \<Longrightarrow> sends_ok loads (w\<lparr>wk_acks := a\<rparr>)"
  by (rule sends_frame [where w = w]) simp_all

lemma sends_sem: "sends_ok loads w \<Longrightarrow> sends_ok loads (w\<lparr>wk_sem := a\<rparr>)"
  by (rule sends_frame [where w = w]) simp_all

lemma sends_finish: "sends_ok loads w \<Longrightarrow> sends_ok loads (finish_commit t k w)"
  by (auto simp: finish_commit_def sends_leave sends_acks split: sum.split)

lemma sends_put:
  assumes "sends_ok loads w" and "\<And>k. x = Some k \<Longrightarrow> task_hist loads w t k"
  shows "sends_ok loads (w\<lparr>wk_tasks := (wk_tasks w)(t := x)\<rparr>)"
proof (rule sends_step [OF assms(1), where xs = "[]" and t = t])
  show "task_hist loads (w\<lparr>wk_tasks := (wk_tasks w)(t := x)\<rparr>) t k"
    if "wk_tasks (w\<lparr>wk_tasks := (wk_tasks w)(t := x)\<rparr>) t = Some k" for k
    using assms(2) [of k] that by (simp add: task_hist_def commits_of_def send_failed_def silent_def)
  show "commits_of t (w\<lparr>wk_tasks := (wk_tasks w)(t := x)\<rparr>) \<le> commit_max_attempts"
    using assms(1) by (simp add: commits_of_def sends_ok_def)
qed simp_all

lemma sends_phase:
  assumes "sends_ok loads w" and "wk_tasks w t = Some k" and "task_hist loads w t (k\<lparr>tk_phase := p\<rparr>)"
  shows "sends_ok loads (set_phase t p w)"
  using sends_put [OF assms(1), of "Some (k\<lparr>tk_phase := p\<rparr>)" t] assms(2,3) by (simp add: set_phase_def)

lemma task_histD: "sends_ok loads w \<Longrightarrow> wk_tasks w t = Some k \<Longrightarrow> task_hist loads w t k"
  by (simp add: sends_ok_def)

text \<open>One more send of task \<open>t\<close>, after which it is taken out of the table for the moment.\<close>

lemma sends_log:
  assumes "sends_ok loads w" and "wk_got w t = Some data" and "frame_of loads (wk_id w) data fr"
    and "commits_of t w < commit_max_attempts" and "w' = log_send (Some t) fr ok w"
    and "\<And>k. wk_tasks w t = Some k \<Longrightarrow> task_hist loads w' t (f k)"
  shows "sends_ok loads (w'\<lparr>wk_tasks := (wk_tasks w)(t := map_option f (wk_tasks w t))\<rparr>)" (is "sends_ok _ ?v")
proof (rule sends_step [OF assms(1), where xs = "[(wk_clock w, Some t, fr, ok)]" and t = t])
  show "task_hist loads ?v t k" if "wk_tasks ?v t = Some k" for k
    using that assms(6) by (auto simp: task_hist_def commits_of_def send_failed_def silent_def)
  have "commits_of t ?v = commits_of t w'" by (simp add: commits_of_def)
  then show "commits_of t ?v \<le> commit_max_attempts" using assms(4,5) by simp
qed (use assms in \<open>auto simp: log_send_def sent_ok_def\<close>)

lemma sends_to_commit:
  assumes "sends_ok loads w" and "wk_tasks w t = Some k" and "\<not> committing (tk_phase k)"
    and "tk_phase k \<noteq> PNew" and "tk_end k \<le> wk_clock w \<or> send_failed t w"
  shows "sends_ok loads (to_commit t k w)"
proof -
  have "task_hist loads w t (k\<lparr>tk_phase := PSend 1\<rparr>)"
    using task_histD [OF assms(1,2)] assms(3-5)
    by (cases "tk_phase k") (auto simp: task_hist_def commit_max_attempts_def)
  then have "task_hist loads (w\<lparr>wk_acks := a\<rparr>) t (k\<lparr>tk_phase := PSend 1\<rparr>)" for a
    by (simp add: task_hist_def commits_of_def send_failed_def silent_def)
  then have "sends_ok loads (set_phase t (PSend 1) (w\<lparr>wk_acks := a\<rparr>))" for a
    using assms(1,2) by (intro sends_phase [of loads _ t k]) (simp_all add: sends_acks)
  then show ?thesis using assms(1) by (auto simp: to_commit_def sends_leave split: sum.split)
qed

lemma sends_enter:
  assumes "sends_ok loads w" and "wk_tasks w t = Some k" and "\<not> holds_slot (tk_phase k)"
    and "sleep_ms loads (tk_data k) = Inr (tk_ms k)"
  shows "sends_ok loads (enter_slot t s w)"
proof -
  have none: "tries (tk_phase k) = 0" using assms(3) by (cases "tk_phase k") simp_all
  let ?w = "w\<lparr>wk_sem := s\<rparr>"
  have h: "task_hist loads ?w t (k\<lparr>tk_phase := p, tk_end := e\<rparr>)" "task_hist loads ?w t (k\<lparr>tk_phase := p\<rparr>)"
    if "p = PBeat \<or> p = PWait" for p e
    using task_histD [OF assms(1,2)] that assms(3,4) none
    by (auto simp: task_hist_def commits_of_def send_failed_def silent_def)
  have w: "sends_ok loads ?w" using assms(1) by (rule sends_sem)
  have "sends_ok loads (?w\<lparr>wk_tasks := (wk_tasks ?w)(t \<mapsto> k\<lparr>tk_phase := PBeat, tk_end := wk_clock w + tk_ms k\<rparr>)\<rparr>)"
    using h(1) by (intro sends_put [OF w]) auto
  moreover have "sends_ok loads (set_phase t PWait ?w)"
    using assms(2) h(2) by (intro sends_phase [OF w, of t k]) auto
  ultimately show ?thesis using assms(2) by (simp add: enter_slot_def)
qed

lemma sends_begin:
  assumes "sends_ok loads w" and "wk_tasks w t = Some k" and "tk_phase k = PNew"
  shows "sends_ok loads (task_begin loads t k w)"
proof (cases "sleep_ms loads (tk_data k)")
  case (Inr n)
  have "task_hist loads w t (k\<lparr>tk_ms := n\<rparr>)"
    using task_histD [OF assms(1,2)] assms(3) by (simp add: task_hist_def)
  then have "sends_ok loads (w\<lparr>wk_tasks := (wk_tasks w)(t \<mapsto> k\<lparr>tk_ms := n\<rparr>)\<rparr>)"
    using assms(1) by (intro sends_put) auto
  then show ?thesis
    using assms(3) Inr by (auto simp: task_begin_def intro!: sends_enter [where k = "k\<lparr>tk_ms := n\<rparr>"])
qed (use assms in \<open>simp add: task_begin_def sends_end\<close>)

lemma sends_wake:
  assumes "sends_ok loads w" and "wk_tasks w t = Some k" and "tk_phase k = PWait"
  shows "sends_ok loads (enter_slot t s w)"
  using task_histD [OF assms(1,2)] assms(3)
  by (intro sends_enter [OF assms(1,2)]) (simp_all add: task_hist_def)

lemma sends_beat:
  assumes "sends_ok loads w" and "wk_tasks w t = Some k" and "tk_phase k = PBeat"
  shows "sends_ok loads (task_beat ok t k w)"
proof -
  let ?fr = "heartbeat_msg (dget (tk_data k) ''job_id'') (dget (tk_data k) ''fence'')"
  let ?w = "log_send (Some t) ?fr ok w"
  have h: "task_hist loads w t k" using assms(1,2) by (rule task_histD)
  have "sends_ok loads (?w\<lparr>wk_tasks := (wk_tasks w)(t := map_option id (wk_tasks w t))\<rparr>)"
    using assms h
    by (intro sends_log [where fr = ?fr and data = "tk_data k" and ok = ok])
      (auto simp: task_hist_def frame_of_def commit_max_attempts_def)
  moreover have "?w\<lparr>wk_tasks := (wk_tasks w)(t := map_option id (wk_tasks w t))\<rparr> = ?w"
    by (cases w) (simp add: log_send_def option.map_id)
  ultimately have w: "sends_ok loads ?w" by simp
  have "sends_ok loads (set_phase t (PSleep u) ?w)" for u
    using h assms(2,3) by (intro sends_phase [OF w]) (auto simp: task_hist_def)
  moreover have "sends_ok loads (to_commit t k ?w)" if "\<not> ok \<or> tk_end k \<le> wk_clock w"
    using assms(2,3) that by (intro sends_to_commit [OF w]) auto
  ultimately show ?thesis by (auto simp: task_beat_def Let_def)
qed

lemma sends_tick:
  assumes "sends_ok loads w" and "wk_tasks w t = Some k" and "tk_phase k = PSleep u"
  shows "sends_ok loads (task_tick t k w)"
proof -
  have "sends_ok loads (set_phase t PBeat w)"
    using task_histD [OF assms(1,2)] assms(3) by (intro sends_phase [OF assms(1,2)]) (simp add: task_hist_def)
  then show ?thesis
    using assms by (auto simp: task_tick_def intro!: sends_to_commit [OF assms(1,2)])
qed

lemma sends_send:
  assumes "sends_ok loads w" and "wk_tasks w t = Some k" and "tk_phase k = PSend n"
  shows "sends_ok loads (task_send ok n t k w)"
proof -
  let ?fr = "commit_msg (dget (tk_data k) ''job_id'') (dget (tk_data k) ''fence'') (job_result_msg (wk_id w) (tk_ms k))"
  let ?w = "log_send (Some t) ?fr ok w" and ?p = "PAck n (wk_clock w + ack_timeout_ms)"
  have h: "task_hist loads w t k" using assms(1,2) by (rule task_histD)
  have "sends_ok loads (?w\<lparr>wk_tasks := (wk_tasks w)(t := map_option (\<lambda>k. k\<lparr>tk_phase := ?p\<rparr>) (wk_tasks w t))\<rparr>)"
    using assms h
    by (intro sends_log [where fr = ?fr and data = "tk_data k" and ok = ok])
      (auto simp: task_hist_def frame_of_def)
  then have v: "sends_ok loads (set_phase t ?p ?w)" by (simp add: set_phase_def)
  have "finish_commit t k (set_phase t ?p ?w) = finish_commit t k ?w"
    by (simp add: finish_commit_def wk_step_defs split: sum.split)
  then show ?thesis using v sends_finish [OF v, of t k] by (cases ok) (simp_all add: task_send_def Let_def)
qed

lemma sends_timeout:
  assumes "sends_ok loads w" and "wk_tasks w t = Some k" and "tk_phase k = PAck n u"
  shows "sends_ok loads (task_timeout n t k w)"
  using task_histD [OF assms(1,2)] assms(3)
  by (auto simp: task_timeout_def task_hist_def intro!: sends_finish [OF assms(1)] sends_phase [OF assms(1,2)])

lemma sends_cancel: "sends_ok loads w \<Longrightarrow> sends_ok loads (cancel_task t w)"
  by (auto simp: cancel_task_def sends_end sends_leave sends_finish sends_sem split: option.split phase.split)

lemma sends_drop: "sends_ok loads w \<Longrightarrow> sends_ok loads (wk_drop w)"
proof -
  have "sends_ok loads (fold cancel_task ts v)" if "sends_ok loads v" for ts v
    using that by (induction ts arbitrary: v) (auto intro: sends_cancel)
  then show "sends_ok loads (wk_drop w)" if "sends_ok loads w"
    using that by (intro sends_frame [of "wk_drop w" "fold cancel_task [0..<wk_next w] w"]) (simp_all add: wk_drop_def)
qed

lemma sends_new:
  assumes "sends_ok loads w" and "wk_tasks w (wk_next w) = None"
    and "dget data ''type'' = JStr ''dispatch''"
  shows "sends_ok loads (w\<lparr>wk_tasks := (wk_tasks w)(wk_next w \<mapsto> \<lparr>tk_data = data, tk_phase = PNew, tk_ms = 0, tk_end = 0\<rparr>),
     wk_got := (wk_got w)(wk_next w \<mapsto> data), wk_next := Suc (wk_next w)\<rparr>)" (is "sends_ok _ ?w")
proof -
  let ?n = "wk_next w"
  have none: "wk_got w ?n = None" using assms(1) by (cases "wk_got w ?n") (force simp: sends_ok_def)+
  have old: "s \<noteq> Some ?n" if "(c, s, fr, ok) \<in> set (wk_sent w)" for c s fr ok
    using assms(1) that none by (fastforce simp: sends_ok_def sent_ok_def)
  then have "filter (\<lambda>(c, s, fr, ok). s = Some ?n \<and> is_commit fr) (wk_sent w) = []"
    by (auto simp: filter_empty_conv)
  then have zero: "commits_of ?n w = 0" by (simp add: commits_of_def)
  have mute: "silent ?n w" using old by (force simp: silent_def)
  have c: "commits_of t ?w = commits_of t w" "send_failed t ?w = send_failed t w" "silent t ?w = silent t w" for t
    by (simp_all add: commits_of_def send_failed_def silent_def)
  have hist: "task_hist loads ?w t k" if "wk_tasks ?w t = Some k" for t k
    using that assms(1) none zero mute c by (auto simp: sends_ok_def task_hist_def split: if_splits)
  have sent: "sent_ok loads ?w x" if "x \<in> set (wk_sent w)" for x
    using that assms(1) old by (fastforce simp: sends_ok_def sent_ok_def split: option.splits)
  have got: "t < wk_next ?w \<and> dget x ''type'' = JStr ''dispatch''" if "wk_got ?w t = Some x" for t x
  proof (cases "t = ?n")
    case False
    then show ?thesis using that assms(1) by (auto simp: sends_ok_def less_Suc_eq)
  qed (use that assms(3) in auto)
  show ?thesis
    unfolding sends_ok_def using hist sent got c assms(1) by (simp add: sends_ok_def)
qed

lemma sends_handle:
  assumes "slots_ok w" and "sends_ok loads w" and "wk_handle data w = Inr w'"
  shows "sends_ok loads w'"
  using assms(3) sends_new [OF assms(2) slots_next [OF assms(1)]] assms(2)
  by (auto simp: wk_handle_def Let_def split: sum.splits option.splits if_splits
      intro: sends_frame [of _ w])

lemma sends_message: "slots_ok w \<Longrightarrow> sends_ok loads w \<Longrightarrow> sends_ok loads (wk_message loads m w)"
  by (auto simp: wk_message_def sends_drop intro: sends_handle split: wsmsg.split option.split sum.split)

lemma sends_connect:
  assumes "wk_tasks w = (\<lambda>_. None)"
  shows "sends_ok loads (wk_connect ok w)"
  using assms by (simp add: wk_connect_def log_send_def Let_def sends_ok_def sent_ok_def commits_of_def)

lemma sends_do:
  assumes "wk_ok w" and "sends_ok loads w" and "wk_do loads ev w = Some w'"
  shows "sends_ok loads w'"
proof (cases ev)
  case (EElapse n)
  then show ?thesis using assms by (auto intro: sends_frame [of _ w])
qed (use assms in \<open>auto simp: wk_ok_def sends_message sends_drop sends_begin sends_wake sends_beat sends_tick
    sends_send sends_finish sends_timeout sends_connect split: option.splits if_splits phase.splits\<close>)

lemma sends_ok_new: "sends_ok loads (wk_new wid n)"
  by (simp add: sends_ok_def wk_new_def commits_of_def)

interpretation senders: step_system "wk_new wid n" "wk_step loads" "\<lambda>w. wk_ok w \<and> sends_ok loads w" for wid n loads
  by unfold_locales
    (auto simp: wk_ok_new sends_ok_new intro: wk_ok_step sends_do elim!: wk_stepE [where P = "sends_ok _ _"])

section \<open>Concrete runs\<close>

text \<open>Texts that decode to two dispatches of one job, a third job, and a rejection.\<close>

definition demo_dispatch :: "string \<Rightarrow> int \<Rightarrow> json" where
  "demo_dispatch j f = JObj [(''type'', JStr ''dispatch''), (''job_id'', JStr j), (''fence'', JInt f),
     (''payload'', JObj [(''sleep_ms'', JInt 0)])]"

definition demo_loads :: "string \<Rightarrow> json option" where
  "demo_loads s =
     (if s = ''j1'' then Some (demo_dispatch ''j'' 1)
      else if s = ''j2'' then Some (demo_dispatch ''j'' 2)
      else if s = ''k3'' then Some (demo_dispatch ''k'' 3)
      else if s = ''no'' then Some (JObj [(''type'', JStr ''commit_rejected''), (''job_id'', JStr ''j'')])
      else None)"

text \<open>A task that gets a slot, works without delay and sends its first commit.\<close>

definition to_first_commit :: "nat \<Rightarrow> wevent list" where
  "to_first_commit t = [EBegin t, EBeat t True, ESend t True]"

definition two_commits :: "wevent list" where
  "two_commits = [EConnect True, EMessage (WText ''j1''), EMessage (WText ''j2'')] @
     to_first_commit 0 @ to_first_commit 1"

definition resend :: "nat \<Rightarrow> wevent list" where
  "resend t = [EElapse 2000, ETimeout t, ESend t True]"

definition blocked :: "wevent list" where
  "blocked = [EConnect True, EMessage (WText ''j1'')] @ to_first_commit 0 @
     [EMessage (WText ''k3''), EBegin 1] @ concat (replicate 7 (resend 0))"

definition two_committing :: wproc where
  "two_committing = the (wk_run demo_loads two_commits (wk_new ''w'' 2))"

definition blocked_worker :: wproc where
  "blocked_worker = the (wk_run demo_loads blocked (wk_new ''w'' 1))"

lemma two_committing_reached: "(wk_step demo_loads)\<^sup>*\<^sup>* (wk_new ''w'' 2) two_committing"
proof -
  have "wk_run demo_loads two_commits (wk_new ''w'' 2) \<noteq> None" by code_simp
  then show ?thesis unfolding two_committing_def by (intro wk_run_steps [of _ two_commits]) auto
qed

lemma two_committing_tasks:
  "wk_tasks two_committing 0 = Some \<lparr>tk_data = demo_dispatch ''j'' 1, tk_phase = PAck 1 2000, tk_ms = 0, tk_end = 0\<rparr>"
  "wk_tasks two_committing 1 = Some \<lparr>tk_data = demo_dispatch ''j'' 2, tk_phase = PAck 1 2000, tk_ms = 0, tk_end = 0\<rparr>"
  by code_simp+

section \<open>Properties\<close>

text \<open>
  C18. The slots of a worker are exact. Whatever frames arrive, sends fail, timers fire, limits
  change and connections end, in any order: the count of the semaphore is the number of tasks
  past it, its limit is the configured concurrency, and a worker without a connection has no
  task, no slot taken and no acknowledgement event left, so that the next connection starts with
  its full capacity.
\<close>

theorem worker_slots_exact:
  assumes "(wk_step loads)\<^sup>*\<^sup>* (wk_new wid n) w"
  shows "sm_use (wk_sem w) = int (card {t. \<exists>k. wk_tasks w t = Some k \<and> holds_slot (tk_phase k)}) \<and>
    sm_limit (wk_sem w) = max 0 (wk_conc w) \<and>
    (wk_up w \<or> wk_tasks w = (\<lambda>_. None) \<and> sm_use (wk_sem w) = 0 \<and> wk_acks w = [])"
proof -
  have ok: "slots_ok w" "acks_ok w" "\<not> wk_up w \<longrightarrow> wk_tasks w = (\<lambda>_. None)"
    using workers.ok_reachable [OF assms] by (simp_all add: wk_ok_def)
  have "set (sm_held (wk_sem w)) = {t. \<exists>k. wk_tasks w t = Some k \<and> holds_slot (tk_phase k)}"
    using ok(1) by (auto simp: slots_ok_def)
  moreover have "distinct (sm_held (wk_sem w))" "sm_use (wk_sem w) = int (length (sm_held (wk_sem w)))"
    using ok(1) by (auto simp: slots_ok_def sem_ok_def)
  ultimately have use: "sm_use (wk_sem w) = int (card {t. \<exists>k. wk_tasks w t = Some k \<and> holds_slot (tk_phase k)})"
    by (metis distinct_card)
  have "wk_acks w = []" if none: "wk_tasks w = (\<lambda>_. None)"
  proof (cases "wk_acks w")
    case (Cons a as)
    then have "map_of (wk_acks w) (fst a) = Some (snd a)" by (cases a) simp
    then show ?thesis using ok(2) none by (fastforce simp: acks_ok_def)
  qed
  then show ?thesis using use ok by (auto simp: slots_ok_def)
qed

theorem worker_slots_exact_witness:
  "sm_use (wk_sem two_committing) = 2 \<and> sm_limit (wk_sem two_committing) = 2 \<and>
   wk_tasks (wk_drop two_committing) = (\<lambda>_. None) \<and> sm_use (wk_sem (wk_drop two_committing)) = 0"
proof -
  have "wk_up two_committing" by code_simp
  then have "wk_step demo_loads two_committing (wk_drop two_committing)" by (intro wk_step.step [where ev = EEnd]) simp
  then have "(wk_step demo_loads)\<^sup>*\<^sup>* (wk_new ''w'' 2) (wk_drop two_committing)"
    using two_committing_reached by (rule rtranclp.rtrancl_into_rtrancl [rotated])
  note this [THEN worker_slots_exact]
  moreover have "sm_use (wk_sem two_committing) = 2" "sm_limit (wk_sem two_committing) = 2" by code_simp+
  ultimately show ?thesis by simp
qed

text \<open>
  C19. What a worker sends is what it was given. Every frame of a task on a connection carries job
  and fence of a dispatch received on that connection, a commit's result names the clamped sleep
  of that dispatch; a dispatch never leads to more than eight commits; a task commits only when
  its sleep is over or one of its sends had failed; and until it gets a slot a task sends nothing.
\<close>

theorem worker_sends_own_work:
  assumes "(wk_step loads)\<^sup>*\<^sup>* (wk_new wid n) w"
  shows "list_all (\<lambda>(c, s, fr, ok). case s of None \<Rightarrow> True | Some t \<Rightarrow>
      \<exists>data. wk_got w t = Some data \<and> dget data ''type'' = JStr ''dispatch'' \<and>
        frame_of loads (wk_id w) data fr) (wk_sent w) \<and>
    commits_of t w \<le> 8 \<and>
    (case wk_tasks w t of None \<Rightarrow> True | Some k \<Rightarrow>
       (\<not> committing (tk_phase k) \<or> tk_end k \<le> wk_clock w \<or> send_failed t w) \<and>
       (holds_slot (tk_phase k) \<or> silent t w))"
proof -
  have ok: "sends_ok loads w" using senders.ok_reachable [OF assms] by simp
  then have "sent_ok loads w x" if "x \<in> set (wk_sent w)" for x using that by (simp add: sends_ok_def)
  moreover have "dget data ''type'' = JStr ''dispatch''" if "wk_got w s = Some data" for s data
    using ok that by (simp add: sends_ok_def)
  ultimately show ?thesis
    using ok task_histD [OF ok]
    by (fastforce simp: list_all_iff sent_ok_def sends_ok_def commit_max_attempts_def task_hist_def split: option.splits)
qed

theorem worker_sends_own_work_witness:
  "commits_of 0 two_committing = 1 \<and> commits_of 0 two_committing \<le> 8 \<and> \<not> silent 0 two_committing"
proof -
  have "commits_of 0 two_committing = 1" "\<not> silent 0 two_committing" by code_simp+
  then show ?thesis using worker_sends_own_work [OF two_committing_reached, of 0] by simp
qed

text \<open>
  Acknowledgements are kept per job and not per fence. When two tasks of a worker commit the
  same job, under an old and a new lease, an answer to one of them, whichever fence it was for,
  wakes at most one; and when one of the two ends, no later answer can wake the other, which
  resends until it gives up.
\<close>

theorem acks_are_per_job:
  assumes "(wk_step loads)\<^sup>*\<^sup>* (wk_new wid n) w"
    and "wk_tasks w t = Some k" and "committing (tk_phase k)"
    and "wk_tasks w t' = Some k'" and "committing (tk_phase k')" and "t \<noteq> t'"
    and "hash_key (dget (tk_data k) ''job_id'') = Inr key" and "hash_key (dget (tk_data k') ''job_id'') = Inr key"
    and "dget data ''type'' = JStr ''ack'' \<or> dget data ''type'' = JStr ''commit_rejected''"
    and "hash_key (dget data ''job_id'') = Inr key" and "is_dict data"
  shows "(\<exists>w'. wk_handle data w = Inr w' \<and>
      (t \<notin> set (wk_set w') - set (wk_set w) \<or> t' \<notin> set (wk_set w') - set (wk_set w))) \<and>
    wk_handle data (finish_commit t k w) = Inr (finish_commit t k w)"
proof -
  have d: "distinct (map fst (wk_acks w))"
    using workers.ok_reachable [OF assms(1)] by (simp add: wk_ok_def acks_ok_def)
  obtain kvs where kvs: "data = JObj kvs" using assms(11) by (cases data) simp_all
  have "map_of (wk_acks (finish_commit t k w)) key = None"
    using assms(7) d by (simp add: finish_commit_def wk_step_defs delete_conv')
  then show ?thesis
    using assms(6,9,10) kvs by (auto simp: wk_handle_def Let_def split: option.split)
qed

text \<open>
  The run of \<open>two_committing\<close>: job \<open>j\<close> under fence 1 and again under fence 2. The rejection of fence
  1 ends the wait of the task that holds fence 2, and the other one is not answered any more.
\<close>

theorem acks_are_per_job_witness:
  "map_option (\<lambda>w. (wk_tasks w 1 = None, map_option tk_phase (wk_tasks w 0), wk_acks w))
     (wk_run demo_loads [EMessage (WText ''no''), EConfirmed 1] two_committing) =
     Some (True, Some (PAck 1 2000), []) \<and>
   (let no = JObj [(''type'', JStr ''commit_rejected''), (''job_id'', JStr ''j'')];
        w = finish_commit 1 (the (wk_tasks two_committing 1)) two_committing
    in wk_handle no w = Inr w)"
proof
  show "map_option (\<lambda>w. (wk_tasks w 1 = None, map_option tk_phase (wk_tasks w 0), wk_acks w))
     (wk_run demo_loads [EMessage (WText ''no''), EConfirmed 1] two_committing) =
     Some (True, Some (PAck 1 2000), [])"
    by code_simp
  show "let no = JObj [(''type'', JStr ''commit_rejected''), (''job_id'', JStr ''j'')];
        w = finish_commit 1 (the (wk_tasks two_committing 1)) two_committing
    in wk_handle no w = Inr w"
    using acks_are_per_job [OF two_committing_reached two_committing_tasks(2) _ two_committing_tasks(1), of "JStr ''j''"
        "JObj [(''type'', JStr ''commit_rejected''), (''job_id'', JStr ''j'')]"]
    by (simp add: two_committing_tasks two_committing_tasks(2) [unfolded One_nat_def] demo_dispatch_def)
qed

end
