(* ===== verification/Delivery.thy ===== *)
theory Delivery
  imports WorkerProc Interleaving
begin

text \<open>
  From the queue to the committed result: what a dispatch round does to the workers' slots and
  to the queue, how a dead worker's job comes back, which commits are accepted, and the
  worker's retry loop run against the coordinator with the \<open>drop_acks\<close> fault active.
\<close>

section \<open>Slots\<close>

lemma gate_upd_conn [simp]: "gate mt (upd_conn a f co) = gate mt co"
  by (simp add: gate_def is_partitioned_def)

lemma gate_rates_incr [simp]: "gate mt (rates_incr ok sec ev n co) = gate mt co"
  by (simp add: gate_def is_partitioned_def)

lemma reg_all_upd_conn: "reg_all (upd_conn a f co) = reg_all co"
  by (simp add: reg_all_def)

lemma gate_ws_send [simp]: "gate mt (ws_send ok a fr co) = gate mt co"
  by (simp add: gate_def is_partitioned_def)

definition load :: "coord \<Rightarrow> nat \<Rightarrow> int" where
  "load co a = int (length (w_inflight (co_conns co a)))"

definition limit_of :: "coord \<Rightarrow> nat \<Rightarrow> int" where
  "limit_of co a = w_limit (co_conns co a)"

lemma load_inflight_add: "length (w_inflight (inflight_add j s)) \<le> length (w_inflight s) + 1"
  by (simp add: inflight_add_def List.insert_def)

lemma load_inflight_discard: "length (w_inflight (inflight_discard j s)) \<le> length (w_inflight s)"
  by (simp add: inflight_discard_def removeAll_filter_not_eq)

lemma load_add_discard:
  "length (w_inflight (inflight_discard j (inflight_add j s))) \<le> length (w_inflight s)"
  by (simp add: inflight_discard_def inflight_add_def removeAll_filter_not_eq List.insert_def)

lemma inflight_limit [simp]:
  "w_limit (inflight_add j s) = w_limit s" "w_limit (inflight_discard j s) = w_limit s"
  by (simp_all add: inflight_add_def inflight_discard_def)

lemma claim_one_load:
  assumes "claim_one e a co d = (r, co', d')" and "has_capacity (co_conns co a)"
  shows "limit_of co' b = limit_of co b \<and> load co' b \<le> max (load co b) (limit_of co b) \<and>
    co_reg co' = co_reg co"
proof (cases rule: claim_one_cases [of e co a d])
  case (pushed p)
  then show ?thesis
    using assms load_inflight_add [of "j_id p" "co_conns co a"]
    by (auto simp: ws_send_def limit_of_def load_def has_capacity_def)
next
  case (lost p)
  then show ?thesis
    using assms load_add_discard [of "j_id p" "co_conns co a"]
    by (auto simp: limit_of_def load_def)
qed (use assms in auto)

definition within_limits :: "coord \<Rightarrow> coord \<Rightarrow> bool" where
  "within_limits co co' \<longleftrightarrow>
     (\<forall>b. limit_of co' b = limit_of co b \<and> load co' b \<le> max (load co b) (limit_of co b))"

lemma within_limits_trans: "within_limits a b \<Longrightarrow> within_limits b c \<Longrightarrow> within_limits a c"
  unfolding within_limits_def by (metis (no_types, lifting) max.bounded_iff max.cobounded2 max_def order_trans)

lemma claim_loop_load: "claim_loop fuel es k a co d = Some (r, co', d') \<Longrightarrow> within_limits co co'"
proof (induction fuel arbitrary: k co d)
  case (Suc fuel)
  show ?case
  proof (cases "has_capacity (co_conns co a)")
    case True
    obtain r1 co1 d1 where c: "claim_one (es k) a co d = (r1, co1, d1)" by (metis surj_pair)
    have w: "within_limits co co1" using claim_one_load [OF c True] by (simp add: within_limits_def)
    show ?thesis
    proof (cases "r1 = Inr True")
      case True
      then show ?thesis
        using Suc c w \<open>has_capacity (co_conns co a)\<close> by (auto intro: within_limits_trans)
    next
      case False
      then have "co' = co1" using Suc.prems c \<open>has_capacity (co_conns co a)\<close>
        by (auto split: sum.splits bool.splits)
      then show ?thesis using w by simp
    qed
  next
    case False
    then show ?thesis using Suc.prems by (simp add: within_limits_def)
  qed
qed simp

lemma round_loop_load: "round_loop es k as co d = Some (r, co', d') \<Longrightarrow> within_limits co co'"
proof (induction as arbitrary: k co d)
  case Nil
  then show ?case by (simp add: within_limits_def)
next
  case (Cons a as)
  then show ?case
    by (auto simp del: claim_loop.simps split: option.splits sum.splits
        dest!: claim_loop_load) (metis within_limits_trans)
qed

text \<open>A worker whose socket is dead but still registered: every push fails.\<close>

lemma dead_claims:
  assumes "num_pending d < fuel" and "\<And>k. gate (e_mono (es k)) co = None" and "\<And>k. e_locked (es k) = []"
    and "\<And>k. \<not> e_send (es k)" and "has_capacity (co_conns co a)"
  shows "\<exists>n co' d'. claim_loop fuel es k a co d = Some (Inr n, co', d') \<and> num_pending d' = 0 \<and>
    w_sent (co_conns co' a) = w_sent (co_conns co a)"
  using assms
proof (induction fuel arbitrary: k co d)
  case (Suc fuel)
  show ?case
  proof (cases rule: claim_one_cases [of "es k" co a d])
    case empty
    then have "num_pending d = 0"
      using Suc.prems(3) [of k] by (auto simp: pick_pending_None num_pending_def filter_empty_conv)
    then show ?thesis using empty Suc.prems(5) by simp
  next
    case (lost r)
    let ?co = "upd_conn a (inflight_discard (j_id r)) (upd_conn a (inflight_add (j_id r)) co)"
      and ?d = "leased_db (es k) (co_ttl co) (co_id co) (j_id r) (w_id (co_conns co a)) d"
    have "num_pending ?d < num_pending d"
      using lost(2) by (intro num_pending_leased) (auto dest: pick_pending_mem)
    moreover have "has_capacity (co_conns ?co a)"
      using Suc.prems(5) load_add_discard [of "j_id r" "co_conns co a"] by (simp add: has_capacity_def)
    ultimately have "\<exists>n co' d'. claim_loop fuel es (Suc k) a ?co ?d = Some (Inr n, co', d') \<and>
        num_pending d' = 0 \<and> w_sent (co_conns co' a) = w_sent (co_conns ?co a)"
      using Suc.prems by (intro Suc.IH) simp_all
    then show ?thesis
      using lost Suc.prems(5) by (simp add: inflight_add_def inflight_discard_def)
  qed (use Suc.prems(2,4) [of k] in simp_all)
qed simp

section \<open>Properties of the dispatch round\<close>


text \<open>
  C23. A claim takes the oldest pending job that no other transaction holds, and hands it out
  under a fence and an issue time above all that were issued before, with a live lease that
  expires one time to live later.
\<close>

theorem claim_takes_oldest:
  assumes "core_inv d" and "claim_tx e ttl coord w d = (Some (j, pl, f), d')"
  shows "(job_state j d = Some Pending \<and> job_state j d' = Some Leased \<and> j \<notin> set (e_locked e)) \<and>
    (\<exists>r \<in> set (jobs d). j_id r = j \<and> j_payload r = pl \<and>
      (\<forall>r' \<in> set (jobs d). j_state r' = Pending \<and> j_id r' \<notin> set (e_locked e) \<longrightarrow> j_created r \<le> j_created r')) \<and>
    (\<exists>l. latest_lease j d' = Some l \<and> l_fence l = f \<and> l_worker l = w \<and> l_expired l = None \<and>
      l_expires l = l_issued l + ttl \<and> (\<forall>l' \<in> set (leases d). l_fence l' < f \<and> l_issued l' < l_issued l))"
proof -
  obtain r where p: "pick_pending (e_locked e) d = Some r" and r: "j = j_id r" "pl = j_payload r" "f = fence_seq d + 1"
    and d': "d' = leased_db e ttl coord j w d"
    using assms(2) by (cases rule: claim_tx_cases [of e d ttl coord w]) auto
  have pend: "job_state j d = Some Pending" using picked_pending [OF assms(1) p] r by simp
  have 1: "job_state j d = Some Pending \<and> job_state j d' = Some Leased \<and> j \<notin> set (e_locked e)"
    using pend pick_pending_mem [OF p] by (simp add: d' r leased_db_fields row_simps)
  have 2: "\<exists>r \<in> set (jobs d). j_id r = j \<and> j_payload r = pl \<and>
      (\<forall>r' \<in> set (jobs d). j_state r' = Pending \<and> j_id r' \<notin> set (e_locked e) \<longrightarrow> j_created r \<le> j_created r')"
    using pick_pending_mem [OF p] pick_pending_oldest [OF p] r by auto
  have old: "\<forall>l' \<in> set (leases d). l_fence l' < f \<and> l_issued l' < max (e_ms e 0) (fence_clock d + 1)"
    using core_invD(2) [OF assms(1)] by (force simp: fences_ok_def r)
  have inv': "core_inv d'" unfolding d' using assms(1) pend by (rule leased_core)
  have "max_fence j d' = Some f" unfolding d' max_fence_leased [OF assms(1)] by (simp add: r)
  then obtain l where l: "latest_lease j d' = Some l" "l_fence l = f" by (auto simp: max_fence_def)
  have "l \<in> set (leases d')" using latest_lease_mem [OF l(1)] by simp
  then have "l = \<lparr>l_id = ls_seq d + 1, l_job = j, l_fence = f, l_worker = w,
      l_issued = max (e_ms e 0) (fence_clock d + 1), l_expires = max (e_ms e 0) (fence_clock d + 1) + ttl,
      l_expired = None\<rparr>"
    using l(2) old by (auto simp: d' leased_db_fields r)
  then have "\<exists>l. latest_lease j d' = Some l \<and> l_fence l = f \<and> l_worker l = w \<and> l_expired l = None \<and>
      l_expires l = l_issued l + ttl \<and> (\<forall>l' \<in> set (leases d). l_fence l' < f \<and> l_issued l' < l_issued l)"
    using l old by (intro exI [of _ l]) simp
  with 1 2 show ?thesis by blast
qed

text \<open>The two workers' environments of the examples: the clock stands still, sends fail for the second.\<close>

definition deaf :: "int \<Rightarrow> env" where
  "deaf t = (env_at t [])\<lparr>e_send := False\<rparr>"

lemma deaf_fields [simp]: "e_mono (deaf t) = t" "e_locked (deaf t) = []" "\<not> e_send (deaf t)"
  by (simp_all add: deaf_def env_at_def)

definition queued :: db where
  "queued = snd (create_tx (env_at 100 ''j'') ''k'' (JObj []) ''c1'' empty_db)"

lemma queued_step: "tx_step empty_db queued"
  unfolding queued_def by (rule tx_step.submit)

lemma queued_core: "core_inv queued"
  using tx_step_core [OF queued_step core_inv_empty] .

theorem claim_takes_oldest_witness:
  "job_state ''j'' queued = Some Pending \<and> job_state ''j'' (snd (claim_tx (env_at 200 []) 1000 ''c1'' ''w1'' queued)) = Some Leased"
proof -
  have "fst (claim_tx (env_at 200 []) 1000 ''c1'' ''w1'' queued) = Some (''j'', JObj [], 1)" by code_simp
  then have "claim_tx (env_at 200 []) 1000 ''c1'' ''w1'' queued =
      (Some (''j'', JObj [], 1), snd (claim_tx (env_at 200 []) 1000 ''c1'' ''w1'' queued))"
    by (metis prod.collapse)
  from claim_takes_oldest [OF queued_core this] show ?thesis by simp
qed

text \<open>
  C37. One dead worker can take the whole queue. While a worker's socket fails every send but its
  entry is still in the registry, and it has one free slot, its turn in the dispatch round
  leases every pending job to it without one frame delivered: the failed push gives the slot
  back and the inner loop goes on until nothing is pending.
\<close>

theorem dead_worker_drains_queue:
  assumes "\<And>k. gate (e_mono (es k)) co = None" and "\<And>k. e_locked (es k) = []"
    and "\<And>k. \<not> e_send (es k)" and "has_capacity (co_conns co a)" and "reg_all co = [a]"
  shows "\<exists>n co' d'. dispatch_round es co d = Some (Inr n, co', d') \<and> num_pending d' = 0 \<and>
    w_sent (co_conns co' a) = w_sent (co_conns co a)"
proof -
  obtain n co' d' where "claim_loop (Suc (num_pending d)) es 0 a co d = Some (Inr n, co', d')"
    "num_pending d' = 0" "w_sent (co_conns co' a) = w_sent (co_conns co a)"
    using dead_claims [of d "Suc (num_pending d)" es co a 0] assms(1-4) by auto
  then show ?thesis by (simp add: dispatch_round_def assms(5) del: claim_loop.simps)
qed

theorem dead_worker_drains_queue_witness:
  "\<exists>n co' d'. dispatch_round (\<lambda>_. deaf 200) (w1_at ''c1'') queued = Some (Inr n, co', d') \<and>
     num_pending queued = 1 \<and> num_pending d' = 0 \<and> w_sent (co_conns co' 0) = []"
proof -
  have "num_pending queued = 1" by code_simp
  then show ?thesis
    using dead_worker_drains_queue [of "\<lambda>_. deaf 200" "w1_at ''c1''" 0 queued]
    by (simp add: has_capacity_def new_conn_def)
qed

section \<open>Commits\<close>

text \<open>
  C13. Which commits are accepted. Without interleaving, on any reachable state: an accepted fence
  settles the answer for ever (the same fence is confirmed again, any other refused); otherwise
  the commit is accepted exactly when the job has a live lease with this fence whose deadline
  has not passed on the database clock, and that lease is then the job's latest; every other
  commit is rejected, and none loses a race.
\<close>

theorem commit_accepted_iff:
  assumes "core_inv d" and "fits_bigint f"
  shows "fst (commit_tx e coord j f w res d) =
    (case accepted_fence j d of
       Some a \<Rightarrow> Inr (Replay (a = f))
     | None \<Rightarrow>
         if \<exists>l \<in> set (leases d). l_job l = j \<and> l_fence l = f \<and> l_expired l = None \<and> e_ms e 0 < l_expires l
         then Inr Accepted else Inr Rejected)"
proof (cases "accepted_fence j d")
  case (Some a)
  then show ?thesis by (simp add: commit_tx_def commit_reads_def commit_writes_def)
next
  case None
  let ?live = "\<lambda>l. l_job l = j \<and> l_fence l = f \<and> l_expired l = None \<and> e_ms e 0 < l_expires l"
  have rd: "snd (commit_reads e j f d) \<longleftrightarrow> (\<exists>l \<in> set (leases d). ?live l)"
  proof
    assume "snd (commit_reads e j f d)"
    then show "\<exists>l \<in> set (leases d). ?live l"
      using latest_lease_mem [of j d] by (auto simp: commit_reads_def split: option.splits)
  next
    assume "\<exists>l \<in> set (leases d). ?live l"
    then obtain l where l: "l \<in> set (leases d)" "?live l" by blast
    then obtain l' where l': "latest_lease j d = Some l'" using latest_lease_ex by blast
    have "max_fence j d = Some f" using live_lease_latest [OF assms(1) l(1)] l(2) by simp
    then have "l_fence l' = l_fence l" using l' l(2) by (simp add: max_fence_def)
    then have "l' = l" using lease_unique_fence [OF assms(1) _ l(1)] latest_lease_mem [OF l'] by simp
    then show "snd (commit_reads e j f d)" using l l' by (simp add: commit_reads_def)
  qed
  have "fst (commit_reads e j f d) = None" using None by (simp add: commit_reads_def)
  then have rds: "commit_reads e j f d = (None, snd (commit_reads e j f d))" by (metis prod.collapse)
  show ?thesis
  proof (cases "\<exists>l \<in> set (leases d). ?live l")
    case True
    have "commit_reads e j f d = (None, True)" using rds rd [THEN iffD2, OF True] by metis
    then have "fst (commit_tx e coord j f w res d) = Inr Accepted"
      using None by (simp add: commit_tx_def commit_writes_def)
    then show ?thesis by (simp only: None option.simps if_P [OF True])
  next
    case False
    then have "\<not> snd (commit_reads e j f d)" using rd by blast
    then have "commit_reads e j f d = (None, False)" using rds by metis
    then have "fst (commit_tx e coord j f w res d) = Inr Rejected"
      using assms(2) by (simp add: commit_tx_def commit_writes_def)
    then show ?thesis by (simp only: None option.simps if_not_P [OF False])
  qed
qed

theorem commit_accepted_iff_witness:
  "fst (commit_tx (env_at 500 []) ''c1'' ''j'' 1 ''w1'' JNull race_leased) = Inr Accepted \<and>
   fst (commit_tx (env_at 5000 []) ''c1'' ''j'' 1 ''w1'' JNull race_leased) = Inr Rejected"
proof -
  have c: "core_inv race_leased"
    unfolding race_leased_def using queued_core [unfolded queued_def] by (rule claim_tx_core)
  have f: "fits_bigint 1" by (simp add: fits_bigint_def)
  have a: "accepted_fence ''j'' race_leased = None" by code_simp
  have l: "list_ex (\<lambda>l. l_job l = ''j'' \<and> l_fence l = 1 \<and> l_expired l = None \<and> 500 < l_expires l) (leases race_leased)"
    "\<not> list_ex (\<lambda>l. l_job l = ''j'' \<and> l_fence l = 1 \<and> l_expired l = None \<and> 5000 < l_expires l) (leases race_leased)"
    by code_simp+
  show ?thesis
    using commit_accepted_iff [OF c f, of "env_at 500 []" "''c1''" "''j''" "''w1''" JNull]
      commit_accepted_iff [OF c f, of "env_at 5000 []" "''c1''" "''j''" "''w1''" JNull] l
    by (simp add: a list_ex_iff)
qed

text \<open>
  A heartbeat protects the lease for one time to live: the reaper of any coordinator, with the
  lease in its list from an earlier scan, leaves everything as it is while its clock reading has
  not passed the renewed deadline.
\<close>

theorem renewed_lease_not_reaped:
  assumes "core_inv d" and "lease_known lid j f d" and "e_ms e' 0 \<le> e_ms e 0 + ttl"
    and "fst (renew_tx e ttl j f d) \<noteq> 0"
  shows "reap_tx e' coord lid j f (snd (renew_tx e ttl j f d)) = (NotReaped, snd (renew_tx e ttl j f d))"
proof -
  let ?d = "snd (renew_tx e ttl j f d)"
  have inv: "core_inv ?d" using assms(1) by (rule renew_tx_core)
  have known: "lease_known lid j f ?d" using assms(2) by (simp add: lease_known_renew)
  have fresh: "e_ms e' 0 \<le> l_expires l"
    if l: "l \<in> set (leases ?d)" "l_job l = j" "l_fence l = f" "l_expired l = None" for l
  proof -
    let ?P = "\<lambda>l. l_job l = j \<and> l_fence l = f \<and> l_expired l = None"
    have "l \<in> (\<lambda>l. if ?P l then l\<lparr>l_expires := e_ms e 0 + ttl\<rparr> else l) ` set (leases d)"
      using l(1) by (simp add: renew_tx_def Let_def set_upd_where)
    then obtain l0 where l0: "l = (if ?P l0 then l0\<lparr>l_expires := e_ms e 0 + ttl\<rparr> else l0)"
      by (rule imageE)
    show ?thesis
    proof (cases "?P l0")
      case True
      then have "l_expires l = e_ms e 0 + ttl" by (simp add: l0)
      then show ?thesis using assms(3) by simp
    next
      case False
      then have "l = l0" using l0 by presburger
      then show ?thesis using False l(2-4) by blast
    qed
  qed
  show ?thesis
    using inv known
  proof (cases rule: reap_tx_cases [where e = e' and coord = coord])
    case (requeued l)
    then have "e_ms e' 0 \<le> l_expires l" by (intro fresh)
    then show ?thesis using requeued(6) by simp
  next
    case (expired l)
    then have "e_ms e' 0 \<le> l_expires l" by (intro fresh)
    then show ?thesis using expired(6) by simp
  qed
qed

theorem renewed_lease_not_reaped_witness:
  "fst (reap_tx (env_at 1900 []) ''c2'' 1 ''j'' 1 (snd (renew_tx (env_at 900 []) 1000 ''j'' 1 race_leased))) = NotReaped \<and>
   fst (reap_tx (env_at 1901 []) ''c2'' 1 ''j'' 1 race_leased) = Requeued 701"
proof
  have c: "core_inv race_leased"
    unfolding race_leased_def using queued_core [unfolded queued_def] by (rule claim_tx_core)
  have n: "fst (renew_tx (env_at 900 []) 1000 ''j'' 1 race_leased) = 1" by code_simp
  show "fst (reap_tx (env_at 1900 []) ''c2'' 1 ''j'' 1 (snd (renew_tx (env_at 900 []) 1000 ''j'' 1 race_leased))) = NotReaped"
    using renewed_lease_not_reaped [OF c race_lease_known, of "env_at 1900 []" "env_at 900 []" 1000 "''c2''"] n
    by simp
  show "fst (reap_tx (env_at 1901 []) ''c2'' 1 ''j'' 1 race_leased) = Requeued 701" by code_simp
qed

text \<open>
  C14. A dead worker's job comes back. A leased job whose lease is overdue is put back by the
  reaper; when it is then claimed again, the new lease has a strictly higher fence, and a late
  commit under the old one is rejected whatever the clocks say.
\<close>

theorem dead_worker_recovers:
  assumes "core_inv d" and "l \<in> set (leases d)" and "l_expired l = None" and "l_expires l < e_ms e 0"
    and "job_state (l_job l) d = Some Leased"
    and "reap_tx e coord (l_id l) (l_job l) (l_fence l) d = (out, d1)"
    and "claim_tx e' ttl coord' w d1 = (Some (l_job l, pl, f), d2)" and "fits_bigint (l_fence l)"
  shows "out = Requeued (e_ms e 2 - l_expires l) \<and> job_state (l_job l) d1 = Some Pending \<and>
    l_fence l < f \<and> fst (commit_tx e'' coord'' (l_job l) (l_fence l) w' res d2) = Inr Rejected"
proof -
  have known: "lease_known (l_id l) (l_job l) (l_fence l) d"
    using assms(2) by (auto simp: lease_known_def)
  have reap: "reap_tx e coord (l_id l) (l_job l) (l_fence l) d =
      (Requeued (e_ms e 2 - l_expires l), requeued_db e coord (l_id l) (l_job l) d)"
    using assms(1) known
  proof (cases rule: reap_tx_cases [where e = e and coord = coord])
    case (requeued l')
    then show ?thesis using lease_unique_id [OF assms(1) _ assms(2)] by auto
  qed (use assms(2-5) in auto)
  then have d1: "d1 = requeued_db e coord (l_id l) (l_job l) d" using assms(6) by simp
  have inv1: "core_inv d1" unfolding d1 using assms(1-3,5) by (rule requeued_core)
  have st1: "job_state (l_job l) d1 = Some Pending"
    using assms(5) by (simp add: d1 requeued_db_def frame_simps row_simps)
  have f: "f = fence_seq d1 + 1" and d2: "d2 = leased_db e' ttl coord' (l_job l) w d1"
    using assms(7) by (cases rule: claim_tx_cases [of e' d1 ttl coord' w]; simp)+
  have old: "l_fence l < f"
    using core_invD(2) [OF assms(1)] assms(2)
    by (force simp: f d1 requeued_db_def fences_ok_def)
  have mx: "max_fence (l_job l) d2 = Some f" unfolding d2 max_fence_leased [OF inv1] by (simp add: f)
  have inv2: "core_inv d2" unfolding d2 using inv1 st1 by (rule leased_core)
  have st2: "job_state (l_job l) d2 = Some Leased"
    using st1 by (simp add: d2 leased_db_fields row_simps)
  have "accepted_fence (l_job l) d2 = None"
    using core_invD(5) [OF inv2] st2 by (simp add: not_succeeded_not_accepted)
  then have "commit_reads e'' (l_job l) (l_fence l) d2 = (None, False)"
    using mx old by (auto simp: commit_reads_def max_fence_def)
  then show ?thesis
    using reap assms(6,8) st1 old by (simp add: commit_tx_def commit_writes_def)
qed

theorem dead_worker_recovers_witness:
  "fst (commit_tx (env_at 1450 []) ''c3'' ''j'' 1 ''w1'' JNull race_released) = Inr Rejected"
proof -
  let ?l = "\<lparr>l_id = 1, l_job = ''j'', l_fence = 1, l_worker = ''w1'', l_issued = 200, l_expires = 1200, l_expired = None\<rparr>"
  have c: "core_inv race_leased"
    unfolding race_leased_def using queued_core [unfolded queued_def] by (rule claim_tx_core)
  have l: "leases race_leased = [?l]" "job_state ''j'' race_leased = Some Leased" by code_simp+
  have "fst (claim_tx (env_at 1400 []) 1000 ''c2'' ''w2'' race_reaped) = Some (''j'', JObj [], 2)" by code_simp
  then have cl: "claim_tx (env_at 1400 []) 1000 ''c2'' ''w2'' race_reaped = (Some (''j'', JObj [], 2), race_released)"
    unfolding race_released_def by (metis prod.collapse)
  have r: "reap_tx (env_at 1300 []) ''c2'' 1 ''j'' 1 race_leased =
      (fst (reap_tx (env_at 1300 []) ''c2'' 1 ''j'' 1 race_leased), race_reaped)"
    by (simp add: race_reaped_def)
  show ?thesis
    using dead_worker_recovers [OF c, of ?l "env_at 1300 []" "''c2''" _ race_reaped "env_at 1400 []" 1000 "''c2''" "''w2''" "JObj []" 2 race_released
        "env_at 1450 []" "''c3''" "''w1''" JNull] l r cl
    by (simp add: fits_bigint_def)
qed

section \<open>Slots that are never given back\<close>

text \<open>
  The reaper frees no slot. A worker that is full stays full when the leases of its jobs are
  reaped: only a commit for the job takes it out of the worker's in-flight set, so a job whose
  execution ends without a commit (see \<open>sleep_clamped\<close>) takes a slot from every worker it is
  dispatched to, and a coordinator whose only worker is full dispatches nothing any more.
\<close>

theorem reaped_job_keeps_slot:
  assumes "reg_all co = [a]" and "\<not> has_capacity (co_conns co a)"
  shows "dispatch_round es' (fst (snd (reap_round es co d))) d' = Some (Inr 0, fst (snd (reap_round es co d)), d')"
proof -
  have one: "co_conns (fst (snd (reap_one e lid j f co d))) = co_conns co \<and>
      co_reg (fst (snd (reap_one e lid j f co d))) = co_reg co" for e lid j f co d
    by (auto simp: reap_one_def Let_def split: prod.split sum.split reap_outcome.split)
  have rows: "co_conns (fst (snd (reap_rows es k ls co d))) = co_conns co \<and>
      co_reg (fst (snd (reap_rows es k ls co d))) = co_reg co" for k ls co d
  proof (induction ls arbitrary: k co d)
    case (Cons l ls)
    obtain r co1 d1 where "reap_one (es k) (l_id l) (l_job l) (l_fence l) co d = (r, co1, d1)" by (metis surj_pair)
    then show ?case using one [of "es k" "l_id l" "l_job l" "l_fence l" co d] Cons.IH by (cases r) simp_all
  qed simp
  have "co_conns (fst (snd (reap_round es co d))) = co_conns co \<and>
      co_reg (fst (snd (reap_round es co d))) = co_reg co"
    using rows by (simp add: reap_round_def split: sum.split)
  then show ?thesis using assms by (simp add: dispatch_round_def reg_all_def)
qed

theorem reaped_job_keeps_slot_witness:
  "dispatch_round (\<lambda>_. env_at 400 [])
     (fst (snd (reap_round (\<lambda>_. env_at 300 []) (upd_conn 0 (\<lambda>s. s\<lparr>w_inflight := [''a'', ''b'']\<rparr>) (w1_at ''c1'')) empty_db))) queued =
   Some (Inr 0, fst (snd (reap_round (\<lambda>_. env_at 300 []) (upd_conn 0 (\<lambda>s. s\<lparr>w_inflight := [''a'', ''b'']\<rparr>) (w1_at ''c1'')) empty_db)), queued)"
  by (rule reaped_job_keeps_slot [where a = 0])
    (simp_all add: reg_all_upd_conn has_capacity_def new_conn_def)

section \<open>The retry loop against the coordinator\<close>

text \<open>
  One attempt of the worker's loop: the commit frame goes through the connection's router; the
  worker is confirmed when a frame came back. An exception closes the connection. \<open>between\<close> is
  what happens to the database before the \<open>k\<close>-th attempt arrives.
\<close>

definition retry_attempt ::
    "(nat \<Rightarrow> env) \<Rightarrow> (nat \<Rightarrow> db \<Rightarrow> db) \<Rightarrow> nat \<Rightarrow> json \<Rightarrow> nat \<times> coord \<times> db \<Rightarrow> attempt \<times> (nat \<times> coord \<times> db)" where
  "retry_attempt es between a msg s =
     (case s of (k, co, d) \<Rightarrow>
        (case route (es k) a msg co (between k d) of
           (Inl x, co', d') \<Rightarrow> (SendFailed, (Suc k, co', d'))
         | (Inr _, co', d') \<Rightarrow>
             (if w_sent (co_conns co' a) = w_sent (co_conns co a) then TimedOut else Confirmed,
              (Suc k, co', d'))))"

lemma route_commit:
  assumes "gate (e_mono e) co = None" and "e_uuid e s = Some j"
    and "commit_tx e (co_id co) j f (w_id (co_conns co a)) (result_json res) d = (Inr out, d')"
  shows "route e a (commit_msg (JStr s) (JInt f) res) co d = (Inr (), commit_effects e a s out co, d')"
  using assms
  by (simp add: route_def commit_msg_def handle_commit_def transaction_open commit_body_def json_uuid_def
      as_uuid_def raw_id_def Let_def)

lemma finish_gate [simp]: "gate mt (finish e a s b co) = gate mt co"
  by (simp add: finish_def Let_def gate_def is_partitioned_def)

lemma finish_ack:
  assumes "e_send e"
  shows "co_drop_acks (finish e a s True co) = (if co_drop_acks co > 0 then co_drop_acks co - 1 else co_drop_acks co)"
    and "w_sent (co_conns (finish e a s True co) a) =
      w_sent (co_conns co a) @ (if co_drop_acks co > 0 then [] else [FAck s])"
  using assms by (simp_all add: finish_def ws_send_def inflight_discard_def Let_def)

text \<open>Once the commit is in, every further attempt is a replay.\<close>

lemma replay_phase:
  assumes "db_inv d" and "settled j (Some Succeeded, r, Some f) d" and "co_drop_acks co = int n"
    and "\<And>k d. tx_step\<^sup>*\<^sup>* d (between k d)" and "\<And>k. gate (e_mono (es k)) co = None"
    and "\<And>k. e_send (es k)" and "\<And>k. e_uuid (es k) s = Some j"
  shows "\<exists>k' co' d'. commit_retry m (retry_attempt es between a (commit_msg (JStr s) (JInt f) res)) (k, co, d) =
      (if n < m then Answered else GaveUp, (k', co', d')) \<and> db_inv d' \<and>
    settled j (Some Succeeded, r, Some f) d' \<and>
    w_sent (co_conns co' a) = w_sent (co_conns co a) @ (if n < m then [FAck s] else [])"
  using assms
proof (induction m arbitrary: n k co d)
  case (Suc m)
  let ?d = "between k d" and ?co = "finish (es k) a s True co"
  have inv: "db_inv ?d" using Suc.prems(4) Suc.prems(1) by (rule txs.ok_steps)
  have set: "settled j (Some Succeeded, r, Some f) ?d"
    using Suc.prems(4) Suc.prems(1,2) by (rule txs.stable_steps) (auto simp: db_inv_def intro: tx_step_succeeded)
  have "commit_tx (es k) (co_id co) j f (w_id (co_conns co a)) (result_json res) ?d = (Inr (Replay True), ?d)"
    using set by (simp add: commit_tx_def commit_reads_def commit_writes_def settled_def)
  from route_commit [OF Suc.prems(5,7) this]
  have rt: "route (es k) a (commit_msg (JStr s) (JInt f) res) co ?d = (Inr (), ?co, ?d)"
    by (simp add: commit_effects_def)
  note fin = finish_ack [OF Suc.prems(6) [of k], of a s co]
  show ?case
  proof (cases n)
    case 0
    then have "retry_attempt es between a (commit_msg (JStr s) (JInt f) res) (k, co, d) = (Confirmed, (Suc k, ?co, ?d))"
      using fin Suc.prems(3) by (simp add: retry_attempt_def rt)
    then show ?thesis using 0 fin Suc.prems(3) inv set by simp
  next
    case (Suc n')
    then have at: "retry_attempt es between a (commit_msg (JStr s) (JInt f) res) (k, co, d) = (TimedOut, (Suc k, ?co, ?d))"
      using fin Suc.prems(3) by (simp add: retry_attempt_def rt)
    have "co_drop_acks ?co = int n'" using fin Suc.prems(3) Suc by simp
    from Suc.IH [OF inv set this Suc.prems(4) _ Suc.prems(6,7), of "Suc k"] Suc.prems(5)
    obtain k' co' d' where "commit_retry m (retry_attempt es between a (commit_msg (JStr s) (JInt f) res)) (Suc k, ?co, ?d) =
        (if n' < m then Answered else GaveUp, (k', co', d'))" "db_inv d'" "settled j (Some Succeeded, r, Some f) d'"
      "w_sent (co_conns co' a) = w_sent (co_conns ?co a) @ (if n' < m then [FAck s] else [])"
      by auto
    then show ?thesis using at fin Suc.prems(3) Suc by simp
  qed
qed simp

lemma accepted_settled:
  assumes "core_inv d" and "job_state j d \<noteq> None" and "accepted_fence j d = None"
  shows "settled j (Some Succeeded, Some res, Some f) (accepted_db e coord j f w res d)"
  using assms by (auto simp: settled_def accepted_db_def frame_simps row_simps result_succeed_job split: option.split)

text \<open>The first attempt, when the lease is the latest and live.\<close>

lemma first_commit:
  fixes d :: db and res :: json and a :: nat
  assumes "db_inv d" and "gate (e_mono e) co = None" and "e_uuid e s = Some j"
    and "commit_reads e j f d = (None, True)"
  defines "d' \<equiv> accepted_db e (co_id co) j f (w_id (co_conns co a)) (result_json res) d"
  shows "route e a (commit_msg (JStr s) (JInt f) res) co d =
      (Inr (), finish e a s True (rates_incr (e_redis e 0) (e_sec e) ''completed'' 1 co), d')"
    and "db_inv d'" and "settled j (Some Succeeded, Some (result_json res), Some f) d'"
proof -
  have v: "job_state j d = Some Leased" "accepted_fence j d = None"
    using commit_reads_valid [of d e j f] assms(1,4) by (auto simp: db_inv_def)
  have ctx: "commit_tx e (co_id co) j f (w_id (co_conns co a)) (result_json res) d = (Inr Accepted, d')"
    using assms(4) v by (simp add: commit_tx_def commit_writes_def accepted_db_def d'_def)
  show "route e a (commit_msg (JStr s) (JInt f) res) co d =
      (Inr (), finish e a s True (rates_incr (e_redis e 0) (e_sec e) ''completed'' 1 co), d')"
    using route_commit [OF assms(2,3) ctx] by (simp add: commit_effects_def)
  have "tx_step d d'" using tx_step.commit [of d e "co_id co" j f] ctx by (metis snd_conv)
  then show "db_inv d'" using assms(1) by (blast intro: txs.ok_step)
  show "settled j (Some Succeeded, Some (result_json res), Some f) d'"
    unfolding d'_def using assms(1) v by (intro accepted_settled) (simp_all add: db_inv_def)
qed

lemma settled_commits:
  assumes "db_inv d" and "settled j (Some Succeeded, r, Some f) d"
  shows "job_state j d = Some Succeeded \<and> job_result j d = r \<and> accepted_fence j d = Some f \<and>
    length (filter (\<lambda>c. c_job c = j \<and> c_accepted c) (commits d)) = 1"
  using assms accepted_rows [of d j] by (simp add: db_inv_def core_inv_def settled_def)

lemma commit_with_retry_first:
  "commit_with_retry att s0 = (case att s0 of (SendFailed, s') \<Rightarrow> (SocketDead, s')
     | (Confirmed, s') \<Rightarrow> (Answered, s') | (TimedOut, s') \<Rightarrow> commit_retry 7 att s')"
proof -
  have eight: "commit_max_attempts = Suc 7" by (simp add: commit_max_attempts_def)
  show ?thesis unfolding commit_with_retry_def eight by (rule commit_retry.simps(2))
qed

text \<open>
  C17. Dropped acknowledgements do not break exactly-once. A worker commits under a live latest
  lease while the coordinator is told to swallow \<open>n\<close> acknowledgements; it resends up to eight
  times, and between the attempts the system does whatever it likes. Afterwards the job is
  succeeded with this result under this fence, with exactly one accepted commit; the worker was
  answered, by exactly one acknowledgement, if fewer than eight were swallowed, and gave up
  otherwise.
\<close>

theorem dropped_acks_exactly_once:
  assumes "db_inv d" and "co_drop_acks co = int n"
    and "\<And>k d. tx_step\<^sup>*\<^sup>* d (between k d)" and "\<And>k. gate (e_mono (es k)) co = None"
    and "\<And>k. e_send (es k)" and "\<And>k. e_uuid (es k) s = Some j"
    and "commit_reads (es 0) j f (between 0 d) = (None, True)"
  shows "\<exists>k co' d'. commit_with_retry (retry_attempt es between a (commit_msg (JStr s) (JInt f) res)) (0, co, d) =
      (if n < 8 then Answered else GaveUp, (k, co', d')) \<and>
    job_state j d' = Some Succeeded \<and> job_result j d' = Some (result_json res) \<and> accepted_fence j d' = Some f \<and>
    length (filter (\<lambda>c. c_job c = j \<and> c_accepted c) (commits d')) = 1 \<and>
    w_sent (co_conns co' a) = w_sent (co_conns co a) @ (if n < 8 then [FAck s] else [])"
proof -
  let ?d = "between 0 d" and ?att = "retry_attempt es between a (commit_msg (JStr s) (JInt f) res)"
  let ?d1 = "accepted_db (es 0) (co_id co) j f (w_id (co_conns co a)) (result_json res) ?d"
  let ?co0 = "rates_incr (e_redis (es 0) 0) (e_sec (es 0)) ''completed'' 1 co"
  let ?co1 = "finish (es 0) a s True ?co0"
  have inv0: "db_inv ?d" using assms(3,1) by (rule txs.ok_steps)
  note one = first_commit [where a = a and res = res, OF inv0 assms(4,6,7)]
  note fin = finish_ack [OF assms(5) [of 0], of a s ?co0]
  show ?thesis
  proof (cases n)
    case 0
    then have "?att (0, co, d) = (Confirmed, (1, ?co1, ?d1))"
      using fin assms(2) by (simp add: retry_attempt_def one(1))
    then show ?thesis
      using 0 fin assms(2) settled_commits [OF one(2,3)]
      by (simp add: commit_with_retry_first)
  next
    case (Suc n')
    have "gate (e_mono (es k)) ?co1 = None" for k
      using assms(4) by simp
    moreover have "co_drop_acks ?co1 = int n'" using fin assms(2) Suc by simp
    ultimately obtain k' co' d' where r: "commit_retry 7 ?att (1, ?co1, ?d1) =
        (if n' < 7 then Answered else GaveUp, (k', co', d'))" "db_inv d'"
      "settled j (Some Succeeded, Some (result_json res), Some f) d'"
      "w_sent (co_conns co' a) = w_sent (co_conns ?co1 a) @ (if n' < 7 then [FAck s] else [])"
      using replay_phase [OF one(2,3), of ?co1 n' between es s 7 a res 1] assms(3,5,6) by blast
    have "?att (0, co, d) = (TimedOut, (1, ?co1, ?d1))"
      using fin assms(2) Suc by (simp add: retry_attempt_def one(1))
    then have "commit_with_retry ?att (0, co, d) = (if n < 8 then Answered else GaveUp, (k', co', d'))"
      using r(1) Suc by (simp add: commit_with_retry_first)
    then show ?thesis using r fin assms(2) Suc settled_commits [OF r(2,3)] by simp
  qed
qed

theorem dropped_acks_exactly_once_witness:
  "\<exists>k co' d'. commit_with_retry
      (retry_attempt (\<lambda>_. env_at 500 []) (\<lambda>_. id) 0 (commit_msg (JStr ''j'') (JInt 1) (JInt 7)))
      (0, (w1_at ''c1'')\<lparr>co_drop_acks := 3\<rparr>, race_leased) = (Answered, (k, co', d')) \<and>
    accepted_fence ''j'' d' = Some 1"
proof -
  have i: "db_inv race_leased"
  proof (rule txs.ok_reachable)
    have "tx_step queued race_leased" unfolding race_leased_def queued_def by (rule tx_step.claim)
    then show "tx_step\<^sup>*\<^sup>* empty_db race_leased" using queued_step by (rule converse_rtranclp_into_rtranclp [rotated, OF r_into_rtranclp])
  qed
  have r: "commit_reads (env_at 500 []) ''j'' 1 race_leased = (None, True)" by code_simp
  have g: "gate 500 ((w1_at ''c1'')\<lparr>co_drop_acks := 3\<rparr>) = None"
    using w1_at_fields(4) [of 500 "''c1''"] by (simp add: gate_def is_partitioned_def split: if_splits)
  have "commit_with_retry (retry_attempt (\<lambda>_. env_at 500 []) (\<lambda>_. id) 0 (commit_msg (JStr ''j'') (JInt 1) (JInt 7)))
      (0, (w1_at ''c1'')\<lparr>co_drop_acks := 3\<rparr>, race_leased) = (if (3::nat) < 8 then Answered else GaveUp, (k, co', d')) \<Longrightarrow>
    ?thesis" if "accepted_fence ''j'' d' = Some 1" for k co' d' using that by auto
  then show ?thesis
    using dropped_acks_exactly_once [of race_leased "(w1_at ''c1'')\<lparr>co_drop_acks := 3\<rparr>" 3 "\<lambda>_. id" "\<lambda>_. env_at 500 []" "''j''" "''j''" 1 0 "JInt 7"]
      i r g by auto
qed

end
