(* ===== verification/Wire.thy ===== *)
theory Wire
  imports WorkerSends Delivery
begin

text \<open>
  Both ends of a worker connection: the frames of a coordinator as the worker gets them
  (\<open>dispatch.py\<close>, \<open>commit.py\<close>, \<open>ws.py\<close>), the frames of the worker as the coordinator handles
  them, and what the two state machines make of each other.
\<close>

section \<open>Frames on the wire\<close>

fun frame_json :: "frame \<Rightarrow> json" where
  "frame_json (FDispatch s pl f) =
     JObj [(''type'', JStr ''dispatch''), (''job_id'', JStr s), (''payload'', pl), (''fence'', JInt f)]"
| "frame_json (FAck s) = JObj [(''type'', JStr ''ack''), (''job_id'', JStr s)]"
| "frame_json (FRejected s) = JObj [(''type'', JStr ''commit_rejected''), (''job_id'', JStr s)]"
| "frame_json (FSetConcurrency n) = JObj [(''type'', JStr ''set_concurrency''), (''n'', n)]"

text \<open>The worker reads the frames in the order in which the connection carried them.\<close>

fun wk_frames :: "frame list \<Rightarrow> wproc \<Rightarrow> exn + wproc" where
  "wk_frames [] w = Inr w"
| "wk_frames (fr # frs) w = sbind (wk_handle (frame_json fr) w) (wk_frames frs)"

lemma wk_frames_append: "wk_frames (as @ bs) w = sbind (wk_frames as w) (wk_frames bs)"
proof (induction as arbitrary: w)
  case (Cons a as)
  then show ?case by (cases "wk_handle (frame_json a) w") simp_all
qed simp

text \<open>A coordinator's frames are always understood.\<close>

lemma wk_handle_frame:
  "wk_handle (frame_json (FDispatch s pl f)) w =
     Inr (w\<lparr>wk_tasks := (wk_tasks w)(wk_next w \<mapsto>
              \<lparr>tk_data = frame_json (FDispatch s pl f), tk_phase = PNew, tk_ms = 0, tk_end = 0\<rparr>),
            wk_got := (wk_got w)(wk_next w \<mapsto> frame_json (FDispatch s pl f)), wk_next := wk_next w + 1\<rparr>)"
  "0 \<le> n \<Longrightarrow> wk_handle (frame_json (FSetConcurrency (JInt n))) w =
     Inr (w\<lparr>wk_conc := n, wk_sem := sem_set_limit n (wk_sem w)\<rparr>)"
  by (simp_all add: wk_handle_def Let_def)

section \<open>Capacity\<close>

text \<open>A sequence of concurrency changes, applied by the coordinator that holds the worker.\<close>

definition reconfigured :: "env \<Rightarrow> string \<Rightarrow> int list \<Rightarrow> coord \<Rightarrow> coord" where
  "reconfigured e wid ns co = fold (\<lambda>n co. snd (apply_set_concurrency e wid (JInt n) n co)) ns co"

lemma reconfigured_conn:
  assumes "reg_get wid co = Some a" and "e_send e"
  shows "w_limit (co_conns (reconfigured e wid ns co) a) = last (w_limit (co_conns co a) # ns) \<and>
    w_id (co_conns (reconfigured e wid ns co) a) = w_id (co_conns co a) \<and>
    w_sent (co_conns (reconfigured e wid ns co) a) = w_sent (co_conns co a) @ map (\<lambda>n. FSetConcurrency (JInt n)) ns"
  using assms(1)
proof (induction ns arbitrary: co)
  case (Cons n ns)
  let ?co = "snd (apply_set_concurrency e wid (JInt n) n co)"
  have co: "?co = ws_send True a (FSetConcurrency (JInt n)) (upd_conn a (\<lambda>s. s\<lparr>w_limit := n\<rparr>) co)"
    using Cons.prems assms(2) by (simp add: apply_set_concurrency_def)
  then have "reg_get wid ?co = Some a" using Cons.prems by (simp add: reg_get_def ws_send_def upd_conn_def)
  from Cons.IH [OF this] show ?case
    using co by (simp add: reconfigured_def ws_send_def upd_conn_def)
qed (simp add: reconfigured_def)

lemma wk_reconfigured:
  assumes "list_all (\<lambda>n. 0 \<le> n) ns" and "sm_limit (wk_sem w) = max 0 (wk_conc w)"
  obtains w' where "wk_frames (map (\<lambda>n. FSetConcurrency (JInt n)) ns) w = Inr w'" "wk_id w' = wk_id w"
    "wk_conc w' = last (wk_conc w # ns)" "sm_limit (wk_sem w') = max 0 (wk_conc w')"
  using assms
proof (induction ns arbitrary: w thesis)
  case (Cons n ns)
  let ?w = "w\<lparr>wk_conc := n, wk_sem := sem_set_limit n (wk_sem w)\<rparr>"
  have "sm_limit (wk_sem ?w) = max 0 (wk_conc ?w)" by (simp add: sem_set_limit_def notify_all_def)
  then obtain w' where "wk_frames (map (\<lambda>n. FSetConcurrency (JInt n)) ns) ?w = Inr w'" "wk_id w' = wk_id ?w"
    "wk_conc w' = last (wk_conc ?w # ns)" "sm_limit (wk_sem w') = max 0 (wk_conc w')"
    using Cons.IH [of ?w] Cons.prems(2) by auto
  then show ?case using Cons.prems(1) [of w'] Cons.prems(2) by (simp add: wk_handle_frame [unfolded frame_json.simps])
qed auto

section \<open>Properties\<close>

text \<open>
  The two ends agree on the capacity. When a worker registers and its concurrency is then
  changed any number of times, the coordinator's limit for the connection is at the end the
  concurrency the worker has after reading the frames, which is the limit of its semaphore.
\<close>

theorem capacity_agreed:
  assumes "(wk_step loads)\<^sup>*\<^sup>* (wk_new wid n) w" and "ws_register (register_msg (wk_id w) (wk_conc w)) co = Some (a, co1)"
    and "list_all (\<lambda>n. 0 \<le> n) ns" and "e_send e"
  shows "\<exists>w'. wk_frames (w_sent (co_conns (reconfigured e (wk_id w) ns co1) a)) w = Inr w' \<and>
    w_limit (co_conns (reconfigured e (wk_id w) ns co1) a) = wk_conc w' \<and>
    w_id (co_conns (reconfigured e (wk_id w) ns co1) a) = wk_id w' \<and>
    sm_limit (wk_sem w') = max 0 (wk_conc w')"
proof -
  have lim: "sm_limit (wk_sem w) = max 0 (wk_conc w)"
    using workers.ok_reachable [OF assms(1)] by (simp add: wk_ok_def slots_ok_def)
  have conn: "co_conns co1 a = new_conn (wk_id w) (wk_conc w)" and reg: "reg_get (wk_id w) co1 = Some a"
    using assms(2) ws_register_get [OF assms(2)]
    by (auto simp: ws_register_def parse_register_def register_msg_def reg_add_def new_conn_def Let_def)
  obtain w' where w': "wk_frames (map (\<lambda>n. FSetConcurrency (JInt n)) ns) w = Inr w'" "wk_id w' = wk_id w"
    "wk_conc w' = last (wk_conc w # ns)" "sm_limit (wk_sem w') = max 0 (wk_conc w')"
    using wk_reconfigured [OF assms(3) lim] .
  show ?thesis
    using reconfigured_conn [OF reg assms(4), of ns] w' conn by (simp add: new_conn_def)
qed

theorem capacity_agreed_witness:
  "\<exists>w'. wk_frames [FSetConcurrency (JInt 5), FSetConcurrency (JInt 0)] (wk_new ''w1'' 2) = Inr w' \<and>
     wk_conc w' = 0 \<and> sm_limit (wk_sem w') = 0"
proof -
  let ?co = "w1_at ''c1''"
  have r: "ws_register (register_msg (wk_id (wk_new ''w1'' 2)) (wk_conc (wk_new ''w1'' 2))) (boot ''c1'' 1000) = Some (0, ?co)"
    using w1_registers by (simp add: wk_new_def register_msg_def w1_hello_def)
  have "co_conns (reconfigured (env_at 5 []) ''w1'' [5, 0] ?co) 0 =
      \<lparr>w_id = ''w1'', w_limit = 0, w_inflight = [], w_sent = [FSetConcurrency (JInt 5), FSetConcurrency (JInt 0)]\<rparr>"
    by code_simp
  then show ?thesis
    using capacity_agreed [OF rtranclp.rtrancl_refl r, of "[5, 0]" "env_at 5 []"] by (auto simp: wk_new_def)
qed


text \<open>A payload of 70 seconds.\<close>

definition long_payload :: json where "long_payload = JObj [(''sleep_ms'', JInt 70000)]"


section \<open>A lease that lapses behind the semaphore\<close>

text \<open>
  Two jobs are queued, worker \<open>w1\<close> has one slot, and its coordinator is to swallow eight
  acknowledgements. The first job is dispatched and committed; the second is dispatched to the slot
  that the commit freed at the coordinator.
\<close>

definition two_queued :: db where
  "two_queued = snd (create_tx (env_at 110 ''k'') ''k2'' (JObj []) ''c1''
     (snd (create_tx (env_at 100 ''j'') ''k1'' (JObj []) ''c1'' empty_db)))"

definition one_slot :: coord where
  "one_slot = (snd (the (ws_register (register_msg ''w1'' 1) (boot ''c1'' 10000))))\<lparr>co_drop_acks := 8\<rparr>"

definition first_claimed :: "(exn + bool) \<times> coord \<times> db" where
  "first_claimed = claim_one (env_at 200 []) 0 one_slot two_queued"

definition first_committed :: "(exn + unit) \<times> coord \<times> db" where
  "first_committed =
     (case first_claimed of (r, co, d) \<Rightarrow>
        route (env_at 300 []) 0 (commit_msg (JStr ''j'') (JInt 1) (job_result_msg ''w1'' 0)) co d)"

definition second_claimed :: "(exn + bool) \<times> coord \<times> db" where
  "second_claimed = (case first_committed of (r, co, d) \<Rightarrow> claim_one (env_at 400 []) 0 co d)"

definition second_reaped :: "(exn + unit) \<times> coord \<times> db" where
  "second_reaped =
     (case second_claimed of (r, co, d) \<Rightarrow> reap_round (\<lambda>_. env_at 10401 []) co d)"

text \<open>The worker: the texts of the two frames, and fourteen seconds of unanswered commits.\<close>

definition wire_loads :: "string \<Rightarrow> json option" where
  "wire_loads s =
     (if s = ''first'' then Some (frame_json (FDispatch ''j'' (JStr []) 1))
      else if s = ''second'' then Some (frame_json (FDispatch ''k'' (JStr []) 2)) else None)"

definition waiting_worker :: wproc where
  "waiting_worker = the (wk_run wire_loads
     ([EConnect True, EMessage (WText ''first'')] @ to_first_commit 0 @
      [EMessage (WText ''second''), EBegin 1] @ concat (replicate 7 (resend 0))) (wk_new ''w1'' 1))"


end
