(* ===== verification/Fleet.thy ===== *)
theory Fleet
  imports Pushes Wire
begin

text \<open>
  The cluster together with its workers. Every worker is the state machine of \<open>WorkerRun\<close>; its
  connection leads to one coordinator, whose frames it reads in order, and what its tasks send are
  letters to that coordinator. Coordinators and workers crash and restart at any point.
\<close>

section \<open>The fleet\<close>

text \<open>
  The worker's end of a connection: the coordinator, the life of its process, the address of the
  connection there, and how many of the frames it has carried the worker has read.
\<close>

record link =
  lk_co :: nat
  lk_life :: nat
  lk_conn :: nat
  lk_read :: nat

text \<open>A frame under way to a coordinator.\<close>

record letter =
  le_co :: nat
  le_life :: nat
  le_conn :: nat
  le_frame :: json

record fleet =
  ft_cl :: cluster
  ft_wk :: "nat \<Rightarrow> wproc"
  ft_link :: "nat \<Rightarrow> link option"
  ft_mail :: "letter list"

abbreviation ft_db :: "fleet \<Rightarrow> db" where
  "ft_db s \<equiv> cl_db (ft_cl s)"

definition ft_start :: "(nat \<Rightarrow> string) \<Rightarrow> (nat \<Rightarrow> int) \<Rightarrow> (nat \<Rightarrow> string) \<Rightarrow> (nat \<Rightarrow> int) \<Rightarrow> fleet" where
  "ft_start ids ttl wids conc = \<lparr>ft_cl = cl_start ids ttl, ft_wk = (\<lambda>i. wk_new (wids i) (conc i)),
     ft_link = (\<lambda>_. None), ft_mail = []\<rparr>"

text \<open>
  Actions of the cluster that no worker causes, and events of a worker that do not concern its
  connection.
\<close>

fun from_outside :: "act \<Rightarrow> bool" where
  "from_outside (ARegister c first) = False"
| "from_outside (AMessage c e a data) = False"
| "from_outside (AOpenCommit c e a data n) = False"
| "from_outside _ = True"

fun inner :: "wevent \<Rightarrow> bool" where
  "inner (EConnect ok) = False"
| "inner (EMessage m) = False"
| "inner EEnd = False"
| "inner _ = True"

text \<open>What the tasks have sent successfully since the log had \<open>n\<close> entries.\<close>

definition sent_since :: "nat \<Rightarrow> wproc \<Rightarrow> json list" where
  "sent_since n w = map (\<lambda>(c, t, fr, ok). fr) (filter (\<lambda>(c, t, fr, ok). t \<noteq> None \<and> ok) (drop n (wk_sent w)))"

text \<open>\<open>wk_handle\<close> on the next frame; an exception would end the connection.\<close>

definition wk_read :: "frame \<Rightarrow> wproc \<Rightarrow> wproc" where
  "wk_read fr w = (case wk_handle (frame_json fr) w of Inl x \<Rightarrow> wk_drop w | Inr w' \<Rightarrow> w')"

text \<open>The database driver reads the text of a job id it has produced as that id.\<close>

definition driver_ok :: "env \<Rightarrow> db \<Rightarrow> bool" where
  "driver_ok e d \<longleftrightarrow> list_all (\<lambda>r. e_uuid e (j_id r) = Some (j_id r)) (jobs d)"

datatype fact =
    FCluster act
  | FConnect nat nat bool
  | FRead nat
  | FWork nat wevent
  | FLose nat
  | FKill nat int
  | FDeliver nat env nat

text \<open>
  What an action does; one that is not enabled does nothing. A worker that connects registers at
  coordinator \<open>c\<close>. A letter can be delivered at any time, in any order and more than once, as long as
  the process it was sent to lives, also after the worker has lost the connection. A killed worker
  starts afresh.
\<close>

fun ft_do :: "(string \<Rightarrow> json option) \<Rightarrow> fact \<Rightarrow> fleet \<Rightarrow> fleet" where
  "ft_do loads (FCluster a) s = (if from_outside a then s\<lparr>ft_cl := cl_do a (ft_cl s)\<rparr> else s)"
| "ft_do loads (FConnect i c ok) s =
     (let w = ft_wk s i; cl = ft_cl s
      in if wk_up w then s
         else if ok then
           s\<lparr>ft_cl := cl_do (ARegister c (register_msg (wk_id w) (wk_conc w))) cl,
             ft_wk := (ft_wk s)(i := wk_connect True w),
             ft_link := (ft_link s)(i \<mapsto> \<lparr>lk_co = c, lk_life = cl_life cl c, lk_conn = co_next (cl_co cl c), lk_read = 0\<rparr>)\<rparr>
         else s\<lparr>ft_wk := (ft_wk s)(i := wk_connect False w), ft_link := (ft_link s)(i := None)\<rparr>)"
| "ft_do loads (FRead i) s =
     (case ft_link s i of
        None \<Rightarrow> s
      | Some lk \<Rightarrow>
          (let frs = w_sent (co_conns (cl_co (ft_cl s) (lk_co lk)) (lk_conn lk))
           in if wk_up (ft_wk s i) \<and> lk_life lk = cl_life (ft_cl s) (lk_co lk) \<and> lk_read lk < length frs
              then s\<lparr>ft_wk := (ft_wk s)(i := wk_read (frs ! lk_read lk) (ft_wk s i)),
                     ft_link := (ft_link s)(i \<mapsto> lk\<lparr>lk_read := lk_read lk + 1\<rparr>)\<rparr>
              else s))"
| "ft_do loads (FWork i ev) s =
     (if inner ev then
        (case wk_do loads ev (ft_wk s i) of
           None \<Rightarrow> s
         | Some w \<Rightarrow> s\<lparr>ft_wk := (ft_wk s)(i := w),
             ft_mail := ft_mail s @ (case ft_link s i of
                 None \<Rightarrow> []
               | Some lk \<Rightarrow> map (\<lambda>fr. \<lparr>le_co = lk_co lk, le_life = lk_life lk, le_conn = lk_conn lk, le_frame = fr\<rparr>)
                              (sent_since (length (wk_sent (ft_wk s i))) w))\<rparr>)
      else s)"
| "ft_do loads (FLose i) s =
     (if wk_up (ft_wk s i) then s\<lparr>ft_wk := (ft_wk s)(i := wk_drop (ft_wk s i)), ft_link := (ft_link s)(i := None)\<rparr>
      else s)"
| "ft_do loads (FKill i n) s =
     s\<lparr>ft_wk := (ft_wk s)(i := wk_new (wk_id (ft_wk s i)) n), ft_link := (ft_link s)(i := None)\<rparr>"
| "ft_do loads (FDeliver k e n) s =
     (if k < length (ft_mail s) then
        (let le = ft_mail s ! k; c = le_co le; fr = le_frame le
         in if le_life le = cl_life (ft_cl s) c \<and> driver_ok e (ft_db s)
            then s\<lparr>ft_cl := cl_do (if dget fr ''type'' = JStr ''commit'' then AOpenCommit c e (le_conn le) fr n
                                   else AMessage c e (le_conn le) fr) (ft_cl s)\<rparr>
            else s)
      else s)"

definition ft_run :: "(string \<Rightarrow> json option) \<Rightarrow> fact list \<Rightarrow> fleet \<Rightarrow> fleet" where
  "ft_run loads fs s = fold (ft_do loads) fs s"

section \<open>Connections keep their workers\<close>

definition steady :: "coord \<Rightarrow> coord \<Rightarrow> bool" where
  "steady co co' \<longleftrightarrow> co_next co \<le> co_next co' \<and>
     (\<forall>a < co_next co. w_id (co_conns co' a) = w_id (co_conns co a))"

lemma steady_same: "co_next co' = co_next co \<Longrightarrow> co_conns co' = co_conns co \<Longrightarrow> steady co co'"
  by (simp add: steady_def)

lemma steady_trans: "steady a b \<Longrightarrow> steady b c \<Longrightarrow> steady a c"
  by (auto simp: steady_def)

lemma steady_upd: "(\<And>s. w_id (f s) = w_id s) \<Longrightarrow> steady co (upd_conn a f co)"
  by (simp add: steady_def)

lemma steady_send: "steady co (ws_send ok a fr co)"
  by (auto simp: ws_send_def steady_same intro: steady_upd)

lemma steady_publish: "steady co co' \<Longrightarrow> steady co (publish ok ch m co')"
  by (simp add: steady_def)

lemma steady_fault: "apply_fault_local mt fault params co = Inr (b, co') \<Longrightarrow> steady co co'"
  by (rule steady_same) (auto simp: apply_fault_local_def partition_db_def split: if_splits sum.splits)

lemma steady_create_job: "steady co (fst (snd (handle_create_job e body co d)))"
  by (rule steady_same) (simp_all add: handle_create_job_def Let_def
      split: option.split sum.split prod.split exn.split)

lemma steady_chaos: "steady co (snd (handle_chaos e body co))"
  by (auto simp: handle_chaos_def Let_def steady_same steady_fault steady_publish
      split: option.split sum.split prod.split)

lemma steady_chaos_deliver: "chaos_deliver mt m co = Inr co' \<Longrightarrow> steady co co'"
  by (auto simp: chaos_deliver_def Let_def steady_same steady_fault
      split: sum.splits option.splits if_splits)

lemma steady_apply_set_concurrency: "steady co (snd (apply_set_concurrency e wid v n co))"
proof -
  have "steady co (ws_send ok a (FSetConcurrency v) (upd_conn a (\<lambda>s. s\<lparr>w_limit := n\<rparr>) co))" for ok a
    by (rule steady_trans [OF steady_upd steady_send]) simp
  then show ?thesis by (simp add: apply_set_concurrency_def steady_same split: option.split)
qed

lemma steady_set_concurrency: "steady co (snd (handle_set_concurrency e wid body co))"
proof -
  have "steady co co'" if "apply_set_concurrency e wid v n co = (b, co')" for v n b co'
    using steady_apply_set_concurrency [of co e wid v n] that by simp
  then show ?thesis
    by (auto simp: handle_set_concurrency_def Let_def steady_same intro!: steady_publish
        split: option.split sum.split prod.split)
qed

lemma steady_concurrency_deliver: "concurrency_deliver e m co = Inr co' \<Longrightarrow> steady co co'"
  by (auto simp: concurrency_deliver_def steady_same split: if_splits sum.splits option.splits
      intro: steady_apply_set_concurrency)

lemma steady_register: "ws_register first co = Some (a, co') \<Longrightarrow> steady co co'"
  by (auto simp: ws_register_def Let_def reg_add_def steady_def split: option.splits)

lemma steady_finish: "steady co (finish e a raw b co)"
proof -
  let ?co = "upd_conn a (inflight_discard raw) co"
  have u: "steady co ?co" by (rule steady_upd) (simp add: inflight_discard_def)
  have "steady ?co (?co\<lparr>co_drop_acks := n\<rparr>)" for n by (rule steady_same) simp_all
  then show ?thesis using steady_trans [OF u] steady_send by (simp add: finish_def Let_def)
qed

lemma steady_commit_close: "steady co (fst (snd (commit_close e a raw oc co d)))"
proof -
  have "steady co (commit_effects e a raw out co)" for out
    unfolding commit_effects_def
    by (rule steady_trans [OF _ steady_finish]) (auto simp: steady_same split: commit_outcome.split)
  then show ?thesis by (auto simp: commit_close_def steady_same split: prod.split sum.split)
qed

lemma steady_claim_one: "steady co (fst (snd (claim_one e a co d)))"
  by (auto simp: claim_one_def Let_def steady_def ws_send_def inflight_add_def inflight_discard_def
      split: prod.split sum.split option.split)

lemma steady_reap_one: "steady co (fst (snd (reap_one e lid j f co d)))"
  by (rule steady_same) (auto simp: reap_one_def Let_def split: prod.split sum.split reap_outcome.split)

lemma steady_end: "steady co (ws_end a co)"
  by (rule steady_same) (simp_all add: ws_end_def reg_remove_def)

text \<open>Across the cluster: a process lives on steadily, or it has been restarted.\<close>

definition lives_on :: "cluster \<Rightarrow> cluster \<Rightarrow> bool" where
  "lives_on s s' \<longleftrightarrow> (\<forall>c. cl_life s c \<le> cl_life s' c \<and>
     (cl_life s' c = cl_life s c \<longrightarrow> steady (cl_co s c) (cl_co s' c)))"

lemma lives_put: "cl_life s' = cl_life s \<Longrightarrow> cl_co s' = (cl_co s)(c := co) \<Longrightarrow> steady (cl_co s c) co \<Longrightarrow> lives_on s s'"
  by (simp add: lives_on_def steady_same)

lemma lives_idle: "cl_life s' = cl_life s \<Longrightarrow> cl_co s' = cl_co s \<Longrightarrow> lives_on s s'"
  by (simp add: lives_on_def steady_same)

lemma lives_restart: "cl_life s' = cl_life s \<Longrightarrow> cl_co s' = cl_co s \<Longrightarrow> lives_on s (cl_restart c s')"
  by (simp add: lives_on_def steady_same cl_restart_def)

lemma cl_life_put_db [simp]: "cl_life (case p of (r, co, d) \<Rightarrow> cl_put c co (cl_set_db d s)) = cl_life s"
  by (simp split: prod.split)

lemma lives_put_db: "steady (cl_co s c) (fst (snd p)) \<Longrightarrow> lives_on s (case p of (r, co, d) \<Rightarrow> cl_put c co (cl_set_db d s))"
  by (rule lives_put [OF _ cl_co_put_db]) simp_all

lemma lives_hear: "lives_on s (cl_hear c e msg s)"
proof -
  have idle: "\<exists>co. cl_co s = (cl_co s)(c := co) \<and> steady (cl_co s c) co"
    by (rule exI [of _ "cl_co s c"]) (simp add: steady_same)
  have "\<exists>co. cl_co (cl_hear c e msg s) = (cl_co s)(c := co) \<and> steady (cl_co s c) co"
    using idle by (cases msg) (auto simp: cl_hear_def Let_def steady_same steady_chaos_deliver
        steady_concurrency_deliver split: sum.split)
  moreover have "cl_life (cl_hear c e msg s) = cl_life s"
    by (cases msg) (simp add: cl_hear_def Let_def split: sum.split)
  ultimately show ?thesis by (auto intro: lives_put)
qed

lemma cl_do_lives: "lives_on s (cl_do a s)"
proof (cases a)
  case (ACancel c e e2 j)
  then show ?thesis by (simp add: lives_idle)
next
  case (AFault c e body)
  then show ?thesis using steady_chaos by (auto intro: lives_put)
next
  case (ASetConcurrency c e wid body)
  then show ?thesis using steady_set_concurrency by (auto intro: lives_put)
next
  case (ARegister c first)
  then show ?thesis by (auto simp: lives_idle split: option.split intro: lives_put dest: steady_register)
next
  case (AMessage c e a data)
  then show ?thesis by (simp add: lives_idle lives_put_db route_other_coord steady_same)
next
  case (AOpenCommit c e a data n)
  then show ?thesis by (simp add: lives_idle split: option.split)
next
  case (ACloseCommit e n)
  then show ?thesis
    using steady_commit_close [of "cl_co s c" for c] 
    by (cases "s_open (cl_sys s) n"; cases "cl_slots s n")
      (auto simp: lives_idle split: prod.split intro!: lives_put, metis fst_conv snd_conv)
next
  case (ADieInCommit e n)
  then show ?thesis
    by (cases "s_open (cl_sys s) n"; cases "cl_slots s n")
      (auto simp: lives_idle lives_restart split: prod.split)
next
  case (ADisconnect c a)
  then show ?thesis using steady_end by (auto intro: lives_put)
qed (simp_all add: lives_idle lives_put_db lives_hear lives_restart steady_create_job steady_claim_one steady_reap_one)

end
