(* ===== verification/Results.thy ===== *)
theory Results
  imports Fleet
begin

text \<open>
  Who writes the table of commits and the results of jobs: only the end of a commit transaction does,
  so what every commit row and every result satisfies is decided where a commit is opened.
\<close>

section \<open>Who writes commits and results\<close>

definition outcomes :: "job_row list \<Rightarrow> (uuid \<times> json option) list" where
  "outcomes rs = map (\<lambda>r. (j_id r, j_result r)) (filter (\<lambda>r. j_result r \<noteq> None) rs)"

definition written :: "db \<Rightarrow> commit_row list \<times> (uuid \<times> json option) list" where
  "written d = (commits d, outcomes (jobs d))"

lemma outcomes_set_state [simp]: "outcomes (jobs (set_job_state j s t d)) = outcomes (jobs d)"
proof -
  have "outcomes (upd_where (\<lambda>r. j_id r = j) (\<lambda>r. r\<lparr>j_state := s, j_updated := t\<rparr>) rs) = outcomes rs" for rs
    by (induction rs) (simp_all add: outcomes_def upd_where_def)
  then show ?thesis by (simp add: set_job_state_def)
qed

lemma written_statements [simp]:
  "written (set_job_state j s t d) = written d"
  "written (record_transition j fr to coord t d) = written d"
  "written (insert_lease j f w iss expr d) = written d"
  "written (expire_lease lid t d) = written d"
  "j_result r = None \<Longrightarrow> written (insert_job r d) = written d"
  "written (d\<lparr>leases := ls\<rparr>) = written d"
  "written (roll_back d d') = written d"
  by (simp_all add: written_def, simp_all add: statement_defs outcomes_def roll_back_def)

lemma written_transaction: "written (snd (body d)) = written d \<Longrightarrow> written (snd (transaction mt co body d)) = written d"
  by (auto simp: transaction_def split: option.split prod.split sum.split)

lemma written_create_job: "written (snd (snd (handle_create_job e body co d))) = written d"
proof -
  have "written (snd (create_tx e key pl coord d)) = written d" for key pl coord
    by (simp add: create_tx_def Let_def split: option.split)
  then show ?thesis
    unfolding create_job_db by (simp add: written_transaction split: option.split sum.split prod.split)
qed

lemma written_cancel: "written (snd (handle_cancel_job e e2 id j co d)) = written d"
proof -
  have "written (snd (cancel_body e j coord d)) = written d" for coord
    by (auto simp: cancel_body_def cancel_tx_def split: sum.split prod.split)
  then have "written (snd (transaction (e_mono e) co (cancel_body e j (co_id co)) d)) = written d"
    by (rule written_transaction)
  then show ?thesis by (auto simp: cancel_job_db split: prod.split)
qed

lemma written_claim: "written (snd (snd (claim_one e a co d))) = written d"
  by (cases rule: claim_one_cases [of e co a d]) (simp_all add: leased_db_fields written_def)

lemma written_reap: "written (snd (snd (reap_one e lid j f co d))) = written d"
proof -
  have "written (snd (reap_body e coord lid j f d)) = written d" for coord
    by (auto simp: reap_body_def reap_tx_def Let_def split: option.split prod.split)
  then have "written (snd (transaction (e_mono e) co (reap_body e (co_id co) lid j f) d)) = written d"
    by (rule written_transaction)
  then show ?thesis
    by (auto simp: reap_one_def Let_def split: prod.splits sum.split reap_outcome.split)
qed

lemma written_route:
  assumes "dget data ''type'' \<noteq> JStr ''commit''"
  shows "written (snd (snd (route e a data co d))) = written d"
proof -
  have "written (snd (handle_heartbeat e data co d)) = written d"
    by (auto simp: handle_heartbeat_def renew_tx_def Let_def split: option.split sum.split)
  then show ?thesis
    using assms by (auto simp: route_def split: sum.split prod.splits exn.split)
qed

text \<open>
  Every row that finishing a commit adds names the worker, job and fence it was opened for, and a
  result it stores comes with an accepted row.
\<close>

lemma commits_finish:
  assumes "k \<in> set (commits (snd (finish_tx e oc d)))"
  shows "k \<in> set (commits d) \<or> c_worker k = oc_worker oc \<and> c_job k = oc_job oc \<and> c_fence k = oc_fence oc"
  using assms
  by (auto simp: finish_tx_def commit_writes_snd accepted_db_def statement_defs
      split: option.splits prod.splits bool.splits if_splits)

lemma outcomes_finish:
  assumes "(j, res) \<in> set (outcomes (jobs (snd (finish_tx e oc d))))"
  shows "(j, res) \<in> set (outcomes (jobs d)) \<or> j = oc_job oc \<and> res = Some (oc_result oc) \<and>
    (\<exists>k \<in> set (commits (snd (finish_tx e oc d))). c_accepted k \<and> c_job k = j \<and> c_worker k = oc_worker oc)"
  by (cases rule: commit_writes_cases [of "oc_reads oc" e "oc_coord oc" "oc_job oc" "oc_fence oc"
          "oc_worker oc" "oc_result oc" d])
    (use assms in \<open>auto simp: finish_tx_def accepted_db_def statement_defs outcomes_def upd_where_def split: if_splits\<close>)

lemma finish_adds: "set (commits d) \<subseteq> set (commits (snd (finish_tx e oc d)))"
  by (auto simp: finish_tx_def commit_writes_snd accepted_db_def statement_defs
      split: option.split prod.split bool.split)

text \<open>The results a worker sends.\<close>

definition result_of :: "string \<Rightarrow> json \<Rightarrow> bool" where
  "result_of w res \<longleftrightarrow> (\<exists>n. 0 \<le> n \<and> n \<le> 60000 \<and> res = job_result_msg w n)"

lemma sleep_ms_result: "sleep_ms loads data = Inr n \<Longrightarrow> result_of w (job_result_msg w n)"
  unfolding result_of_def by (rule exI [of _ n]) (auto simp: sleep_ms_def split: sum.splits)

definition writes_ok :: "cluster \<Rightarrow> bool" where
  "writes_ok s \<longleftrightarrow>
     (\<forall>n oc. s_open (cl_sys s) n = Some oc \<longrightarrow>
        issued (cl_db s) (oc_worker oc) (oc_job oc) (oc_fence oc) \<and> result_of (oc_worker oc) (oc_result oc)) \<and>
     (\<forall>k \<in> set (commits (cl_db s)). issued (cl_db s) (c_worker k) (c_job k) (c_fence k)) \<and>
     (\<forall>j res. (j, Some res) \<in> set (outcomes (jobs (cl_db s))) \<longrightarrow>
        (\<exists>k \<in> set (commits (cl_db s)). c_accepted k \<and> c_job k = j \<and> result_of (c_worker k) res))"

lemma writes_okD:
  assumes "writes_ok s"
  shows "s_open (cl_sys s) n = Some oc \<Longrightarrow> issued (cl_db s) (oc_worker oc) (oc_job oc) (oc_fence oc)"
    "s_open (cl_sys s) n = Some oc \<Longrightarrow> result_of (oc_worker oc) (oc_result oc)"
    "k \<in> set (commits (cl_db s)) \<Longrightarrow> issued (cl_db s) (c_worker k) (c_job k) (c_fence k)"
    "(j, Some res) \<in> set (outcomes (jobs (cl_db s))) \<Longrightarrow>
       \<exists>k \<in> set (commits (cl_db s)). c_accepted k \<and> c_job k = j \<and> result_of (c_worker k) res"
  using assms unfolding writes_ok_def by blast+

lemma writes_same:
  assumes "writes_ok s" and "history_kept (cl_db s) (cl_db s')" and "written (cl_db s') = written (cl_db s)"
    and "\<And>n oc. s_open (cl_sys s') n = Some oc \<Longrightarrow> s_open (cl_sys s) n = Some oc"
  shows "writes_ok s'"
proof -
  have same: "commits (cl_db s') = commits (cl_db s)" "outcomes (jobs (cl_db s')) = outcomes (jobs (cl_db s))"
    using assms(3) by (simp_all add: written_def)
  show ?thesis
    unfolding writes_ok_def same using writes_okD [OF assms(1)] issued_kept [OF assms(2)] assms(4) by blast
qed

lemma db_put_db: "cl_db (case p of (r, co, d) \<Rightarrow> cl_put c co (cl_set_db d s)) = snd (snd p)"
  "s_open (cl_sys (case p of (r, co, d) \<Rightarrow> cl_put c co (cl_set_db d s))) = s_open (cl_sys s)"
  by (simp_all split: prod.split)

lemma close_writes:
  assumes "writes_ok s" and "history_kept (cl_db s) (cl_db s')" and "s_open (cl_sys s) n = Some oc"
    and "cl_db s' = snd (finish_tx e oc (cl_db s))" and "s_open (cl_sys s') = (s_open (cl_sys s))(n := None)"
  shows "writes_ok s'"
  unfolding writes_ok_def
proof (intro conjI allI impI ballI)
  note old = writes_okD [OF assms(1)] and kept = issued_kept [OF assms(2)]
  show "issued (cl_db s') (oc_worker oc') (oc_job oc') (oc_fence oc')" "result_of (oc_worker oc') (oc_result oc')"
    if "s_open (cl_sys s') m = Some oc'" for m oc'
    using that old(1,2) kept assms(5) by (auto split: if_splits)
  show "issued (cl_db s') (c_worker k) (c_job k) (c_fence k)" if "k \<in> set (commits (cl_db s'))" for k
    using commits_finish [of k e oc "cl_db s"] that old(1) [OF assms(3)] old(3) kept assms(4) by auto
  show "\<exists>k \<in> set (commits (cl_db s')). c_accepted k \<and> c_job k = j \<and> result_of (c_worker k) res"
    if "(j, Some res) \<in> set (outcomes (jobs (cl_db s')))" for j res
    using outcomes_finish [of j "Some res" e oc "cl_db s"] finish_adds [of "cl_db s" e oc] that
      old(2) [OF assms(3)] old(4) [of j res] assms(4) by (metis option.inject subsetD)
qed

lemma cl_do_writes:
  assumes "pushed_inv s" and "writes_ok s" and "from_outside a \<or> (\<exists>c e b data. a = AMessage c e b data) \<or> (\<exists>c m. a = ARegister c m)"
  shows "writes_ok (cl_do a s)"
proof -
  note same = writes_same [OF assms(2) pushed_kept [OF assms(1)]]
  show ?thesis
  proof (cases a)
    case (ASubmit c e body)
    show ?thesis unfolding ASubmit by (rule same) (simp_all add: db_put_db written_create_job)
  next
    case (ACancel c e e2 j)
    show ?thesis unfolding ACancel by (rule same) (simp_all add: written_cancel)
  next
    case (ARegister c first)
    show ?thesis unfolding ARegister by (rule same) (simp_all split: option.splits prod.splits)
  next
    case (AMessage c e b data)
    show ?thesis unfolding AMessage by (rule same) (auto simp: db_put_db written_route split: if_splits)
  next
    case (ACloseCommit e n)
    show ?thesis
    proof (cases "alive n s")
      case None
      then show ?thesis unfolding ACloseCommit
        by (intro same) (auto simp: alive_def split: option.splits if_splits)
    next
      case (Some p)
      then obtain oc sl where o: "s_open (cl_sys s) n = Some oc" "cl_slots s n = Some sl"
          "sl_life sl = cl_life s (sl_co sl)" by (auto simp: alive_def split: option.splits if_splits)
      obtain r co d where c: "commit_close e (sl_conn sl) (sl_raw sl) oc (cl_co s (sl_co sl)) (cl_db s) = (r, co, d)"
        by (metis surj_pair)
      then have "d = snd (finish_tx e oc (cl_db s))"
        using commit_close_db [of e "sl_conn sl" "sl_raw sl" oc "cl_co s (sl_co sl)" "cl_db s"] by simp
      then show ?thesis unfolding ACloseCommit using o c
        by (intro close_writes [OF assms(2) pushed_kept [OF assms(1)] o(1), of _ e]) (simp_all add: sys_close_def)
    qed
  next
    case (ADieInCommit e n)
    show ?thesis unfolding ADieInCommit
      by (rule same) (auto simp: sys_close_def split: option.splits if_splits prod.splits)
  next
    case (AClaim c e b)
    show ?thesis unfolding AClaim by (rule same) (auto simp: db_put_db written_claim split: if_splits)
  next
    case (AReap c e lid j f)
    show ?thesis unfolding AReap by (rule same) (auto simp: db_put_db written_reap split: if_splits)
  next
    case (AOpenCommit c e b data n)
    then show ?thesis using assms(3) by simp
  next
    case (AFault c e body)
    show ?thesis unfolding AFault by (rule same) simp_all
  next
    case (ASetConcurrency c e wid body)
    show ?thesis unfolding ASetConcurrency by (rule same) simp_all
  next
    case (AHear c e k)
    show ?thesis unfolding AHear by (rule same) (simp_all split: if_splits)
  next
    case (ALoseCommit n)
    show ?thesis unfolding ALoseCommit by (rule same) (simp_all add: sys_close_def split: if_splits)
  next
    case (ADisconnect c b)
    show ?thesis unfolding ADisconnect by (rule same) simp_all
  next
    case (ARestart c)
    show ?thesis unfolding ARestart by (rule same) simp_all
  qed
qed

end
