(* ===== verification/FleetSafety.thy ===== *)
theory FleetSafety
  imports Results
begin

text \<open>
  With workers that run the worker's program, every commit that any coordinator records is backed by a
  lease of the worker that sent it: a job goes from a lease to a dispatch, to the worker's task, to its
  frames, to the commit handler, and neither its id nor its fence nor its worker is ever mixed up.
\<close>

section \<open>The worker's side\<close>

lemma inner_keeps:
  assumes "wk_do loads ev w = Some w'" and "inner ev"
  shows "wk_got w' = wk_got w \<and> wk_id w' = wk_id w"
  using assms
  by (cases ev) (auto simp: task_begin_def enter_slot_def to_commit_def finish_commit_def task_beat_def
      task_tick_def task_send_def task_timeout_def wk_step_defs Let_def
      split: option.splits sum.splits phase.splits if_splits)

lemma drop_keeps: "wk_got (wk_drop w) = wk_got w \<and> wk_id (wk_drop w) = wk_id w"
proof -
  have c: "wk_got (cancel_task t v) = wk_got v \<and> wk_id (cancel_task t v) = wk_id v" for t v
    by (auto simp: cancel_task_def finish_commit_def wk_step_defs split: option.split phase.split sum.split)
  have "wk_got (fold cancel_task ts v) = wk_got v \<and> wk_id (fold cancel_task ts v) = wk_id v" for ts v
    by (induction ts arbitrary: v) (simp_all add: c)
  then show ?thesis by (simp add: wk_drop_def)
qed

lemma read_cases:
  obtains (job) j p f where "fr = FDispatch j p f"
      "wk_handle (frame_json fr) w = Inr (wk_read fr w)" "wk_id (wk_read fr w) = wk_id w"
      "wk_got (wk_read fr w) = (wk_got w)(wk_next w \<mapsto> frame_json fr)"
  | (other) "wk_handle (frame_json fr) w = Inr (wk_read fr w)" "wk_id (wk_read fr w) = wk_id w"
      "wk_got (wk_read fr w) = wk_got w"
proof (cases fr)
  case (FDispatch j p f)
  then show ?thesis by (intro job) (simp_all add: wk_read_def wk_handle_def Let_def)
qed (intro other; simp add: wk_read_def wk_handle_def Let_def split: option.split)+

lemma drop_ok: "wk_ok w \<Longrightarrow> wk_ok (wk_drop w)"
  by (simp add: wk_ok_def slots_drop acks_drop drop_tasks)

lemma read_ok:
  assumes "wk_ok w" and "sends_ok loads w" and "wk_up w"
  shows "wk_ok (wk_read fr w) \<and> sends_ok loads (wk_read fr w)"
proof -
  have "wk_handle (frame_json fr) w = Inr (wk_read fr w)" by (cases rule: read_cases [of fr w])
  then show ?thesis
    using assms slots_handle acks_handle sends_handle handle_up by (auto simp: wk_ok_def)
qed

lemma sent_since_frame:
  assumes "sends_ok loads w" and "fr \<in> set (sent_since n w)"
  shows "\<exists>t data. wk_got w t = Some data \<and> frame_of loads (wk_id w) data fr"
proof -
  obtain c t where "(c, Some t, fr, True) \<in> set (wk_sent w)"
    using assms(2) by (auto simp: sent_since_def dest!: in_set_dropD)
  then show ?thesis using assms(1) by (fastforce simp: sends_ok_def sent_ok_def)
qed

section \<open>The invariant of the fleet\<close>

definition leased_dispatch :: "db \<Rightarrow> string \<Rightarrow> json \<Rightarrow> bool" where
  "leased_dispatch d w data \<longleftrightarrow> (\<exists>j p f. issued d w j f \<and> data = frame_json (FDispatch j p f))"

definition leased_frame :: "db \<Rightarrow> string \<Rightarrow> json \<Rightarrow> bool" where
  "leased_frame d w fr \<longleftrightarrow> (\<exists>j f. issued d w j f \<and>
     (fr = heartbeat_msg (JStr j) (JInt f) \<or> (\<exists>res. result_of w res \<and> fr = commit_msg (JStr j) (JInt f) res)))"

definition worker_inv :: "(string \<Rightarrow> json option) \<Rightarrow> db \<Rightarrow> string \<Rightarrow> wproc \<Rightarrow> bool" where
  "worker_inv loads d wid w \<longleftrightarrow> wk_id w = wid \<and> wk_ok w \<and> sends_ok loads w \<and>
     (\<forall>t data. wk_got w t = Some data \<longrightarrow> leased_dispatch d wid data)"

text \<open>The connection at \<open>a\<close> of \<open>c\<close> belongs to \<open>wid\<close>, as long as that process lives.\<close>

definition leads_to :: "cluster \<Rightarrow> nat \<Rightarrow> nat \<Rightarrow> nat \<Rightarrow> string \<Rightarrow> bool" where
  "leads_to cl c life a wid \<longleftrightarrow> life \<le> cl_life cl c \<and>
     (life = cl_life cl c \<longrightarrow> a < co_next (cl_co cl c) \<and> w_id (co_conns (cl_co cl c) a) = wid)"

definition link_inv :: "cluster \<Rightarrow> string \<Rightarrow> link \<Rightarrow> bool" where
  "link_inv cl wid lk \<longleftrightarrow> leads_to cl (lk_co lk) (lk_life lk) (lk_conn lk) wid"

definition letter_inv :: "cluster \<Rightarrow> letter \<Rightarrow> bool" where
  "letter_inv cl le \<longleftrightarrow> (\<exists>wid. leads_to cl (le_co le) (le_life le) (le_conn le) wid \<and>
     leased_frame (cl_db cl) wid (le_frame le))"

definition fleet_inv :: "(string \<Rightarrow> json option) \<Rightarrow> (nat \<Rightarrow> string) \<Rightarrow> fleet \<Rightarrow> bool" where
  "fleet_inv loads wids s \<longleftrightarrow> pushed_inv (ft_cl s) \<and> writes_ok (ft_cl s) \<and>
     (\<forall>i. worker_inv loads (ft_db s) (wids i) (ft_wk s i)) \<and>
     (\<forall>i lk. ft_link s i = Some lk \<longrightarrow> link_inv (ft_cl s) (wids i) lk) \<and>
     (\<forall>le \<in> set (ft_mail s). letter_inv (ft_cl s) le)"

lemma leased_kept:
  "history_kept d d' \<Longrightarrow> leased_dispatch d w data \<Longrightarrow> leased_dispatch d' w data"
  "history_kept d d' \<Longrightarrow> leased_frame d w fr \<Longrightarrow> leased_frame d' w fr"
  by (auto simp: leased_dispatch_def leased_frame_def intro: issued_kept)

lemma leads_lives: "lives_on cl cl' \<Longrightarrow> leads_to cl c life a wid \<Longrightarrow> leads_to cl' c life a wid"
  unfolding lives_on_def leads_to_def steady_def by (metis order.antisym order_less_le_trans order_trans)

text \<open>What a step of the cluster alone does to the rest.\<close>

lemma fleet_cluster:
  assumes "fleet_inv loads wids s" and "writes_ok (cl_do a (ft_cl s))"
  shows "fleet_inv loads wids (s\<lparr>ft_cl := cl_do a (ft_cl s)\<rparr>)"
proof -
  let ?cl = "ft_cl s" and ?cl' = "cl_do a (ft_cl s)"
  have inv: "pushed_inv ?cl" using assms(1) by (simp add: fleet_inv_def)
  note kept = pushed_kept [OF inv, of a] and lives = cl_do_lives [of ?cl a]
  have "worker_inv loads (cl_db ?cl') wid w" if "worker_inv loads (cl_db ?cl) wid w" for wid w
    using that leased_kept(1) [OF kept] by (simp add: worker_inv_def)
  moreover have "link_inv ?cl' wid lk" if "link_inv ?cl wid lk" for wid lk
    using that leads_lives [OF lives] by (simp add: link_inv_def)
  moreover have "letter_inv ?cl' le" if "letter_inv ?cl le" for le
    using that leads_lives [OF lives] leased_kept(2) [OF kept] unfolding letter_inv_def by blast
  ultimately show ?thesis
    using assms cl_do_pushed [OF inv] by (auto simp: fleet_inv_def)
qed

text \<open>A commit is opened for what its letter says.\<close>

lemma issued_job_row:
  assumes "core_inv d" and "issued d w j f"
  shows "j \<in> j_id ` set (jobs d)"
proof -
  have "job_state j d \<noteq> None" using assms core_invD(6) [OF assms(1)] by (auto simp: issued_def live_ok_def)
  then show ?thesis by (auto simp: job_state_def find_job_def find_Some_iff)
qed

lemma open_writes:
  assumes "pushed_inv cl" and "writes_ok cl" and "driver_ok e (cl_db cl)"
    and "leased_frame (cl_db cl) (w_id (co_conns (cl_co cl c) a)) fr"
    and "dget fr ''type'' = JStr ''commit''"
  shows "writes_ok (cl_do (AOpenCommit c e a fr n) cl)"
proof (cases "commit_open e a fr (cl_co cl c) (cl_db cl)")
  case None
  then show ?thesis using assms(2) by (simp split: option.split)
next
  case (Some oc)
  obtain j f where l: "issued (cl_db cl) (w_id (co_conns (cl_co cl c) a)) j f"
      "dget fr ''job_id'' = JStr j" "dget fr ''fence'' = JInt f"
      "result_of (w_id (co_conns (cl_co cl c) a)) (result_json (dget fr ''result''))"
    using assms(4,5)
    by (auto simp: leased_frame_def heartbeat_msg_def commit_msg_def result_of_def result_json_def job_result_msg_def)
  have "core_inv (cl_db cl)" using assms(1) by (simp add: pushed_inv_def sys_inv_def)
  from issued_job_row [OF this l(1)] have "e_uuid e j = Some j"
    using assms(3) by (auto simp: driver_ok_def list_all_iff)
  then have "oc_worker oc = w_id (co_conns (cl_co cl c) a) \<and> oc_job oc = j \<and> oc_fence oc = f \<and>
      oc_result oc = result_json (dget fr ''result'')"
    using Some l by (auto simp: commit_open_def open_tx_def json_uuid_def as_uuid_def Let_def split: if_splits)
  then show ?thesis using assms(2) Some l(1,4)
    by (auto simp: writes_ok_def split: option.split)
qed

lemma deliver_ok:
  assumes "fleet_inv loads wids s"
  shows "fleet_inv loads wids (ft_do loads (FDeliver k e n) s)"
proof -
  let ?le = "ft_mail s ! k" and ?cl = "ft_cl s"
  have inv: "pushed_inv ?cl" "writes_ok ?cl" using assms by (simp_all add: fleet_inv_def)
  have "fleet_inv loads wids (s\<lparr>ft_cl := cl_do (if dget (le_frame ?le) ''type'' = JStr ''commit''
        then AOpenCommit (le_co ?le) e (le_conn ?le) (le_frame ?le) n
        else AMessage (le_co ?le) e (le_conn ?le) (le_frame ?le)) ?cl\<rparr>)"
    if "k < length (ft_mail s)" "le_life ?le = cl_life ?cl (le_co ?le)" "driver_ok e (ft_db s)"
  proof (rule fleet_cluster [OF assms])
    have "letter_inv ?cl ?le" using assms that(1) by (simp add: fleet_inv_def)
    then have "leased_frame (cl_db ?cl) (w_id (co_conns (cl_co ?cl (le_co ?le)) (le_conn ?le))) (le_frame ?le)"
      using that(2) by (auto simp: letter_inv_def leads_to_def)
    from open_writes [OF inv that(3) this]
    show "writes_ok (cl_do (if dget (le_frame ?le) ''type'' = JStr ''commit''
        then AOpenCommit (le_co ?le) e (le_conn ?le) (le_frame ?le) n
        else AMessage (le_co ?le) e (le_conn ?le) (le_frame ?le)) ?cl)"
      using cl_do_writes [OF inv, of "AMessage (le_co ?le) e (le_conn ?le) (le_frame ?le)"]
      by (simp del: cl_do.simps)
  qed
  then show ?thesis using assms by (simp add: Let_def del: cl_do.simps)
qed

lemma fleet_worker:
  assumes "fleet_inv loads wids s" and "worker_inv loads (ft_db s) (wids i) w"
  shows "fleet_inv loads wids (s\<lparr>ft_wk := (ft_wk s)(i := w)\<rparr>)"
  using assms by (simp add: fleet_inv_def)

lemma fleet_unlink:
  assumes "fleet_inv loads wids s"
  shows "fleet_inv loads wids (s\<lparr>ft_link := (ft_link s)(i := None)\<rparr>)"
  using assms by (auto simp: fleet_inv_def split: if_splits)

lemma connect_worker:
  assumes "worker_inv loads d wid w" and "\<not> wk_up w"
  shows "worker_inv loads d' wid (wk_connect ok w)"
proof -
  have "wk_do loads (EConnect ok) w = Some (wk_connect ok w)" using assms(2) by simp
  then have "wk_ok (wk_connect ok w)" "sends_ok loads (wk_connect ok w)"
    using assms(1) wk_ok_step [OF _ wk_step.step] sends_do unfolding worker_inv_def by blast+
  then show ?thesis using assms(1) by (simp add: worker_inv_def wk_connect_def log_send_def Let_def)
qed

lemma connect_ok:
  assumes "fleet_inv loads wids s"
  shows "fleet_inv loads wids (ft_do loads (FConnect i c ok) s)"
proof (cases "wk_up (ft_wk s i)")
  case False
  let ?w = "ft_wk s i" and ?cl = "ft_cl s"
  have w: "worker_inv loads (ft_db s) (wids i) ?w" using assms by (simp add: fleet_inv_def)
  show ?thesis
  proof (cases ok)
    case True
    let ?a = "ARegister c (register_msg (wk_id ?w) (wk_conc ?w))"
      and ?lk = "\<lparr>lk_co = c, lk_life = cl_life ?cl c, lk_conn = co_next (cl_co ?cl c), lk_read = 0\<rparr>"
    let ?s = "s\<lparr>ft_cl := cl_do ?a ?cl\<rparr>"
    obtain a co where r: "ws_register (register_msg (wk_id ?w) (wk_conc ?w)) (cl_co ?cl c) = Some (a, co)"
      by (simp add: ws_register_def register_msg_def parse_register_def Let_def)
    have p: "parse_register (register_msg (wk_id ?w) (wk_conc ?w)) = Some (wk_id ?w, wk_conc ?w)"
      by (simp add: register_msg_def parse_register_def)
    have "link_inv (cl_do ?a ?cl) (wids i) ?lk"
      using ws_register_fields [OF r p] r w
      by (simp add: link_inv_def leads_to_def new_conn_def worker_inv_def)
    moreover have f: "fleet_inv loads wids ?s"
      using assms by (intro fleet_cluster cl_do_writes) (simp_all add: fleet_inv_def)
    moreover have "worker_inv loads (ft_db ?s) (wids i) (wk_connect True ?w)"
      using w False by (rule connect_worker)
    ultimately show ?thesis
      using False True by (auto simp: fleet_inv_def Let_def simp del: cl_do.simps)
  next
    case no: False
    show ?thesis
      using fleet_unlink [OF fleet_worker [OF assms connect_worker [OF w False]]] False no by simp
  qed
qed (simp add: assms)

lemma read_worker:
  assumes "worker_inv loads d wid w" and "wk_up w"
    and "\<And>j p f. fr = FDispatch j p f \<Longrightarrow> issued d wid j f"
  shows "worker_inv loads d wid (wk_read fr w)"
proof -
  have ok: "wk_ok (wk_read fr w) \<and> sends_ok loads (wk_read fr w)"
    using assms(1,2) by (intro read_ok) (simp_all add: worker_inv_def)
  show ?thesis
  proof (cases rule: read_cases [of fr w])
    case (job j p f)
    then have "leased_dispatch d wid (frame_json fr)" using assms(3) by (auto simp: leased_dispatch_def)
    then show ?thesis using ok job assms(1) by (auto simp: worker_inv_def)
  next
    case other
    then show ?thesis using ok assms(1) by (simp add: worker_inv_def)
  qed
qed

lemma sent_dispatch: "FDispatch j p f \<in> set (w_sent s) \<Longrightarrow> (j, f) \<in> set (dispatches s)"
  by (force simp: dispatches_def)

lemma read_step_ok:
  assumes "fleet_inv loads wids s"
  shows "fleet_inv loads wids (ft_do loads (FRead i) s)"
proof (cases "ft_link s i")
  case (Some lk)
  let ?s = "co_conns (cl_co (ft_cl s) (lk_co lk)) (lk_conn lk)"
  let ?fr = "w_sent ?s ! lk_read lk"
  have l: "link_inv (ft_cl s) (wids i) lk" using assms Some by (simp add: fleet_inv_def)
  have "fleet_inv loads wids (s\<lparr>ft_wk := (ft_wk s)(i := wk_read ?fr (ft_wk s i)),
      ft_link := (ft_link s)(i \<mapsto> lk\<lparr>lk_read := lk_read lk + 1\<rparr>)\<rparr>)"
    if up: "wk_up (ft_wk s i)" and live: "lk_life lk = cl_life (ft_cl s) (lk_co lk)" and more: "lk_read lk < length (w_sent ?s)"
  proof -
    have "w_id ?s = wids i" using l live by (simp add: link_inv_def leads_to_def)
    moreover have "conn_backed (ft_db s) ?s" using assms by (simp add: fleet_inv_def pushed_inv_def pushes_ok_def)
    ultimately have "issued (ft_db s) (wids i) j f" if "?fr = FDispatch j p f" for j p f
      using that nth_mem [OF more] sent_dispatch [of j p f ?s] by (auto simp: conn_backed_def)
    then have "worker_inv loads (ft_db s) (wids i) (wk_read ?fr (ft_wk s i))"
      using assms up by (intro read_worker) (auto simp: fleet_inv_def)
    from fleet_worker [OF assms this] show ?thesis
      using l by (auto simp: fleet_inv_def link_inv_def)
  qed
  then show ?thesis using assms Some by (simp add: Let_def)
qed (simp add: assms)

lemma work_ok:
  assumes "fleet_inv loads wids s"
  shows "fleet_inv loads wids (ft_do loads (FWork i ev) s)"
proof (cases "wk_do loads ev (ft_wk s i)")
  case (Some w)
  have "fleet_inv loads wids (ft_do loads (FWork i ev) s)" if "inner ev"
  proof -
    let ?d = "ft_db s"
    have old: "worker_inv loads ?d (wids i) (ft_wk s i)" using assms by (simp add: fleet_inv_def)
    have ok: "wk_ok w" "sends_ok loads w"
      using old Some wk_ok_step [OF _ wk_step.step] sends_do unfolding worker_inv_def by blast+
    have keep: "wk_got w = wk_got (ft_wk s i)" "wk_id w = wids i"
      using inner_keeps [OF Some that] old by (simp_all add: worker_inv_def)
    have inv: "worker_inv loads ?d (wids i) w" using old ok keep by (simp add: worker_inv_def)
    have sent: "leased_frame ?d (wids i) fr" if fr: "fr \<in> set (sent_since n w)" for fr n
    proof -
      obtain t data where td: "wk_got w t = Some data" "frame_of loads (wk_id w) data fr"
        using sent_since_frame [OF ok(2) fr] by blast
      then obtain j p f where l: "issued ?d (wids i) j f" "data = frame_json (FDispatch j p f)"
        using inv unfolding worker_inv_def leased_dispatch_def by blast
      have "fr = heartbeat_msg (JStr j) (JInt f) \<or> (\<exists>res. result_of (wids i) res \<and> fr = commit_msg (JStr j) (JInt f) res)"
        using td(2) l(2) keep(2) sleep_ms_result by (fastforce simp: frame_of_def)
      then show ?thesis using l(1) unfolding leased_frame_def by blast
    qed
    have "letter_inv (ft_cl s) \<lparr>le_co = lk_co lk, le_life = lk_life lk, le_conn = lk_conn lk, le_frame = fr\<rparr>"
      if l: "ft_link s i = Some lk" "fr \<in> set (sent_since n w)" for lk fr n
    proof -
      have "leads_to (ft_cl s) (lk_co lk) (lk_life lk) (lk_conn lk) (wids i)"
        using assms l(1) by (simp add: fleet_inv_def link_inv_def)
      then show ?thesis using sent [OF l(2)] unfolding letter_inv_def by auto
    qed
    then show ?thesis
      using fleet_worker [OF assms inv] Some that by (auto simp: fleet_inv_def split: option.split)
  qed
  then show ?thesis using assms by (cases "inner ev") simp_all
qed (simp add: assms)

lemma new_worker: "worker_inv loads d wid (wk_new wid n)"
  by (simp add: worker_inv_def wk_ok_new sends_ok_new, simp add: wk_new_def)

lemma ft_do_ok:
  assumes "fleet_inv loads wids s"
  shows "fleet_inv loads wids (ft_do loads fa s)"
proof (cases fa)
  case (FCluster a)
  have "writes_ok (cl_do a (ft_cl s))" if "from_outside a"
    using assms that by (intro cl_do_writes) (simp_all add: fleet_inv_def)
  then show ?thesis using FCluster fleet_cluster [OF assms] assms by (simp del: cl_do.simps)
next
  case (FConnect i c ok)
  show ?thesis unfolding FConnect using assms by (rule connect_ok)
next
  case (FRead i)
  show ?thesis unfolding FRead using assms by (rule read_step_ok)
next
  case (FWork i ev)
  show ?thesis unfolding FWork using assms by (rule work_ok)
next
  case (FLose i)
  have "worker_inv loads (ft_db s) (wids i) (wk_drop (ft_wk s i))"
    using assms drop_keeps [of "ft_wk s i"] by (auto simp: fleet_inv_def worker_inv_def intro: drop_ok sends_drop)
  from fleet_unlink [OF fleet_worker [OF assms this]] show ?thesis using FLose assms by simp
next
  case (FKill i n)
  have "wk_id (ft_wk s i) = wids i" using assms by (simp add: fleet_inv_def worker_inv_def)
  then have "worker_inv loads (ft_db s) (wids i) (wk_new (wk_id (ft_wk s i)) n)" using new_worker by simp
  from fleet_unlink [OF fleet_worker [OF assms this]] show ?thesis using FKill by simp
next
  case (FDeliver k e n)
  show ?thesis unfolding FDeliver using assms by (rule deliver_ok)
qed

lemma ft_run_ok: "fleet_inv loads wids (ft_run loads fs (ft_start ids ttl wids conc))"
proof -
  have start: "fleet_inv loads wids (ft_start ids ttl wids conc)"
    using cl_run_pushed [of "[]" ids ttl] new_worker
    by (simp add: fleet_inv_def ft_start_def writes_ok_def, simp add: cl_start_def sys_start_def empty_db_def outcomes_def)
  have "fleet_inv loads wids (ft_run loads fs s)" if "fleet_inv loads wids s" for s
    using that by (induction fs arbitrary: s) (simp_all add: ft_run_def ft_do_ok)
  then show ?thesis using start .
qed

section \<open>Properties\<close>

text \<open>
  C3. Nothing is mixed up between a lease and a result. In every run of coordinators and workers,
  with frames delivered in any order and more than once, connections lost and processes killed at
  any point: a worker's tasks work on leases issued to that worker; every commit recorded by
  any coordinator, accepted or rejected, names a lease that was issued to the worker it is
  recorded for; and the result of a job is one that the worker of its accepted commit has
  computed, with its own name and a clamped sleep in it.
\<close>

theorem results_from_leases:
  assumes "s = ft_run loads fs (ft_start ids ttl wids conc)"
  shows "(\<forall>i t data. wk_got (ft_wk s i) t = Some data \<longrightarrow>
      (\<exists>j p f. issued (ft_db s) (wids i) j f \<and> data = frame_json (FDispatch j p f))) \<and>
    (\<forall>k \<in> set (commits (ft_db s)). issued (ft_db s) (c_worker k) (c_job k) (c_fence k)) \<and>
    (\<forall>r \<in> set (jobs (ft_db s)). \<forall>res. j_result r = Some res \<longrightarrow>
      (\<exists>k \<in> set (commits (ft_db s)). \<exists>n. c_accepted k \<and> c_job k = j_id r \<and>
        0 \<le> n \<and> n \<le> 60000 \<and> res = job_result_msg (c_worker k) n))"
proof -
  have inv: "worker_inv loads (ft_db s) (wids i) (ft_wk s i)" "writes_ok (ft_cl s)" for i
    using ft_run_ok unfolding assms fleet_inv_def by blast+
  have "(j_id r, Some res) \<in> set (outcomes (jobs (ft_db s)))" if "r \<in> set (jobs (ft_db s))" "j_result r = Some res" for r res
    using that by (force simp: outcomes_def)
  then show ?thesis
    using inv(1) writes_okD(3,4) [OF inv(2)]
    unfolding worker_inv_def leased_dispatch_def result_of_def by blast
qed

text \<open>One job through the whole system; its commit is delivered twice.\<close>

definition one_job :: "fact list" where
  "one_job =
     [FCluster (ASubmit 0 (env_at 100 ''j'') (Some (JObj [(''idempotency_key'', JStr ''k'')]))),
      FConnect 0 1 True, FCluster (AClaim 1 (env_at 200 []) 0), FRead 0,
      FWork 0 (EBegin 0), FWork 0 (EBeat 0 True), FWork 0 (ESend 0 True),
      FDeliver 1 (env_at 300 []) 0, FDeliver 1 (env_at 310 []) 1,
      FCluster (ACloseCommit (env_at 320 []) 1), FCluster (ACloseCommit (env_at 330 []) 0)]"

definition one_job_end :: fleet where
  "one_job_end = ft_run (\<lambda>_. None) one_job (ft_start two_names (\<lambda>_. 1000) (\<lambda>_. ''w'') (\<lambda>_. 1))"

theorem results_from_leases_witness:
  "map (\<lambda>r. (j_state r, j_result r)) (jobs (ft_db one_job_end)) = [(Succeeded, Some (job_result_msg ''w'' 0))] \<and>
   (\<exists>k \<in> set (commits (ft_db one_job_end)). c_accepted k \<and> c_job k = ''j'' \<and>
      issued (ft_db one_job_end) (c_worker k) (c_job k) (c_fence k))"
proof -
  have j: "map (\<lambda>r. (j_id r, j_state r, j_result r)) (jobs (ft_db one_job_end)) =
      [(''j'', Succeeded, Some (job_result_msg ''w'' 0))]" by code_simp
  then obtain r where r: "jobs (ft_db one_job_end) = [r]" "j_id r = ''j''" "j_state r = Succeeded"
      "j_result r = Some (job_result_msg ''w'' 0)" by auto
  show ?thesis using results_from_leases [OF one_job_end_def] r by auto
qed

end
