(* ===== verification/Report.thy ===== *)
theory Report
  imports Harness
begin

text \<open>
  What \<open>chaos_harness.py\<close> writes at the end of a run: the texts of the violations, the report, the
  event log as JSON lines and the exit status. Texts are UTF-8 bytes. \<open>str_of\<close> and \<open>repr_of\<close> are
  Python's \<open>str\<close> of a JSON value and \<open>repr\<close> of a string, \<open>float_of\<close> its text of a float.
\<close>

section \<open>Texts\<close>

definition em_dash :: string where
  "em_dash = [CHR 0xE2, CHR 0x80, CHR 0x94]"

definition ballot_x :: string where
  "ballot_x = [CHR 0xE2, CHR 0x9C, CHR 0x97]"

definition newline :: string where
  "newline = [CHR 0x0A]"

fun join_with :: "string \<Rightarrow> string list \<Rightarrow> string" where
  "join_with sep [] = []"
| "join_with sep [x] = x"
| "join_with sep (x # y # ys) = x @ sep @ join_with sep (y # ys)"

definition list_text :: "string list \<Rightarrow> string" where
  "list_text xs = ''['' @ join_with '', '' xs @ '']''"

text \<open>The format \<open>.1f\<close>: one decimal, ties to even.\<close>

definition fmt1 :: "rat \<Rightarrow> string" where
  "fmt1 x =
     (let n = py_round (\<bar>x\<bar> * 10)
      in (if x < 0 then ''-'' else []) @ int_str (n div 10) @ ''.'' @ int_str (n mod 10))"

fun violation_text ::
    "(json \<Rightarrow> string) \<Rightarrow> (string \<Rightarrow> string) \<Rightarrow> (rat \<Rightarrow> string) \<Rightarrow> violation \<Rightarrow> string" where
  "violation_text str_of repr_of float_of (Dedup k ids) =
     ''dedup: idempotency_key '' @ k @ '' produced '' @ nat_str (length ids) @ '' job_ids: '' @
     list_text (map repr_of ids)"
| "violation_text str_of repr_of float_of (AuditUnreachable jid x) =
     ''audit_unreachable: '' @ jid @ '' ('' @ str_of x @ '')''"
| "violation_text str_of repr_of float_of (Lost jid) =
     ''lost: '' @ jid @ '' has no terminal state and no accepted commit''"
| "violation_text str_of repr_of float_of (DoubleCommit jid n) =
     ''double_commit: '' @ jid @ '' accepted '' @ nat_str n @ '' commits''"
| "violation_text str_of repr_of float_of (NonmonotonicPerJob jid toks) =
     ''fencing_nonmonotonic_per_job: '' @ jid @ '' tokens='' @ list_text (map int_str toks)"
| "violation_text str_of repr_of float_of (StaleCommitAccepted jid f m) =
     ''stale_commit_accepted: '' @ jid @ '' commit fence='' @ int_str f @ '' but max issued='' @ int_str m"
| "violation_text str_of repr_of float_of (GlobalNonmonotonic ts jid f prev) =
     ''fencing_global_nonmonotonic: at ts='' @ float_of ts @ '' job='' @ jid @ '' fence='' @ int_str f @
     '' <= prev='' @ int_str prev"

section \<open>The report\<close>

fun killed_with :: "char \<Rightarrow> rat \<times> hevent \<Rightarrow> bool" where
  "killed_with c (tm, Killed t) = (take 1 t = [c])"
| "killed_with c (tm, ev) = False"

text \<open>The faults injected, by name, in the order of the names, with their numbers.\<close>

definition fault_names :: "(rat \<times> hevent) list \<Rightarrow> string list" where
  "fault_names evs = List.map_filter (\<lambda>(tm, ev). case ev of FaultInjected f ps c t \<Rightarrow> Some f | _ \<Rightarrow> None) evs"

definition fault_breakdown :: "(rat \<times> hevent) list \<Rightarrow> (string \<times> nat) list" where
  "fault_breakdown evs =
     (let fs = fault_names evs
      in map (\<lambda>f. (f, length (filter (\<lambda>g. g = f) fs))) (sort (remdups fs)))"

definition verdict_line :: "verdict \<Rightarrow> string" where
  "verdict_line v =
     (case v of
        Pass \<Rightarrow> ''  PASS '' @ em_dash @ '' system survived chaos with no observable invariant violations.''
      | PassWithNotes \<Rightarrow> ''  PASS-WITH-NOTES '' @ em_dash @
          '' no invariant violations, but elevated failures or unreachable audits.''
      | Fail \<Rightarrow> ''  FAIL '' @ em_dash @
          '' invariant violations recorded. See DECISIONS for required acknowledgement.'')"

definition latency_line :: "rat list \<Rightarrow> string" where
  "latency_line lat =
     ''  p50: '' @ fmt1 (percentile lat 50 * 1000) @ ''ms   p95: '' @ fmt1 (percentile lat 95 * 1000) @
     ''ms   p99: '' @ fmt1 (percentile lat 99 * 1000) @ ''ms''"

text \<open>\<open>_format_report\<close>, as the list of its lines; \<open>vtext\<close> is the text of a violation.\<close>

definition summary_lines ::
    "string \<Rightarrow> rat \<Rightarrow> (string \<times> json) list \<Rightarrow> hstate \<Rightarrow> string list" where
  "summary_lines seed wall audits hs =
     [''FarLabs Chaos Harness '' @ em_dash @ '' Run Report'',
      replicate 60 (CHR ''=''),
      ''wall_time:                  '' @ fmt1 wall @ ''s'',
      ''seed:                       '' @ seed,
      ''submitted (ok):             '' @ nat_str (hcount ''submit_ok'' hs),
      ''submitted (failed):         '' @ nat_str (hcount ''submit_fail'' hs),
      ''duplicate submissions:      '' @ nat_str (hcount ''submit_dup'' hs),
      ''jobs tracked:               '' @ nat_str (length (h_jobs hs)),
      ''jobs with accepted commit:  '' @ nat_str (completed_count audits),
      ''jobs audit-unreachable:     '' @ nat_str (unreachable_count audits),
      ''unique idempotency keys:    '' @ nat_str (length (remdups (map (\<lambda>r. fst (snd r)) (h_jobs hs)))),
      [],
      ''Submit latency:'',
      latency_line (h_lat hs),
      []]"

definition chaos_lines :: "hstate \<Rightarrow> string list" where
  "chaos_lines hs =
     [''Chaos events:'',
      ''  worker kills attempted:   '' @ (if hcount ''killed'' hs \<noteq> 0 then ''see below'' else ''0''),
      ''  workers killed:           '' @ nat_str (length (filter (killed_with (CHR ''w'')) (h_log hs))),
      ''  coordinators killed:      '' @ nat_str (length (filter (killed_with (CHR ''c'')) (h_log hs))),
      ''  faults injected:          '' @ nat_str (hcount ''fault_injected'' hs)] @
     map (\<lambda>(f, n). ''    '' @ f @ '': '' @ nat_str n) (fault_breakdown (h_log hs)) @ [[]]"

definition report_lines ::
    "(violation \<Rightarrow> string) \<Rightarrow> string \<Rightarrow> rat \<Rightarrow> (string \<times> json) list \<Rightarrow> violation list \<Rightarrow> hstate \<Rightarrow> string list" where
  "report_lines vtext seed wall audits vs hs =
     summary_lines seed wall audits hs @ chaos_lines hs @
     [''Invariant violations: '' @ nat_str (length vs), replicate 60 (CHR ''-'')] @
     (if vs = [] then [''(none)''] else map (\<lambda>v. ''  '' @ ballot_x @ '' '' @ vtext v) vs) @
     [[], ''Verdict:'', verdict_line (verdict_of vs audits hs), [],
      ''Event log written to: chaos_events.jsonl'']"

definition format_report ::
    "(violation \<Rightarrow> string) \<Rightarrow> string \<Rightarrow> rat \<Rightarrow> (string \<times> json) list \<Rightarrow> violation list \<Rightarrow> hstate \<Rightarrow> string" where
  "format_report vtext seed wall audits vs hs = join_with newline (report_lines vtext seed wall audits vs hs)"

section \<open>The event log and the exit status\<close>

text \<open>\<open>round(t, 4)\<close>, and \<open>{"t": ..., "k": k, **kw}\<close>: a keyword argument replaces an entry of its name.\<close>

definition round4 :: "rat \<Rightarrow> rat" where
  "round4 x = of_int (py_round (x * 10000)) / 10000"

definition dump_event :: "rat \<times> hevent \<Rightarrow> json" where
  "dump_event x =
     (case x of (tm, ev) \<Rightarrow>
        JObj (fold (\<lambda>(k, v). AList.update k v) (ev_kw ev)
          [(''t'', JFloat (round4 tm)), (''k'', JStr (ev_kind ev))]))"

definition dump_events :: "(json \<Rightarrow> string) \<Rightarrow> hstate \<Rightarrow> string" where
  "dump_events dumps hs = concat (map (\<lambda>x. dumps (dump_event x) @ newline) (h_log hs))"

text \<open>The end of \<open>_main\<close>: report file, event file and exit status.\<close>

definition main_finish ::
    "(violation \<Rightarrow> string) \<Rightarrow> (json \<Rightarrow> string) \<Rightarrow> string \<Rightarrow> rat \<Rightarrow> (string \<times> string) list \<Rightarrow>
     (string \<times> json) list \<Rightarrow> hstate \<Rightarrow> exn + string \<times> string \<times> int" where
  "main_finish vtext dumps seed wall js audits hs =
     sbind (verify js audits) (\<lambda>vs.
       Inr (format_report vtext seed wall audits vs hs, dump_events dumps hs, if vs = [] then 0 else 1))"

section \<open>Lemmas\<close>

lemma smap_mem: "smap f xs = Inr ys \<Longrightarrow> x \<in> set xs \<Longrightarrow> \<exists>y \<in> set ys. f x = Inr y"
proof (induction xs arbitrary: ys)
  case (Cons z zs)
  then show ?case by (cases "f z"; cases "smap f zs") auto
qed simp

text \<open>An audit that could not be made is a violation, so a clean run has none.\<close>

lemma clean_run_reached:
  assumes "verify js audits = Inr []"
  shows "unreachable_count audits = 0"
proof -
  obtain vs ps where v: "smap (\<lambda>(jid, a). verify_one jid a) audits = Inr vs" "concat vs = []"
    using assms
    by (cases "smap (\<lambda>(jid, a). verify_one jid a) audits"; cases "smap (\<lambda>(jid, a). fence_points jid a) audits")
      (auto simp: verify_def)
  have "py_truth (dget a ''ok'')" if "(jid, a) \<in> set audits" for jid a
    using smap_mem [OF v(1) that] v(2) by (auto simp: verify_one_def split: if_splits)
  then show ?thesis by (auto simp: unreachable_count_def filter_empty_conv)
qed

definition verdict_start :: "string \<Rightarrow> bool" where
  "verdict_start l \<longleftrightarrow> take 3 l = ''  P'' \<or> take 3 l = ''  F''"

lemma verdict_line_start: "verdict_start (verdict_line v)"
  by (cases v) (simp_all add: verdict_start_def verdict_line_def)

lemma verdict_line_inj: "verdict_line v = verdict_line v' \<longleftrightarrow> v = v'"
  by (cases v; cases v') (simp_all add: verdict_line_def em_dash_def)

lemma sixty: "replicate 60 c = c # replicate 59 c"
  by (simp add: numeral_eq_Suc)

lemma other_lines:
  "l \<in> set (summary_lines seed wall audits hs) \<Longrightarrow> \<not> verdict_start l"
  "l \<in> set (chaos_lines hs) \<Longrightarrow> \<not> verdict_start l"
  "\<not> verdict_start (''  '' @ ballot_x @ '' '' @ x)" "\<not> verdict_start (replicate 60 (CHR ''-''))"
  by (auto simp: summary_lines_def chaos_lines_def verdict_start_def latency_line_def ballot_x_def sixty
      em_dash_def)

lemma verdict_in_report:
  "verdict_line v \<in> set (report_lines vtext seed wall audits vs hs) \<longleftrightarrow> v = verdict_of vs audits hs"
  using verdict_line_start [of v] other_lines
  by (auto simp: report_lines_def verdict_line_inj) (auto simp: verdict_start_def)

text \<open>The container an event is about.\<close>

fun container_of :: "hevent \<Rightarrow> string option" where
  "container_of (Killed t) = Some t"
| "container_of (KillFailed t) = Some t"
| "container_of (Started t) = Some t"
| "container_of (StartFailed t) = Some t"
| "container_of ev = None"

section \<open>Properties\<close>

text \<open>
  C39. The end of a run is consistent. The report has exactly one verdict line; the exit status is 0
  exactly when that line is one of the two PASS lines; a run that exits 0 reached the audit of
  every job; and so PASS-WITH-NOTES is printed only for failed submissions, one in a hundred or
  more, although its text also offers unreachable audits as a reason.
\<close>

theorem report_matches_exit:
  assumes "main_finish vtext dumps seed wall js audits hs = Inr (rep, evs, code)"
  shows "\<exists>vs v. verify js audits = Inr vs \<and>
    rep = join_with newline (report_lines vtext seed wall audits vs hs) \<and>
    (\<forall>v'. verdict_line v' \<in> set (report_lines vtext seed wall audits vs hs) \<longleftrightarrow> v' = v) \<and>
    (code = 0 \<longleftrightarrow> PassWithNotes \<le> v) \<and> (code = 0 \<longrightarrow> unreachable_count audits = 0) \<and>
    (v = PassWithNotes \<longleftrightarrow> code = 0 \<and> hcount ''submit_ok'' hs \<le> 100 * hcount ''submit_fail'' hs)"
proof -
  obtain vs where vs: "verify js audits = Inr vs" "rep = format_report vtext seed wall audits vs hs"
      "code = (if vs = [] then 0 else 1)"
    using assms by (cases "verify js audits") (auto simp: main_finish_def)
  moreover have "code = 0 \<longrightarrow> unreachable_count audits = 0"
    using vs(1,3) clean_run_reached by auto
  ultimately show ?thesis
    by (intro exI [of _ vs] exI [of _ "verdict_of vs audits hs"])
      (auto simp: format_report_def verdict_in_report verdict_of_def less_eq_verdict_def)
qed

text \<open>More violations, fewer successes or more failures never improve the verdict.\<close>

lemma verdict_antitone:
  assumes "set vs \<subseteq> set vs'" and "unreachable_count au \<le> unreachable_count au'"
    and "hcount ''submit_fail'' hs \<le> hcount ''submit_fail'' hs'" and "hcount ''submit_ok'' hs' \<le> hcount ''submit_ok'' hs"
  shows "verdict_of vs' au' hs' \<le> verdict_of vs au hs"
  using assms by (auto simp: verdict_of_def less_eq_verdict_def)

definition idle_records :: hstate where
  "idle_records = \<lparr>h_jobs = [], h_keys = [], h_log = [(1 / 2, KillFailed ''w1'')],
     h_counts = [(''kill_failed'', 1)], h_lat = []\<rparr>"

theorem report_matches_exit_witness:
  "\<exists>rep evs. main_finish (\<lambda>_. []) (\<lambda>_. []) ''1729'' 60 [] [] idle_records = Inr (rep, evs, 0) \<and>
     rep = join_with newline (report_lines (\<lambda>_. []) ''1729'' 60 [] [] idle_records) \<and>
     verdict_line PassWithNotes \<in> set (report_lines (\<lambda>_. []) ''1729'' 60 [] [] idle_records)"
proof -
  have v: "verify [] [] = Inr []" by (simp add: verify_def verify_dedup_def)
  then obtain rep evs where r: "main_finish (\<lambda>_. []) (\<lambda>_. []) ''1729'' 60 [] [] idle_records = Inr (rep, evs, 0)"
    by (simp add: main_finish_def)
  from report_matches_exit [OF this] r v show ?thesis by (auto simp: idle_records_def hcount_def)
qed

text \<open>
  The event log keeps what happened, but not always when. Every line has the name of its
  event; it has the event's time rounded to four digits, except for the events of a container: there
  the keyword argument \<open>t\<close> is the container's name and replaces the time.
\<close>

theorem kill_events_lose_time:
  "dget (dump_event (tm, ev)) ''k'' = JStr (ev_kind ev) \<and>
   dget (dump_event (tm, ev)) ''t'' =
     (case container_of ev of None \<Rightarrow> JFloat (round4 tm) | Some c \<Rightarrow> JStr c)"
  by (cases ev) (simp_all add: dump_event_def)

end
