(* ===== verification/HarnessRun.thy ===== *)
theory HarnessRun
  imports Report
begin

text \<open>
  The chaos harness as a running process, \<open>chaos_harness.py\<close>: its configuration, the submitter, the
  two container killers, the fault injector, and \<open>_main\<close>, which starts them, cancels them, waits,
  audits and reports. Docker, the coordinators' answers and the random draws are arguments of the
  events; a task is cut at its awaits. How long the sleeps take is given by functions of the draws,
  the order in which they end is left open.
\<close>

section \<open>Configuration\<close>

record cfg =
  cf_base :: string
  cf_coords :: "string list"
  cf_workers :: "string list"
  cf_duration_s :: int
  cf_submit_rate :: rat
  cf_dup_rate :: rat
  cf_worker_kill_period_s :: rat
  cf_coord_kill_period_s :: rat
  cf_chaos_period_s :: rat
  cf_final_wait_s :: rat
  cf_report_path :: string

fun split_char :: "char \<Rightarrow> string \<Rightarrow> string list" where
  "split_char c [] = [[]]"
| "split_char c (x # xs) =
     (if x = c then [] # split_char c xs
      else (case split_char c xs of [] \<Rightarrow> [[x]] | y # ys \<Rightarrow> (x # y) # ys))"

text \<open>\<open>[x.strip() for x in s.split(",") if x.strip()]\<close>.\<close>

definition container_list :: "string \<Rightarrow> string list" where
  "container_list s = map py_strip (filter (\<lambda>x. py_strip x \<noteq> []) (split_char (CHR '','') s))"

text \<open>
  \<open>_parse\<close>, on the options as argparse finds them on the command line: the defaults from the
  environment are converted first, then an option that was given replaces its default.
  \<open>float_of_str\<close> is Python's \<open>float\<close>.
\<close>

definition parse_cfg ::
    "(string \<Rightarrow> rat option) \<Rightarrow> (string \<Rightarrow> string option) \<Rightarrow> (string \<Rightarrow> string option) \<Rightarrow> exn + cfg" where
  "parse_cfg float_of_str env arg =
     (let opt = (\<lambda>a k dflt. getenv arg a (getenv env k dflt))
      in case py_int_of_str (getenv env ''HARNESS_DURATION'' ''600'') of
           None \<Rightarrow> Inl ValueError
         | Some d0 \<Rightarrow>
             (case float_of_str (getenv env ''HARNESS_RATE'' ''50'') of
                None \<Rightarrow> Inl ValueError
              | Some r0 \<Rightarrow>
                  (case (case arg ''--duration'' of None \<Rightarrow> Some d0 | Some s \<Rightarrow> py_int_of_str s,
                         case arg ''--rate'' of None \<Rightarrow> Some r0 | Some s \<Rightarrow> float_of_str s) of
                     (Some d, Some r) \<Rightarrow>
                       Inr \<lparr>cf_base = rstrip_char (CHR ''/'') (opt ''--base'' ''HARNESS_BASE'' ''http://localhost:8080''),
                         cf_coords = container_list (opt ''--coords'' ''HARNESS_COORDS'' ''c1,c2,c3''),
                         cf_workers = container_list (opt ''--workers'' ''HARNESS_WORKERS'' ''w1,w2,w3,w4,w5''),
                         cf_duration_s = d, cf_submit_rate = r, cf_dup_rate = 5 / 100,
                         cf_worker_kill_period_s = 30, cf_coord_kill_period_s = 90, cf_chaos_period_s = 20,
                         cf_final_wait_s = 45,
                         cf_report_path = opt ''--report'' ''HARNESS_REPORT'' ''chaos_report.txt''\<rparr>
                   | _ \<Rightarrow> Inl ValueError)))"

section \<open>The submitter\<close>

text \<open>The draws of one turn: the duplicate test, a choice, the profile and its two durations, a key.\<close>

record draws =
  dr_dup :: rat
  dr_pick :: nat
  dr_mixed :: rat
  dr_short_ms :: int
  dr_long_ms :: int
  dr_key :: string

definition profile_short :: "draws \<Rightarrow> json" where
  "profile_short dr = JObj [(''sleep_ms'', JInt (dr_short_ms dr)), (''kind'', JStr ''short'')]"

definition profile_long :: "draws \<Rightarrow> json" where
  "profile_long dr = JObj [(''sleep_ms'', JInt (dr_long_ms dr)), (''kind'', JStr ''long'')]"

definition profile_mixed :: "draws \<Rightarrow> json" where
  "profile_mixed dr = (if dr_mixed dr < 5 / 100 then profile_long dr else profile_short dr)"

text \<open>The payload recorded for a key, when an answer for it has come back.\<close>

definition known_payload :: "string \<Rightarrow> hstate \<Rightarrow> json" where
  "known_payload k hs =
     (case map_of (h_jobs hs) (case map_of (h_keys hs) k of None \<Rightarrow> [] | Some j \<Rightarrow> j) of
        None \<Rightarrow> JNull
      | Some (key, pl, rest) \<Rightarrow> pl)"

text \<open>
  One turn of \<open>_submitter\<close>: a known key again, or a new one. The result is the key space, the
  submission that was started, and the records.
\<close>

definition submitter_turn ::
    "cfg \<Rightarrow> rat \<Rightarrow> draws \<Rightarrow> string list \<Rightarrow> hstate \<Rightarrow> string list \<times> (string \<times> json) \<times> hstate" where
  "submitter_turn cf tm dr keys hs =
     (if keys \<noteq> [] \<and> dr_dup dr < cf_dup_rate cf then
        (let k = keys ! (dr_pick dr mod length keys); pl = known_payload k hs
         in (keys, (k, if py_truth pl then pl else profile_mixed dr), hlog tm SubmitDup hs))
      else (keys @ [dr_key dr], (dr_key dr, profile_mixed dr), hs))"

text \<open>The sleep between two turns.\<close>

definition submit_pause :: "cfg \<Rightarrow> rat \<Rightarrow> exn + rat" where
  "submit_pause cf elapsed =
     (if cf_submit_rate cf = 0 then Inl ZeroDivisionError
      else Inr (max 0 (1 / cf_submit_rate cf - elapsed)))"

section \<open>The killers\<close>

text \<open>
  Where a killer stands: asleep before the next kill, in \<open>docker kill\<close>, asleep while its container
  is down, in \<open>docker start\<close>, ended.
\<close>

datatype kpc = KSleep | KKilling string | KDown string | KStarting string | KEnded

record killer =
  kl_pool :: "string list"
  kl_next :: nat
  kl_pc :: kpc

definition killer_new :: "string list \<Rightarrow> killer" where
  "killer_new pool = \<lparr>kl_pool = pool, kl_next = 0, kl_pc = KSleep\<rparr>"

text \<open>The sleeps: before a kill, and while a worker or a coordinator is down.\<close>

definition kill_pause :: "rat \<Rightarrow> rat \<Rightarrow> rat" where
  "kill_pause period r = period * (7 / 10 + r * (6 / 10))"

definition worker_down_s :: "rat \<Rightarrow> rat" where "worker_down_s r = 2 + (8 - 2) * r"

definition coord_down_s :: "rat \<Rightarrow> rat" where "coord_down_s r = 5 + (12 - 5) * r"

text \<open>\<open>while not stop.is_set()\<close>.\<close>

definition loop_head :: "bool \<Rightarrow> killer \<Rightarrow> killer" where
  "loop_head stop k = k\<lparr>kl_pc := if stop then KEnded else KSleep\<rparr>"

text \<open>
  The first sleep is over: the next container of the cycle. \<open>next\<close> on the cycle of an empty list
  raises, which ends the task.
\<close>

definition killer_wake :: "bool \<Rightarrow> killer \<Rightarrow> killer" where
  "killer_wake stop k =
     (if stop \<or> kl_pool k = [] then k\<lparr>kl_pc := KEnded\<rparr>
      else k\<lparr>kl_pc := KKilling (kl_pool k ! (kl_next k mod length (kl_pool k))), kl_next := kl_next k + 1\<rparr>)"

text \<open>\<open>_kill\<close> and \<open>_start\<close> with the return code of docker.\<close>

definition killer_killed :: "bool \<Rightarrow> rat \<Rightarrow> int \<Rightarrow> string \<Rightarrow> killer \<Rightarrow> hstate \<Rightarrow> killer \<times> hstate" where
  "killer_killed stop tm rc t k hs =
     (if rc = 0 then (k\<lparr>kl_pc := KDown t\<rparr>, hlog tm (Killed t) hs)
      else (loop_head stop k, hlog tm (KillFailed t) hs))"

definition killer_restart :: "string \<Rightarrow> killer \<Rightarrow> killer" where
  "killer_restart t k = k\<lparr>kl_pc := KStarting t\<rparr>"

definition killer_started :: "bool \<Rightarrow> rat \<Rightarrow> int \<Rightarrow> string \<Rightarrow> killer \<Rightarrow> hstate \<Rightarrow> killer \<times> hstate" where
  "killer_started stop tm rc t k hs =
     (loop_head stop k, hlog tm (if rc = 0 then Started t else StartFailed t) hs)"

section \<open>The fault injector\<close>

text \<open>\<open>fl_post\<close> is the fault being posted with its parameters and target.\<close>

record faulter =
  fl_acks :: int
  fl_skew :: int
  fl_ms :: int
  fl_next :: nat
  fl_post :: "(string \<times> json \<times> string) option"
  fl_on :: bool

definition faulter_new :: "int \<Rightarrow> int \<Rightarrow> int \<Rightarrow> faulter" where
  "faulter_new acks skew ms = \<lparr>fl_acks = acks, fl_skew = skew, fl_ms = ms, fl_next = 0, fl_post = None, fl_on = True\<rparr>"

definition fault_pause :: "rat \<Rightarrow> rat \<Rightarrow> rat" where
  "fault_pause period r = period * (1 / 2 + r)"

definition fault_address :: "cfg \<Rightarrow> string \<Rightarrow> string" where
  "fault_address cf target =
     (if take 1 target = ''c'' \<and> CHR '':'' \<notin> set target then ''http://'' @ target @ '':8080'' else cf_base cf)"

text \<open>The sleep is over: a target and the next fault of the plan. No container: \<open>choice\<close> raises.\<close>

definition faulter_wake :: "cfg \<Rightarrow> bool \<Rightarrow> nat \<Rightarrow> faulter \<Rightarrow> faulter" where
  "faulter_wake cf stop pick f =
     (if stop \<or> cf_coords cf = [] then f\<lparr>fl_on := False\<rparr>
      else (let target = cf_coords cf ! (pick mod length (cf_coords cf));
                (fault, params) = plan (fl_acks f) (fl_skew f) (fl_ms f) (fl_next f)
            in f\<lparr>fl_next := fl_next f + 1, fl_post := Some (fault, params, target)\<rparr>))"

definition faulter_done :: "bool \<Rightarrow> rat \<Rightarrow> int \<Rightarrow> string \<times> json \<times> string \<Rightarrow> faulter \<Rightarrow> hstate \<Rightarrow> faulter \<times> hstate" where
  "faulter_done stop tm st post f hs =
     (case post of (fault, params, target) \<Rightarrow>
        (f\<lparr>fl_post := None, fl_on := \<not> stop\<rparr>, hlog tm (FaultInjected fault params st target) hs))"

section \<open>The audits\<close>

text \<open>
  \<open>_audit_all\<close>: the answers in the order in which the tasks finished, which is the order of the
  result.
\<close>

definition audit_all :: "(json \<Rightarrow> string) \<Rightarrow> (string \<times> int \<times> json) list \<Rightarrow> (string \<times> json) list" where
  "audit_all str_of answers = map (\<lambda>(jid, st, body). (jid, audit_one str_of jid st body)) answers"

section \<open>The process\<close>

text \<open>
  \<open>_main\<close>: before the probe, while the drivers run, during the final wait, while the audits of the
  jobs known at its start run, done with an exit status. \<open>MCrashed\<close>: the checks raised.
\<close>

datatype mphase = MProbe | MRunning | MDrain | MAudit "string list" | MDone int | MCrashed exn

text \<open>\<open>hr_up\<close> is which containers run; everything else is the process.\<close>

record hrun =
  hr_h :: hstate
  hr_keys :: "string list"
  hr_sub :: bool
  hr_open :: "(string \<times> json) list"
  hr_wk :: killer
  hr_ck :: killer
  hr_fl :: faulter
  hr_stop :: bool
  hr_main :: mphase
  hr_up :: "string \<Rightarrow> bool"

definition hr_init :: "hrun" where
  "hr_init = \<lparr>hr_h = h_start, hr_keys = [], hr_sub = False, hr_open = [],
     hr_wk = (killer_new [])\<lparr>kl_pc := KEnded\<rparr>, hr_ck = (killer_new [])\<lparr>kl_pc := KEnded\<rparr>,
     hr_fl = (faulter_new 0 0 0)\<lparr>fl_on := False\<rparr>, hr_stop = False, hr_main = MProbe, hr_up = (\<lambda>_. True)\<rparr>"

text \<open>Which killer an event is about.\<close>

datatype which = Wk | Ck

fun the_killer :: "which \<Rightarrow> hrun \<Rightarrow> killer" where
  "the_killer Wk s = hr_wk s"
| "the_killer Ck s = hr_ck s"

fun set_killer :: "which \<Rightarrow> killer \<Rightarrow> hrun \<Rightarrow> hrun" where
  "set_killer Wk k s = s\<lparr>hr_wk := k\<rparr>"
| "set_killer Ck k s = s\<lparr>hr_ck := k\<rparr>"

text \<open>
  A docker command that is in flight when its task is cancelled still runs to its end: \<open>lands\<close> is
  whether it succeeds.
\<close>

definition lands_after :: "bool \<Rightarrow> killer \<Rightarrow> (string \<Rightarrow> bool) \<Rightarrow> string \<Rightarrow> bool" where
  "lands_after lands k up =
     (case kl_pc k of
        KKilling t \<Rightarrow> if lands then up(t := False) else up
      | KStarting t \<Rightarrow> if lands then up(t := True) else up
      | _ \<Rightarrow> up)"

text \<open>
  The end of the run time: \<open>stop\<close> is set, the four tasks are cancelled where they stand, and the
  final wait begins. Submissions in flight are tasks of their own and go on.
\<close>

definition main_deadline :: "cfg \<Rightarrow> rat \<Rightarrow> bool \<Rightarrow> bool \<Rightarrow> hrun \<Rightarrow> hrun" where
  "main_deadline cf tm lw lc s =
     s\<lparr>hr_h := hlog tm (HarnessDrain (cf_final_wait_s cf)) (hr_h s), hr_sub := False,
       hr_wk := (hr_wk s)\<lparr>kl_pc := KEnded\<rparr>, hr_ck := (hr_ck s)\<lparr>kl_pc := KEnded\<rparr>,
       hr_fl := (hr_fl s)\<lparr>fl_on := False, fl_post := None\<rparr>, hr_stop := True, hr_main := MDrain,
       hr_up := lands_after lc (hr_ck s) (lands_after lw (hr_wk s) (hr_up s))\<rparr>"

datatype hstep_event =
    HProbe int rat "string list" "string list" int int int
  | HSubmit rat draws
  | HAnswer nat "nat \<Rightarrow> rat" int json
  | HWake which
  | HKilled which rat int
  | HRestart which
  | HStarted which rat int
  | HFault nat
  | HFaultDone rat int
  | HSignal
  | HDeadline rat bool bool
  | HDrained
  | HAudited "(string \<times> int \<times> json) list"

text \<open>One list is a rearrangement of the other.\<close>

definition permuted :: "string list \<Rightarrow> string list \<Rightarrow> bool" where
  "permuted xs ys \<longleftrightarrow> sort xs = sort ys"

text \<open>
  One step. \<open>docker kill\<close> of a container that does not run fails; \<open>docker start\<close> may fail. The
  cycles of the killers are samples of the whole lists, so permutations.
\<close>

fun hr_do :: "cfg \<Rightarrow> (json \<Rightarrow> string) \<Rightarrow> hstep_event \<Rightarrow> hrun \<Rightarrow> hrun option" where
  "hr_do cf so (HProbe st tm wpool cpool acks skew ms) s =
     (if hr_main s \<noteq> MProbe \<or> \<not> permuted wpool (cf_workers cf) \<or> \<not> permuted cpool (cf_coords cf) then None
      else if st = 0 then Some (s\<lparr>hr_main := MDone 2\<rparr>)
      else Some (s\<lparr>hr_h := hlog tm (HarnessStart (cf_base cf)) (hr_h s), hr_sub := \<not> hr_stop s,
             hr_wk := loop_head (hr_stop s) (killer_new wpool), hr_ck := loop_head (hr_stop s) (killer_new cpool),
             hr_fl := (faulter_new acks skew ms)\<lparr>fl_on := \<not> hr_stop s\<rparr>, hr_main := MRunning\<rparr>))"
| "hr_do cf so (HSubmit tm dr) s =
     (if \<not> hr_sub s then None
      else if hr_stop s then Some (s\<lparr>hr_sub := False\<rparr>)
      else (let (keys, sub, hs) = submitter_turn cf tm dr (hr_keys s) (hr_h s)
            in Some (s\<lparr>hr_keys := keys, hr_open := hr_open s @ [sub], hr_h := hs\<rparr>)))"
| "hr_do cf so (HAnswer i tm st body) s =
     (if i \<ge> length (hr_open s) then None
      else (let (key, pl) = hr_open s ! i; (r, hs) = submit_one so tm key pl st body (hr_h s)
            in Some (s\<lparr>hr_open := take i (hr_open s) @ drop (i + 1) (hr_open s), hr_h := hs\<rparr>)))"
| "hr_do cf so (HWake w) s =
     (if kl_pc (the_killer w s) = KSleep then Some (set_killer w (killer_wake (hr_stop s) (the_killer w s)) s)
      else None)"
| "hr_do cf so (HKilled w tm rc) s =
     (case kl_pc (the_killer w s) of
        KKilling t \<Rightarrow>
          if rc = 0 \<and> \<not> hr_up s t then None
          else (let (k, hs) = killer_killed (hr_stop s) tm rc t (the_killer w s) (hr_h s)
                in Some ((set_killer w k s)\<lparr>hr_h := hs, hr_up := if rc = 0 then (hr_up s)(t := False) else hr_up s\<rparr>))
      | _ \<Rightarrow> None)"
| "hr_do cf so (HRestart w) s =
     (case kl_pc (the_killer w s) of
        KDown t \<Rightarrow> Some (set_killer w (killer_restart t (the_killer w s)) s)
      | _ \<Rightarrow> None)"
| "hr_do cf so (HStarted w tm rc) s =
     (case kl_pc (the_killer w s) of
        KStarting t \<Rightarrow>
          (let (k, hs) = killer_started (hr_stop s) tm rc t (the_killer w s) (hr_h s)
           in Some ((set_killer w k s)\<lparr>hr_h := hs, hr_up := if rc = 0 then (hr_up s)(t := True) else hr_up s\<rparr>))
      | _ \<Rightarrow> None)"
| "hr_do cf so (HFault pick) s =
     (if fl_on (hr_fl s) \<and> fl_post (hr_fl s) = None
      then Some (s\<lparr>hr_fl := faulter_wake cf (hr_stop s) pick (hr_fl s)\<rparr>) else None)"
| "hr_do cf so (HFaultDone tm st) s =
     (case fl_post (hr_fl s) of
        None \<Rightarrow> None
      | Some post \<Rightarrow>
          (let (f, hs) = faulter_done (hr_stop s) tm st post (hr_fl s) (hr_h s)
           in Some (s\<lparr>hr_fl := f, hr_h := hs\<rparr>)))"
| "hr_do cf so HSignal s = Some (s\<lparr>hr_stop := True\<rparr>)"
| "hr_do cf so (HDeadline tm lw lc) s =
     (if hr_main s = MRunning then Some (main_deadline cf tm lw lc s) else None)"
| "hr_do cf so HDrained s =
     (if hr_main s = MDrain then Some (s\<lparr>hr_main := MAudit (map fst (h_jobs (hr_h s)))\<rparr>) else None)"
| "hr_do cf so (HAudited answers) s =
     (case hr_main s of
        MAudit jids \<Rightarrow>
          if \<not> permuted (map fst answers) jids then None
          else (case verify (job_keys (hr_h s)) (audit_all so answers) of
                  Inl x \<Rightarrow> Some (s\<lparr>hr_main := MCrashed x\<rparr>)
                | Inr vs \<Rightarrow> Some (s\<lparr>hr_main := MDone (if vs = [] then 0 else 1)\<rparr>))
      | _ \<Rightarrow> None)"

inductive hr_step :: "cfg \<Rightarrow> (json \<Rightarrow> string) \<Rightarrow> hrun \<Rightarrow> hrun \<Rightarrow> bool" for cf so where
  step: "hr_do cf so ev s = Some s' \<Longrightarrow> hr_step cf so s s'"

inductive_cases hr_stepE: "hr_step cf so s s'"

fun hr_run :: "cfg \<Rightarrow> (json \<Rightarrow> string) \<Rightarrow> hstep_event list \<Rightarrow> hrun \<Rightarrow> hrun option" where
  "hr_run cf so [] s = Some s"
| "hr_run cf so (ev # evs) s = (case hr_do cf so ev s of None \<Rightarrow> None | Some s' \<Rightarrow> hr_run cf so evs s')"

lemma hr_run_steps: "hr_run cf so evs s = Some s' \<Longrightarrow> (hr_step cf so)\<^sup>*\<^sup>* s s'"
proof (induction evs arbitrary: s)
  case (Cons ev evs)
  then obtain v where v: "hr_do cf so ev s = Some v" "hr_run cf so evs v = Some s'"
    by (auto split: option.splits)
  from hr_step.step [OF v(1)] Cons.IH [OF v(2)] show ?case by (rule converse_rtranclp_into_rtranclp)
qed simp

end
