(* ===== verification/HarnessDrivers.thy ===== *)
theory HarnessDrivers
  imports HarnessRun
begin

text \<open>
  What holds of the running harness of \<open>HarnessRun\<close>: its counters, the containers its killers take
  down and bring back, the ones they leave behind, and the reading of its configuration.
\<close>

section \<open>The records\<close>

text \<open>The counter agrees with the log, and every counted answer has its latency.\<close>

definition counts_ok :: "hstate \<Rightarrow> bool" where
  "counts_ok hs \<longleftrightarrow>
     (\<forall>k. hcount k hs = length (filter (\<lambda>(tm, ev). ev_kind ev = k) (h_log hs))) \<and>
     hcount ''submit_ok'' hs + hcount ''submit_fail'' hs \<le> length (h_lat hs)"

lemma hcount_hlog: "hcount k (hlog tm ev hs) = hcount k hs + (if ev_kind ev = k then 1 else 0)"
  by (simp add: hcount_def hlog_def update_conv')

lemma hlog_fields [simp]:
  "h_log (hlog tm ev hs) = h_log hs @ [(tm, ev)]" "h_lat (hlog tm ev hs) = h_lat hs"
  "h_jobs (hlog tm ev hs) = h_jobs hs" "h_keys (hlog tm ev hs) = h_keys hs"
  by (simp_all add: hlog_def)

lemma hcount_frame:
  "hcount k (hs\<lparr>h_jobs := a\<rparr>) = hcount k hs" "hcount k (hs\<lparr>h_keys := b\<rparr>) = hcount k hs"
  "hcount k (hs\<lparr>h_lat := c\<rparr>) = hcount k hs"
  by (simp_all add: hcount_def)

lemma counts_hlog:
  assumes "counts_ok hs" and "ev_kind ev \<noteq> ''submit_ok''" and "ev_kind ev \<noteq> ''submit_fail''"
  shows "counts_ok (hlog tm ev hs)"
  using assms by (auto simp: counts_ok_def hcount_hlog)

lemma counts_submit: "counts_ok hs \<Longrightarrow> counts_ok (snd (submit_one so tm key pl st body hs))"
  by (auto simp: submit_one_def counts_ok_def hcount_hlog hcount_frame Let_def split: option.split)

lemma counts_turn: "counts_ok hs \<Longrightarrow> counts_ok (snd (snd (submitter_turn cf tm dr keys hs)))"
  by (simp add: submitter_turn_def Let_def counts_hlog)

lemma set_killer_fields [simp]:
  "hr_h (set_killer w k s) = hr_h s" "hr_up (set_killer w k s) = hr_up s"
  "hr_main (set_killer w k s) = hr_main s" "the_killer w (set_killer w k s) = k"
  "w' \<noteq> w \<Longrightarrow> the_killer w' (set_killer w k s) = the_killer w' s"
  by (cases w; cases w'; simp)+

lemma counts_do:
  assumes "counts_ok (hr_h s)" and "hr_do cf so ev s = Some s'"
  shows "counts_ok (hr_h s')"
proof (cases ev)
  case (HSubmit tm dr)
  then show ?thesis
    using assms counts_turn [OF assms(1), of cf tm dr "hr_keys s"]
    by (auto simp: Let_def split: if_splits prod.splits)
next
  case (HAnswer i tm st body)
  then show ?thesis
    using assms counts_submit [OF assms(1)]
    by (auto simp: Let_def split: if_splits prod.splits) (metis snd_conv)
qed (use assms in \<open>auto simp: Let_def killer_killed_def killer_started_def faulter_done_def main_deadline_def
    counts_hlog split: if_splits kpc.splits option.splits mphase.splits sum.splits prod.splits\<close>)

section \<open>The containers\<close>

text \<open>A killer that is going to restart a container.\<close>

definition restarts :: "string \<Rightarrow> killer \<Rightarrow> bool" where
  "restarts t k \<longleftrightarrow> kl_pc k = KDown t \<or> kl_pc k = KStarting t"

text \<open>What a killer is going to restart is down, and the other killer is not going to restart it too.\<close>

definition down_ok :: "hrun \<Rightarrow> bool" where
  "down_ok s \<longleftrightarrow>
     (\<forall>t. restarts t (hr_wk s) \<longrightarrow> \<not> hr_up s t \<and> \<not> restarts t (hr_ck s)) \<and>
     (\<forall>t. restarts t (hr_ck s) \<longrightarrow> \<not> hr_up s t \<and> \<not> restarts t (hr_wk s))"

text \<open>A container nobody is going to restart.\<close>

definition stranded :: "string \<Rightarrow> hrun \<Rightarrow> bool" where
  "stranded t s \<longleftrightarrow> \<not> hr_up s t \<and> \<not> restarts t (hr_wk s) \<and> \<not> restarts t (hr_ck s)"

lemma restarts_loop [simp]: "\<not> restarts t (loop_head b k)"
  by (simp add: restarts_def loop_head_def)

lemma restarts_pc [simp]:
  "restarts t (k\<lparr>kl_pc := KDown u\<rparr>) = (t = u)" "restarts t (k\<lparr>kl_pc := KStarting u\<rparr>) = (t = u)"
  "\<not> restarts t (k\<lparr>kl_pc := KEnded\<rparr>)" "\<not> restarts t (k\<lparr>kl_pc := KKilling u, kl_next := n\<rparr>)"
  by (auto simp: restarts_def)

lemma restarts_wake [simp]: "\<not> restarts t (killer_wake b k)"
  by (simp add: killer_wake_def)

lemma stranded_do:
  assumes "stranded t s" and "hr_do cf so ev s = Some s'"
  shows "stranded t s'"
proof -
  have pc: "kl_pc (the_killer w s) \<noteq> KDown t" "kl_pc (the_killer w s) \<noteq> KStarting t" for w
    using assms(1) by (cases w; simp add: stranded_def restarts_def)+
  show ?thesis
  proof (cases ev)
    case (HWake w)
    then show ?thesis using assms by (cases w) (auto simp: stranded_def split: if_splits)
  next
    case (HKilled w tm rc)
    then show ?thesis
      using assms by (cases w) (auto simp: stranded_def killer_killed_def split: if_splits kpc.splits)
  next
    case (HRestart w)
    then show ?thesis
      using assms pc [of w] by (cases w) (auto simp: stranded_def killer_restart_def split: kpc.splits)
  next
    case (HStarted w tm rc)
    then show ?thesis
      using assms pc [of w] by (cases w) (auto simp: stranded_def killer_started_def split: kpc.splits if_splits)
  next
    case (HDeadline tm lw lc)
    then show ?thesis
      using assms pc [of Wk] pc [of Ck]
      by (auto simp: stranded_def main_deadline_def lands_after_def split: if_splits kpc.splits)
  qed (use assms in \<open>auto simp: stranded_def Let_def split: if_splits option.splits mphase.splits sum.splits prod.splits\<close>)
qed

lemma stranded_steps: "(hr_step cf so)\<^sup>*\<^sup>* s s' \<Longrightarrow> stranded t s \<Longrightarrow> stranded t s'"
  by (induction rule: rtranclp_induct) (auto elim: hr_stepE intro: stranded_do)

lemma down_okD: "down_ok s \<Longrightarrow> restarts t (the_killer w s) \<Longrightarrow> \<not> hr_up s t"
  by (cases w) (simp_all add: down_ok_def)

lemma down_ok_other:
  "down_ok s \<Longrightarrow> restarts t (the_killer w s) \<Longrightarrow> w' \<noteq> w \<Longrightarrow> \<not> restarts t (the_killer w' s)"
  by (cases w; cases w') (auto simp: down_ok_def)

text \<open>One killer moves; what it holds afterwards is down and was not held by the other.\<close>

lemma down_ok_move:
  assumes "down_ok s" and "w' \<noteq> w"
    and "\<And>t. restarts t k \<Longrightarrow> \<not> up t \<and> \<not> restarts t (the_killer w' s)"
    and "\<And>t. restarts t (the_killer w' s) \<Longrightarrow> \<not> up t"
  shows "down_ok ((set_killer w k s)\<lparr>hr_h := hs, hr_up := up\<rparr>)"
  using assms(2-4) by (cases w; cases w') (auto simp: down_ok_def)

lemma down_do:
  assumes "down_ok s" and "hr_do cf so ev s = Some s'"
  shows "down_ok s'"
proof -
  have other: "\<exists>w'. w' \<noteq> w" for w :: which by (cases w) auto
  have same: "set_killer w k s = (set_killer w k s)\<lparr>hr_h := hr_h s, hr_up := hr_up s\<rparr>" for w k
    by (cases w; cases s) simp_all
  show ?thesis
  proof (cases ev)
    case (HWake w)
    obtain w' where w': "w' \<noteq> w" using other by blast
    then show ?thesis
      using assms HWake down_ok_move [OF assms(1) w', of "killer_wake (hr_stop s) (the_killer w s)" "hr_up s" "hr_h s"]
        down_okD [OF assms(1), of _ w'] same
      by (auto split: if_splits)
  next
    case (HKilled w tm rc)
    obtain w' where w': "w' \<noteq> w" using other by blast
    have up: "\<not> restarts u (the_killer w' s)" if "hr_up s u" for u
      using that down_okD [OF assms(1)] by blast
    show ?thesis
      using assms(2) HKilled up down_okD [OF assms(1), of _ w']
      by (auto simp: killer_killed_def Let_def split: kpc.splits if_splits
          intro!: down_ok_move [OF assms(1) w'])
  next
    case (HRestart w)
    obtain w' where w': "w' \<noteq> w" using other by blast
    obtain t where t: "kl_pc (the_killer w s) = KDown t" using assms(2) HRestart by (auto split: kpc.splits)
    then have "restarts t (the_killer w s)" by (simp add: restarts_def)
    then have "down_ok ((set_killer w (killer_restart t (the_killer w s)) s)\<lparr>hr_h := hr_h s, hr_up := hr_up s\<rparr>)"
      using down_okD [OF assms(1)] down_ok_other [OF assms(1) _ w']
      by (intro down_ok_move [OF assms(1) w']) (auto simp: killer_restart_def)
    then show ?thesis using assms(2) HRestart t same by simp
  next
    case (HStarted w tm rc)
    obtain w' where w': "w' \<noteq> w" using other by blast
    obtain t where t: "kl_pc (the_killer w s) = KStarting t" using assms(2) HStarted by (auto split: kpc.splits)
    then have "restarts t (the_killer w s)" by (simp add: restarts_def)
    then have "\<not> restarts t (the_killer w' s)" using down_ok_other [OF assms(1) _ w'] by blast
    then show ?thesis
      using assms(2) HStarted t down_okD [OF assms(1), of _ w']
      by (auto simp: killer_started_def Let_def split: if_splits intro!: down_ok_move [OF assms(1) w'])
  next
    case (HDeadline tm lw lc)
    then show ?thesis using assms(2) by (auto simp: down_ok_def main_deadline_def split: if_splits)
  next
    case (HProbe st tm wp cp acks skew ms)
    then show ?thesis using assms by (auto simp: down_ok_def split: if_splits)
  qed (use assms in \<open>auto simp: Let_def down_ok_def faulter_done_def split: if_splits option.splits mphase.splits sum.splits prod.splits\<close>)
qed

definition hr_ok :: "hrun \<Rightarrow> bool" where
  "hr_ok s \<longleftrightarrow> counts_ok (hr_h s) \<and> down_ok s"

lemma hr_ok_init: "hr_ok hr_init"
  by (simp add: hr_ok_def counts_ok_def down_ok_def hr_init_def h_start_def hcount_def)

lemma hr_ok_step: "hr_ok s \<Longrightarrow> hr_step cf so s s' \<Longrightarrow> hr_ok s'"
  by (elim hr_stepE) (auto simp: hr_ok_def dest: counts_do down_do)

interpretation harness_run: step_system hr_init "hr_step cf so" hr_ok for cf so
  by unfold_locales (rule hr_ok_init, rule hr_ok_step)

text \<open>
  While the drivers run and no start has failed, a container is down only if a killer is going to
  restart it.
\<close>

definition covered :: "hrun \<Rightarrow> bool" where
  "covered s \<longleftrightarrow>
     (hr_main s = MProbe \<longrightarrow> hr_wk s = (killer_new [])\<lparr>kl_pc := KEnded\<rparr> \<and>
        hr_ck s = (killer_new [])\<lparr>kl_pc := KEnded\<rparr> \<and> (\<forall>t. hr_up s t)) \<and>
     (hr_main s = MRunning \<and> list_all (\<lambda>(tm, ev). ev_kind ev \<noteq> ''start_failed'') (h_log (hr_h s)) \<longrightarrow>
        (\<forall>t. hr_up s t \<or> restarts t (hr_wk s) \<or> restarts t (hr_ck s)))"

lemma turn_log:
  "h_log (snd (snd (submitter_turn cf tm dr keys hs))) =
     h_log hs @ (if keys \<noteq> [] \<and> dr_dup dr < cf_dup_rate cf then [(tm, SubmitDup)] else [])"
  by (simp add: submitter_turn_def Let_def)

lemma submit_log:
  "list_all (\<lambda>(tm, ev). ev_kind ev \<noteq> ''start_failed'') (h_log (snd (submit_one so tm key pl st body hs))) =
   list_all (\<lambda>(tm, ev). ev_kind ev \<noteq> ''start_failed'') (h_log hs)"
  by (auto simp: submit_one_def Let_def split: option.split)

lemma covered_do:
  assumes "covered s" and "hr_do cf so ev s = Some s'"
  shows "covered s'"
proof (cases ev)
  case (HSubmit tm dr)
  then show ?thesis
    using assms turn_log [of cf tm dr "hr_keys s" "hr_h s"]
    by (auto simp: covered_def Let_def split: if_splits prod.splits)
next
  case (HAnswer i tm st body)
  then show ?thesis
    using assms submit_log [of so tm _ _ st body "hr_h s"]
    by (auto simp: covered_def Let_def split: if_splits prod.splits) (metis snd_conv)+
next
  case (HWake w)
  then show ?thesis
    using assms by (cases w) (auto simp: covered_def killer_wake_def restarts_def split: if_splits)
next
  case (HKilled w tm rc)
  then show ?thesis
    using assms by (cases w) (auto simp: covered_def killer_killed_def restarts_def loop_head_def Let_def split: if_splits kpc.splits)
next
  case (HRestart w)
  then show ?thesis
    using assms by (cases w) (auto simp: covered_def killer_restart_def restarts_def split: kpc.splits)
next
  case (HStarted w tm rc)
  then show ?thesis
    using assms by (cases w) (auto simp: covered_def killer_started_def restarts_def loop_head_def Let_def split: if_splits kpc.splits)
qed (use assms in \<open>auto simp: covered_def Let_def main_deadline_def faulter_done_def split: if_splits option.splits
    mphase.splits sum.splits prod.splits\<close>)

lemma covered_init: "covered hr_init"
  by (simp add: covered_def hr_init_def)

lemma covered_step: "covered s \<Longrightarrow> hr_step cf so s s' \<Longrightarrow> covered s'"
  by (elim hr_stepE) (rule covered_do)

interpretation covering: step_system hr_init "hr_step cf so" covered for cf so
  by unfold_locales (rule covered_init, rule covered_step)

text \<open>A container that one killer was going to restart and is not any more is stranded.\<close>

lemma stranded_if_released:
  assumes "down_ok s" and "restarts t (the_killer w s)" and "\<not> restarts t (the_killer w s1)"
    and "\<And>w'. w' \<noteq> w \<Longrightarrow> restarts t (the_killer w' s1) \<Longrightarrow> restarts t (the_killer w' s)"
    and "\<not> hr_up s1 t"
  shows "stranded t s1"
proof -
  have "\<not> restarts t (the_killer v s1)" for v
    using assms(3,4) down_ok_other [OF assms(1,2)] by (cases "v = w") blast+
  from this [of Wk] this [of Ck] assms(5) show ?thesis by (simp add: stranded_def)
qed

lemma counts_reachable: "(hr_step cf so)\<^sup>*\<^sup>* hr_init s \<Longrightarrow> counts_ok (hr_h s)"
  using harness_run.ok_reachable by (simp add: hr_ok_def)

section \<open>Concrete runs\<close>

lemma hr_run_step:
  "hr_do cf so ev s = Some s1 \<Longrightarrow> hr_run cf so evs s1 = Some s2 \<Longrightarrow> hr_run cf so (ev # evs) s = Some s2"
  by (simp only: hr_run.simps option.case)

definition demo_cfg :: cfg where
  "demo_cfg = \<lparr>cf_base = ''http://lb:8080'', cf_coords = [''c1''], cf_workers = [''w1'', ''w2''],
     cf_duration_s = 60, cf_submit_rate = 50, cf_dup_rate = 5 / 100, cf_worker_kill_period_s = 30,
     cf_coord_kill_period_s = 90, cf_chaos_period_s = 20, cf_final_wait_s = 45, cf_report_path = ''r''\<rparr>"

definition demo_probe :: hstep_event where
  "demo_probe = HProbe 200 0 [''w2'', ''w1''] [''c1''] 3 30 900"

definition worker_down :: hrun where
  "worker_down = the (hr_run demo_cfg (\<lambda>_. []) [demo_probe, HWake Wk, HKilled Wk 21 0] hr_init)"

definition worker_starting :: hrun where
  "worker_starting = the (hr_do demo_cfg (\<lambda>_. []) (HRestart Wk) worker_down)"

lemma worker_down_reached: "(hr_step demo_cfg (\<lambda>_. []))\<^sup>*\<^sup>* hr_init worker_down"
proof -
  have "hr_run demo_cfg (\<lambda>_. []) [demo_probe, HWake Wk, HKilled Wk 21 0] hr_init \<noteq> None" by code_simp
  then show ?thesis
    unfolding worker_down_def by (intro hr_run_steps [of _ _ "[demo_probe, HWake Wk, HKilled Wk 21 0]"]) auto
qed

lemma worker_down_facts:
  "kl_pc (hr_wk worker_down) = KDown ''w2''" "hr_main worker_down = MRunning"
  "\<not> hr_up worker_down ''w2''" "\<not> restarts ''w2'' (hr_ck worker_down)"
  by code_simp+

section \<open>Properties\<close>

text \<open>
  C38. The counters of the report are true. In every state the harness can reach, with submissions,
  answers, kills, faults and signals in any order: each counter is the number of logged events of
  its name, and no answer is counted without a measured latency.
\<close>

theorem counters_match_log:
  assumes "(hr_step cf so)\<^sup>*\<^sup>* hr_init s"
  shows "hcount k (hr_h s) = length (filter (\<lambda>(tm, ev). ev_kind ev = k) (h_log (hr_h s))) \<and>
    hcount ''submit_ok'' (hr_h s) + hcount ''submit_fail'' (hr_h s) \<le> length (h_lat (hr_h s))"
  using counts_reachable [OF assms] by (auto simp: counts_ok_def)

theorem counters_match_log_witness:
  "hcount ''killed'' (hr_h worker_down) = 1 \<and>
   length (filter (\<lambda>(tm, ev). ev_kind ev = ''killed'') (h_log (hr_h worker_down))) = 1"
proof -
  have "hcount ''killed'' (hr_h worker_down) = 1" by code_simp
  then show ?thesis using counters_match_log [OF worker_down_reached, of "''killed''"] by simp
qed

text \<open>
  Killing is undone while the harness runs. As long as no \<open>docker start\<close> has failed, a
  container that is down during the run is one that a killer is going to restart, so each of the
  two killers has at most one container down at a time.
\<close>

theorem killers_down_one_each:
  assumes "(hr_step cf so)\<^sup>*\<^sup>* hr_init s" and "hr_main s = MRunning"
    and "hcount ''start_failed'' (hr_h s) = 0"
  shows "\<exists>a b. {t. \<not> hr_up s t} \<subseteq> {a, b} \<and> (\<forall>t. \<not> hr_up s t \<longrightarrow> restarts t (hr_wk s) \<or> restarts t (hr_ck s))"
proof -
  have "length (filter (\<lambda>(tm, ev). ev_kind ev = ''start_failed'') (h_log (hr_h s))) = 0"
    using counts_reachable [OF assms(1)] assms(3) by (simp add: counts_ok_def)
  then have "list_all (\<lambda>(tm, ev). ev_kind ev \<noteq> ''start_failed'') (h_log (hr_h s))"
    by (auto simp: filter_empty_conv list_all_iff)
  then have c: "hr_up s t \<or> restarts t (hr_wk s) \<or> restarts t (hr_ck s)" for t
    using covering.ok_reachable [OF assms(1)] assms(2) by (simp add: covered_def)
  have one: "\<exists>a. \<forall>t. restarts t k \<longrightarrow> t = a" for k
    by (cases "kl_pc k") (auto simp: restarts_def)
  obtain a b where "\<forall>t. restarts t (hr_wk s) \<longrightarrow> t = a" "\<forall>t. restarts t (hr_ck s) \<longrightarrow> t = b"
    using one by blast
  then have "{t. \<not> hr_up s t} \<subseteq> {a, b}" using c by auto
  then show ?thesis using c by blast
qed

theorem killers_down_one_each_witness:
  "\<not> hr_up worker_down ''w2'' \<and> restarts ''w2'' (hr_wk worker_down)"
proof -
  have "hcount ''start_failed'' (hr_h worker_down) = 0" by code_simp
  from killers_down_one_each [OF worker_down_reached worker_down_facts(2) this]
  show ?thesis using worker_down_facts by blast
qed

text \<open>
  A failed restart is never repeated. When \<open>docker start\<close> of a container fails, the
  container stays down for the rest of the run: the cycle comes back to it with \<open>docker kill\<close>,
  which fails on a container that is not running, and then skips the start.
\<close>

theorem failed_start_is_final:
  assumes "(hr_step cf so)\<^sup>*\<^sup>* hr_init s" and "kl_pc (the_killer w s) = KStarting t"
    and "hr_do cf so (HStarted w tm rc) s = Some s1" and "rc \<noteq> 0" and "(hr_step cf so)\<^sup>*\<^sup>* s1 s2"
  shows "\<not> hr_up s2 t"
proof -
  have ok: "down_ok s" using harness_run.ok_reachable [OF assms(1)] by (simp add: hr_ok_def)
  have r: "restarts t (the_killer w s)" using assms(2) by (simp add: restarts_def)
  have s1: "s1 = (set_killer w (loop_head (hr_stop s) (the_killer w s)) s)\<lparr>hr_h := hlog tm (StartFailed t) (hr_h s)\<rparr>"
    using assms(2-4) by (cases w; cases s) (auto simp: killer_started_def)
  have "stranded t s1"
  proof (rule stranded_if_released [OF ok r])
    show "\<not> restarts t (the_killer w s1)" by (cases w) (simp_all add: s1)
    show "restarts t (the_killer w' s)" if "w' \<noteq> w" "restarts t (the_killer w' s1)" for w'
      using that by (cases w; cases w') (simp_all add: s1)
    show "\<not> hr_up s1 t" using down_okD [OF ok r] by (simp add: s1)
  qed
  then have "stranded t s2" using assms(5) stranded_steps by blast
  then show ?thesis by (simp add: stranded_def)
qed

theorem failed_start_is_final_witness:
  "\<exists>s. hr_run demo_cfg (\<lambda>_. []) [HStarted Wk 30 1, HWake Wk, HKilled Wk 60 0, HRestart Wk, HStarted Wk 70 0,
      HWake Wk, HKilled Wk 100 1] worker_starting = Some s \<and> \<not> hr_up s ''w2'' \<and> hr_up s ''w1''"
proof -
  let ?rest = "[HWake Wk, HKilled Wk 60 0, HRestart Wk, HStarted Wk 70 0, HWake Wk, HKilled Wk 100 1]"
  let ?s1 = "the (hr_do demo_cfg (\<lambda>_. []) (HStarted Wk 30 1) worker_starting)"
  have d: "hr_do demo_cfg (\<lambda>_. []) (HRestart Wk) worker_down = Some worker_starting"
    using worker_down_facts by (simp add: worker_starting_def)
  then have r: "(hr_step demo_cfg (\<lambda>_. []))\<^sup>*\<^sup>* hr_init worker_starting"
    using worker_down_reached by (meson hr_step.step rtranclp.rtrancl_into_rtrancl)
  have k: "kl_pc (the_killer Wk worker_starting) = KStarting ''w2''"
    by code_simp
  have "hr_do demo_cfg (\<lambda>_. []) (HStarted Wk 30 1) worker_starting \<noteq> None" by code_simp
  then have s1: "hr_do demo_cfg (\<lambda>_. []) (HStarted Wk 30 1) worker_starting = Some ?s1" by auto
  have "hr_run demo_cfg (\<lambda>_. []) ?rest ?s1 \<noteq> None \<and> hr_up (the (hr_run demo_cfg (\<lambda>_. []) ?rest ?s1)) ''w1''" by code_simp
  then obtain s2 where s2: "hr_run demo_cfg (\<lambda>_. []) ?rest ?s1 = Some s2" "hr_up s2 ''w1''" by auto
  have "\<not> hr_up s2 ''w2''"
    by (rule failed_start_is_final [OF r k s1 _ hr_run_steps [OF s2(1)]]) simp
  then show ?thesis using hr_run_step [OF s1 s2(1)] s2(2) by blast
qed

text \<open>
  The end of the run can leave a container down for the whole final wait and the audits,
  although every docker command worked: the killers are cancelled where they stand, and one that
  had killed a container and not yet restarted it never does.
\<close>

theorem deadline_strands_container:
  assumes "(hr_step cf so)\<^sup>*\<^sup>* hr_init s" and "kl_pc (the_killer w s) = KDown t"
    and "hr_do cf so (HDeadline tm lw lc) s = Some s1" and "(hr_step cf so)\<^sup>*\<^sup>* s1 s2"
  shows "\<not> hr_up s2 t"
proof -
  have ok: "down_ok s" using harness_run.ok_reachable [OF assms(1)] by (simp add: hr_ok_def)
  have r: "restarts t (the_killer w s)" using assms(2) by (simp add: restarts_def)
  have other: "kl_pc (the_killer v s) \<noteq> KStarting t" for v
    using down_ok_other [OF ok r, of v] assms(2) by (cases "v = w") (auto simp: restarts_def)
  have "\<not> hr_up s1 t"
    using assms(3) down_okD [OF ok r] other [of Wk] other [of Ck]
    by (auto simp: main_deadline_def lands_after_def split: if_splits kpc.splits)
  then have "stranded t s1" using assms(3) by (auto simp: stranded_def main_deadline_def split: if_splits)
  then have "stranded t s2" using assms(4) stranded_steps by blast
  then show ?thesis by (simp add: stranded_def)
qed

theorem deadline_strands_container_witness:
  "\<exists>s. hr_run demo_cfg (\<lambda>_. []) [HDeadline 60 False False, HDrained, HAudited []] worker_down = Some s \<and>
     hr_main s = MDone 0 \<and> \<not> hr_up s ''w2''"
proof -
  let ?s1 = "the (hr_do demo_cfg (\<lambda>_. []) (HDeadline 60 False False) worker_down)"
  have s1: "hr_do demo_cfg (\<lambda>_. []) (HDeadline 60 False False) worker_down = Some ?s1"
    using worker_down_facts by simp
  have "hr_run demo_cfg (\<lambda>_. []) [HDrained, HAudited []] ?s1 \<noteq> None \<and>
      hr_main (the (hr_run demo_cfg (\<lambda>_. []) [HDrained, HAudited []] ?s1)) = MDone 0" by code_simp
  then obtain s2 where s2: "hr_run demo_cfg (\<lambda>_. []) [HDrained, HAudited []] ?s1 = Some s2" "hr_main s2 = MDone 0"
    by auto
  have "\<not> hr_up s2 ''w2''"
    by (rule deadline_strands_container [OF worker_down_reached _ s1 hr_run_steps [OF s2(1)], of Wk])
      (simp add: worker_down_facts)
  then show ?thesis using hr_run_step [OF s1 s2(1)] s2(2) by blast
qed

section \<open>How a run ends\<close>

definition drained :: "hrun \<Rightarrow> bool" where
  "drained s \<longleftrightarrow> list_ex (\<lambda>(tm, ev). ev_kind ev = ''harness_drain'') (h_log (hr_h s))"

lemma drained_iff: "counts_ok (hr_h s) \<Longrightarrow> drained s \<longleftrightarrow> 0 < hcount ''harness_drain'' (hr_h s)"
  by (auto simp: drained_def counts_ok_def list_ex_iff filter_empty_conv)

text \<open>An exit status other than 2, and everything from the final wait on, has the drain behind it.\<close>

definition ends_ok :: "hrun \<Rightarrow> bool" where
  "ends_ok s \<longleftrightarrow> (case hr_main s of
       MProbe \<Rightarrow> True | MRunning \<Rightarrow> True
     | MDone c \<Rightarrow> c = 2 \<or> (c = 0 \<or> c = 1) \<and> drained s
     | _ \<Rightarrow> drained s)"

lemma hlog_log [simp]: "h_log (hlog tm ev hs) = h_log hs @ [(tm, ev)]"
  by (simp add: hlog_def)

lemma submit_drain:
  "list_ex (\<lambda>(tm, ev). ev_kind ev = ''harness_drain'') (h_log (snd (submit_one so tm key pl st body hs))) =
   list_ex (\<lambda>(tm, ev). ev_kind ev = ''harness_drain'') (h_log hs)"
  by (auto simp: submit_one_def Let_def split: option.split)

lemma ends_do:
  assumes "ends_ok s" and "hr_do cf so ev s = Some s'"
  shows "ends_ok s'"
proof (cases ev)
  case (HSubmit tm dr)
  then show ?thesis
    using assms turn_log [of cf tm dr "hr_keys s" "hr_h s"]
    by (auto simp: ends_ok_def drained_def Let_def split: if_splits prod.splits mphase.splits)
next
  case (HAnswer i tm st body)
  then show ?thesis
    using assms submit_drain [of so tm _ _ st body "hr_h s"]
    by (auto simp: ends_ok_def drained_def Let_def split: if_splits prod.splits mphase.splits) (metis snd_conv)+
next
  case (HWake w)
  then show ?thesis using assms by (cases w) (auto simp: ends_ok_def drained_def split: if_splits mphase.splits)
next
  case (HKilled w tm rc)
  then show ?thesis
    using assms by (cases w) (auto simp: ends_ok_def drained_def killer_killed_def Let_def split: if_splits mphase.splits kpc.splits)
next
  case (HRestart w)
  then show ?thesis using assms by (cases w) (auto simp: ends_ok_def drained_def split: mphase.splits kpc.splits)
next
  case (HStarted w tm rc)
  then show ?thesis
    using assms by (cases w) (auto simp: ends_ok_def drained_def killer_started_def Let_def split: if_splits mphase.splits kpc.splits)
qed (use assms in \<open>auto simp: ends_ok_def drained_def main_deadline_def faulter_done_def Let_def
    split: if_splits option.splits mphase.splits sum.splits prod.splits\<close>)

lemma ends_init: "ends_ok hr_init"
  by (simp add: ends_ok_def hr_init_def)

interpretation ending: step_system hr_init "hr_step cf so" ends_ok for cf so
  by unfold_locales (rule ends_init, auto elim!: hr_stepE intro: ends_do)

lemma stopped_do:
  assumes "hr_do cf so ev s = Some s'" and "hr_stop s"
  shows "hr_stop s' \<and> hr_keys s' = hr_keys s"
proof (cases ev)
  case (HWake w)
  then show ?thesis using assms by (cases w) (auto split: if_splits)
next
  case (HKilled w tm rc)
  then show ?thesis using assms by (cases w) (auto simp: Let_def split: if_splits kpc.splits prod.splits)
next
  case (HRestart w)
  then show ?thesis using assms by (cases w) (auto split: kpc.splits)
next
  case (HStarted w tm rc)
  then show ?thesis using assms by (cases w) (auto simp: Let_def split: if_splits kpc.splits prod.splits)
qed (use assms in \<open>auto simp: Let_def main_deadline_def split: if_splits option.splits mphase.splits sum.splits prod.splits\<close>)

lemma stopped_steps: "(hr_step cf so)\<^sup>*\<^sup>* s s' \<Longrightarrow> hr_stop s \<Longrightarrow> hr_stop s' \<and> hr_keys s' = hr_keys s"
  by (induction rule: rtranclp_induct) (auto elim!: hr_stepE dest: stopped_do)

text \<open>
  An interrupt does not end a run. SIGINT and SIGTERM only keep the drivers from going on: no
  key is submitted any more, but the run ends as every other run does, with status 0 or 1 after the
  run time, the final wait and the audits, or with 2 when the stack was never reached; the
  status 130 does not occur.
\<close>

theorem interrupt_only_quiets:
  assumes "(hr_step cf so)\<^sup>*\<^sup>* hr_init s" and "hr_do cf so HSignal s = Some s1" and "(hr_step cf so)\<^sup>*\<^sup>* s1 s2"
  shows "hr_keys s2 = hr_keys s \<and>
    (hr_main s2 = MDone c \<longrightarrow> c = 2 \<or> (c = 0 \<or> c = 1) \<and> 0 < hcount ''harness_drain'' (hr_h s2))"
proof -
  have s1: "hr_stop s1" "hr_keys s1 = hr_keys s" using assms(2) by auto
  have "hr_step cf so s s1" using assms(2) by (rule hr_step.step)
  then have r: "(hr_step cf so)\<^sup>*\<^sup>* hr_init s2" using assms(1,3) by (meson rtranclp.rtrancl_into_rtrancl rtranclp_trans)
  show ?thesis
    using ending.ok_reachable [OF r] drained_iff [OF counts_reachable [OF r]] stopped_steps [OF assms(3) s1(1)] s1(2)
    by (auto simp: ends_ok_def)
qed

theorem interrupt_only_quiets_witness:
  "\<exists>s. hr_run demo_cfg (\<lambda>_. []) [HSignal, HDeadline 60 False False, HDrained, HAudited []] worker_down = Some s \<and>
     hr_main s = MDone 0 \<and> 0 < hcount ''harness_drain'' (hr_h s)"
proof -
  let ?rest = "[HDeadline 60 False False, HDrained, HAudited []]"
  let ?s1 = "worker_down\<lparr>hr_stop := True\<rparr>"
  have "hr_run demo_cfg (\<lambda>_. []) ?rest ?s1 \<noteq> None \<and>
      hr_main (the (hr_run demo_cfg (\<lambda>_. []) ?rest ?s1)) = MDone 0" by code_simp
  then obtain s2 where s2: "hr_run demo_cfg (\<lambda>_. []) ?rest ?s1 = Some s2" "hr_main s2 = MDone 0" by auto
  have s1: "hr_do demo_cfg (\<lambda>_. []) HSignal worker_down = Some ?s1" by simp
  show ?thesis
    using interrupt_only_quiets [OF worker_down_reached s1 hr_run_steps [OF s2(1)], of 0] s2 hr_run_step [OF s1 s2(1)]
    by auto
qed

section \<open>The container lists\<close>

lemma split_char_single: "c \<notin> set x \<Longrightarrow> split_char c x = [x]"
  by (induction x) auto

lemma split_char_cons: "c \<notin> set x \<Longrightarrow> split_char c (x @ c # ys) = x # split_char c ys"
  by (induction x) auto

lemma split_char_join:
  "xs \<noteq> [] \<Longrightarrow> \<forall>x \<in> set xs. c \<notin> set x \<Longrightarrow> split_char c (join_with [c] xs) = xs"
proof (induction "[c]" xs rule: join_with.induct)
  case (3 x y ys)
  then show ?case using split_char_cons [of c x "join_with [c] (y # ys)"] by simp
qed (simp_all add: split_char_single)

text \<open>A name that the harness can be given: not empty, no comma, no blank around it.\<close>

definition clean_name :: "string \<Rightarrow> bool" where
  "clean_name x \<longleftrightarrow> x \<noteq> [] \<and> CHR '','' \<notin> set x \<and> py_strip x = x"

lemma parse_cfg_workers:
  assumes "parse_cfg fl env arg = Inr cf"
  shows "cf_workers cf =
    container_list (getenv arg ''--workers'' (getenv env ''HARNESS_WORKERS'' ''w1,w2,w3,w4,w5''))"
proof -
  obtain d0 where 1: "py_int_of_str (getenv env ''HARNESS_DURATION'' ''600'') = Some d0"
    using assms unfolding parse_cfg_def Let_def by (cases "py_int_of_str (getenv env ''HARNESS_DURATION'' ''600'')") simp_all
  obtain r0 where 2: "fl (getenv env ''HARNESS_RATE'' ''50'') = Some r0"
    using assms unfolding parse_cfg_def Let_def by (cases "fl (getenv env ''HARNESS_RATE'' ''50'')") (simp_all add: 1)
  show ?thesis
    using assms unfolding parse_cfg_def Let_def 1 2 option.case
    by (cases "case arg ''--duration'' of None \<Rightarrow> Some d0 | Some s \<Rightarrow> py_int_of_str s";
        cases "case arg ''--rate'' of None \<Rightarrow> Some r0 | Some s \<Rightarrow> fl s")
      (simp_all only: option.case prod.case sum.simps, auto)
qed

text \<open>
  The lists of containers are read back as they were written: names without commas and without
  blanks around them, joined by commas into the option \<open>--workers\<close>, are the containers the killer
  gets, in this order and none missing, whatever the environment says.
\<close>

theorem containers_roundtrip:
  assumes "list_all clean_name names" and "arg ''--workers'' = Some (join_with '','' names)"
    and "parse_cfg fl env arg = Inr cf"
  shows "cf_workers cf = names"
proof -
  have "container_list (join_with '','' names) = names"
  proof (cases "names = []")
    case False
    then have "split_char (CHR '','') (join_with '','' names) = names"
      using assms(1) by (intro split_char_join) (auto simp: list_all_iff clean_name_def)
    moreover have "filter (\<lambda>x. py_strip x \<noteq> []) names = names" "map py_strip names = names"
      using assms(1) by (auto simp: list_all_iff clean_name_def intro!: filter_True map_idI)
    ultimately show ?thesis by (simp add: container_list_def)
  qed (simp add: container_list_def py_strip_def)
  then show ?thesis
    using parse_cfg_workers [OF assms(3)] assms(2) by (simp add: getenv_def)
qed

theorem containers_roundtrip_witness:
  "map_sum id cf_workers (parse_cfg (\<lambda>s. if s = ''50'' then Some 50 else None) (\<lambda>_. None)
     (\<lambda>a. if a = ''--workers'' then Some ''w1,w2,w7'' else None)) = (Inr [''w1'', ''w2'', ''w7''] :: exn + _)"
proof -
  let ?fl = "\<lambda>s. if s = ''50'' then Some (50 :: rat) else None"
  let ?arg = "\<lambda>a. if a = ''--workers'' then Some ''w1,w2,w7'' else None"
  have n: "list_all clean_name [''w1'', ''w2'', ''w7'']"
    by (simp add: clean_name_def py_strip_def is_blank_def)
  have "parse_cfg ?fl (\<lambda>_. None) ?arg \<noteq> Inl ValueError" by code_simp
  then obtain cf where cf: "parse_cfg ?fl (\<lambda>_. None) ?arg = Inr cf"
    by (auto simp: parse_cfg_def Let_def split: option.splits prod.splits)
  from containers_roundtrip [OF n _ cf] show ?thesis by (simp add: cf)
qed

end
