(* ===== verification/HarnessExact.thy ===== *)
theory HarnessExact
  imports HarnessSound
begin

text \<open>
  What a clean result of the harness means. \<open>HarnessSound\<close> shows that correct coordinators are not
  accused; here the audits are of any tables whatever, those of broken coordinators included, and
  the checks of \<open>_verify\<close> find nothing exactly when a declarative specification of a correct run
  holds.
\<close>

section \<open>The specification\<close>

text \<open>
  What an HTTP call of the harness came to: an exception with its \<open>repr\<close>, a JSON body, or a text that
  is not JSON; and what \<open>_post\<close> and \<open>_get\<close> return for it.
\<close>

datatype http_outcome = HttpRaised string | HttpJson int json | HttpText int string

fun post_reply :: "http_outcome \<Rightarrow> int \<times> json" where
  "post_reply (HttpJson st body) = (st, body)"
| "post_reply (HttpText st t) = (st, JStr t)"
| "post_reply (HttpRaised r) = (0, JStr r)"

fun get_reply :: "http_outcome \<Rightarrow> int \<times> json" where
  "get_reply (HttpJson st body) = (st, body)"
| "get_reply (HttpText st t) = (st, JStr t)"
| "get_reply (HttpRaised r) = (0, JStr r)"

text \<open>Only a JSON body can make a submission count: nothing else is ever recorded as a job.\<close>

lemma submission_needs_json:
  assumes "\<And>st body. out \<noteq> HttpJson st body" and "post_reply out = (st, body)"
  shows "fst (submit_one so tm key pl st body hs) = Inr None \<and>
    job_keys (snd (submit_one so tm key pl st body hs)) = job_keys hs"
  using assms by (cases out) (auto simp: submit_one_def job_keys_def hlog_def Let_def)

text \<open>\<open>p.returncode or 0\<close> of \<open>_docker\<close>.\<close>

definition docker_code :: "int option \<Rightarrow> int" where
  "docker_code rc = (case rc of None \<Rightarrow> 0 | Some n \<Rightarrow> n)"

text \<open>An audit request: answered from the tables of three moments, or not like that.\<close>

datatype audit_reply = Answered db db db | NotAnswered http_outcome

fun reply_json :: "(json \<Rightarrow> string) \<Rightarrow> uuid \<Rightarrow> audit_reply \<Rightarrow> json" where
  "reply_json so j (Answered d1 d2 d3) = audit_of so j d1 d2 d3"
| "reply_json so j (NotAnswered out) = (case get_reply out of (st, body) \<Rightarrow> audit_one so j st body)"

fun reply_leases :: "uuid \<Rightarrow> audit_reply \<Rightarrow> lease_row list" where
  "reply_leases j (Answered d1 d2 d3) = audit_leases j d3"
| "reply_leases j (NotAnswered out) = []"

text \<open>
  One job: settled once, or ended without a result; its leases in the order of their fences, and no
  lease above the fence of an accepted commit.
\<close>

fun trail_ok :: "uuid \<Rightarrow> audit_reply \<Rightarrow> bool" where
  "trail_ok j (Answered d1 d2 d3) \<longleftrightarrow>
     (let accs = filter c_accepted (audit_commits j d2); ls = audit_leases j d3
      in (length accs = 1 \<or> accs = [] \<and> list_ex (\<lambda>t. terminal (t_to t)) (audit_transitions j d1)) \<and>
         sorted (map l_fence ls) \<and> (\<forall>c \<in> set accs. \<forall>l \<in> set ls. l_fence l \<le> c_fence c))"
| "trail_ok j (NotAnswered out) \<longleftrightarrow> False"

text \<open>The order of issue times is the order of fences; at equal times the earlier in the reports is first.\<close>

definition times_agree :: "lease_row \<Rightarrow> lease_row \<Rightarrow> bool" where
  "times_agree l l' \<longleftrightarrow> (if l_issued l \<le> l_issued l' then l_fence l < l_fence l' else l_fence l' < l_fence l)"

definition run_ok :: "(string \<times> string) list \<Rightarrow> (uuid \<times> audit_reply) list \<Rightarrow> bool" where
  "run_ok js rs \<longleftrightarrow> distinct (map snd js) \<and> list_all (\<lambda>(j, r). trail_ok j r) rs \<and>
     (let ls = concat (map (\<lambda>(j, r). reply_leases j r) rs)
      in (\<forall>l \<in> set ls. 0 \<le> l_fence l) \<and> sorted_wrt times_agree ls)"

section \<open>Lemmas\<close>

lemma count_le_distinct: "(\<forall>x. count_list xs x \<le> 1) \<longleftrightarrow> distinct xs"
proof
  assume le: "\<forall>x. count_list xs x \<le> 1"
  show "distinct xs"
  proof (rule ccontr)
    assume "\<not> distinct xs"
    then obtain as bs cs y where "xs = as @ [y] @ bs @ [y] @ cs" by (blast dest: not_distinct_decomp)
    then have "count_list xs y \<ge> 2" by simp
    then show False using le [rule_format, of y] by simp
  qed
next
  show "\<forall>x. count_list xs x \<le> 1" if "distinct xs"
    using that by (induction xs) (auto simp: count_list_0_iff)
qed

text \<open>A stable sort is pairwise sorted exactly when the list is, read in the order of the keys.\<close>

lemma sorted_wrt_insort:
  assumes "sorted (map k ys)"
  shows "sorted_wrt R (insort_key k x ys) \<longleftrightarrow>
    (\<forall>y \<in> set ys. if k x \<le> k y then R x y else R y x) \<and> sorted_wrt R ys"
  using assms
proof (induction ys)
  case (Cons y ys)
  then show ?case by (auto simp: set_insort_key)
qed simp

lemma sorted_wrt_sort_key:
  "sorted_wrt R (sort_key k xs) \<longleftrightarrow> sorted_wrt (\<lambda>x y. if k x \<le> k y then R x y else R y x) xs"
  by (induction xs) (simp_all add: sorted_wrt_insort)

lemma global_scan_iff:
  "global_scan prev ps = [] \<longleftrightarrow> sorted_wrt (<) (prev # map (\<lambda>p. fst (snd p)) ps)"
proof (induction prev ps rule: global_scan.induct)
  case (2 prev ts f jid ps)
  then show ?case by (auto simp: not_le intro: order.strict_trans)
qed simp

lemma sort_fixes_iff: "sort xs = xs \<longleftrightarrow> sorted (xs :: int list)"
  by (metis sorted_sort sorted_sort_id)

text \<open>All that one answered audit makes the harness report.\<close>

definition found_in :: "uuid \<Rightarrow> db \<Rightarrow> db \<Rightarrow> db \<Rightarrow> violation list" where
  "found_in j d1 d2 d3 =
     (let accs = filter c_accepted (audit_commits j d2); toks = map l_fence (audit_leases j d3)
      in (if accs = [] \<and> \<not> list_ex (\<lambda>t. terminal (t_to t)) (audit_transitions j d1) then [Lost j] else []) @
         (if length accs > 1 then [DoubleCommit j (length accs)] else []) @
         (if toks \<noteq> sort toks then [NonmonotonicPerJob j toks] else []) @
         stale_commits j toks (map commit_json (audit_commits j d2)))"

lemma verify_one_found: "verify_one j (audit_of so j d1 d2 d3) = Inr (found_in j d1 d2 d3)"
proof -
  have "filter (\<lambda>c. dget c ''accepted'' = JBool True) (map commit_json (audit_commits j d2)) =
      map commit_json (filter c_accepted (audit_commits j d2))"
    by (simp add: filter_map o_def)
  then show ?thesis
    unfolding verify_one_def found_in_def
    by (simp add: any_terminal_trans list_ex_iff Let_def del: audit_sets)
qed

lemma found_in_nothing: "found_in j d1 d2 d3 = [] \<longleftrightarrow> trail_ok j (Answered d1 d2 d3)"
proof -
  let ?good = "filter c_accepted (audit_commits j d2)" and ?ls = "audit_leases j d3"
  let ?toks = "map l_fence ?ls"
  have stale: "stale_commits j ?toks (map commit_json (audit_commits j d2)) = [] \<longleftrightarrow>
      (\<forall>c \<in> set ?good. \<forall>l \<in> set ?ls. l_fence l \<le> c_fence c)"
  proof (cases "?ls = []")
    case False
    have "(\<forall>l \<in> set ?ls. l_fence l \<le> f) \<longleftrightarrow> Max (set ?toks) \<le> f" for f
      using False by (subst Max_le_iff) (simp_all del: audit_sets)
    then show ?thesis using False
      by (auto simp: stale_commits_eq filter_empty_conv not_less simp del: audit_sets)
  qed (simp add: stale_commits_eq)
  have one: "length ?good = 1 \<longleftrightarrow> ?good \<noteq> [] \<and> \<not> length ?good > 1"
    by (cases ?good) auto
  have srt: "?toks = sort ?toks \<longleftrightarrow> sorted ?toks" using sort_fixes_iff by metis
  have "found_in j d1 d2 d3 = [] \<longleftrightarrow>
      (?good \<noteq> [] \<or> list_ex (\<lambda>t. terminal (t_to t)) (audit_transitions j d1)) \<and> \<not> length ?good > 1 \<and>
      ?toks = sort ?toks \<and> stale_commits j ?toks (map commit_json (audit_commits j d2)) = []"
    unfolding found_in_def Let_def by (simp del: audit_sets)
  also have "\<dots> \<longleftrightarrow> trail_ok j (Answered d1 d2 d3)"
    unfolding stale srt trail_ok.simps Let_def one by (cases "?good = []") simp_all
  finally show ?thesis .
qed

fun found :: "(json \<Rightarrow> string) \<Rightarrow> uuid \<Rightarrow> audit_reply \<Rightarrow> violation list" where
  "found so j (Answered d1 d2 d3) = found_in j d1 d2 d3"
| "found so j (NotAnswered out) = [AuditUnreachable j (JStr (take 200 (so (snd (get_reply out)))))]"

fun refused :: "audit_reply \<Rightarrow> bool" where
  "refused (Answered d1 d2 d3) \<longleftrightarrow> False"
| "refused (NotAnswered out) \<longleftrightarrow> fst (get_reply out) \<noteq> 200 \<or> \<not> is_dict (snd (get_reply out))"

fun answered :: "audit_reply \<Rightarrow> bool" where
  "answered (Answered d1 d2 d3) \<longleftrightarrow> True"
| "answered (NotAnswered out) \<longleftrightarrow> False"

lemma verify_one_reply: "answered r \<or> refused r \<Longrightarrow> verify_one j (reply_json so j r) = Inr (found so j r)"
  by (cases r) (simp_all add: verify_one_found, auto simp: verify_one_def audit_one_def split: prod.split)

lemma found_nothing: "found so j r = [] \<longleftrightarrow> trail_ok j r"
  by (cases r) (simp_all only: found.simps found_in_nothing trail_ok.simps list.distinct)

definition lease_point :: "uuid \<Rightarrow> lease_row \<Rightarrow> rat \<times> int \<times> string" where
  "lease_point j l = (of_int (l_issued l), l_fence l, j)"

lemma fence_points_reply:
  "answered r \<or> refused r \<Longrightarrow> fence_points j (reply_json so j r) = Inr (map (lease_point j) (reply_leases j r))"
  by (cases r) (simp_all add: fence_points_audit points_of_def lease_point_def,
    auto simp: fence_points_def audit_one_def split: prod.split)

lemma scan_points:
  "sorted_wrt times_agree (concat (map (\<lambda>(j, r). reply_leases j r) rs)) \<longleftrightarrow>
     sorted_wrt (\<lambda>p q. fst (snd p) < fst (snd q))
       (sort_key fst (concat (map (\<lambda>(j, r). map (lease_point j) (reply_leases j r)) rs)))"
proof -
  define key where "key = (\<lambda>p :: rat \<times> int \<times> string. (fst p, fst (snd p)))"
  define ls where "ls = concat (map (\<lambda>(j, r). reply_leases j r) rs)"
  define ps where "ps = concat (map (\<lambda>(j, r). map (lease_point j) (reply_leases j r)) rs)"
  have eq: "map key ps = map (\<lambda>l. (of_int (l_issued l), l_fence l)) ls"
    unfolding ps_def ls_def key_def by (induction rs) (auto simp: lease_point_def)
  let ?R = "\<lambda>p q :: rat \<times> int. if fst p \<le> fst q then snd p < snd q else snd q < snd p"
  have "sorted_wrt (\<lambda>p q. fst (snd p) < fst (snd q)) (sort_key fst ps) \<longleftrightarrow> sorted_wrt ?R (map key ps)"
    unfolding sorted_wrt_sort_key sorted_wrt_map by (simp add: key_def)
  also have "\<dots> \<longleftrightarrow> sorted_wrt times_agree ls"
    unfolding eq sorted_wrt_map by (simp add: times_agree_def [abs_def])
  finally show ?thesis unfolding ls_def ps_def by simp
qed

lemma verify_dedup_iff: "verify_dedup js = [] \<longleftrightarrow> distinct (map snd js)"
proof -
  have len: "length (ids_of_key k js) = count_list (map snd js) k" for k
    by (induction js) (auto simp: ids_of_key_def)
  have "verify_dedup js = [] \<longleftrightarrow> (\<forall>k \<in> set (map snd js). \<not> length (ids_of_key k js) > 1)"
    unfolding verify_dedup_def Let_def concat_eq_Nil_conv set_map ball_simps set_rev set_remdups by simp
  also have "\<dots> \<longleftrightarrow> (\<forall>k. count_list (map snd js) k \<le> 1)"
    unfolding len by (metis count_notin linorder_not_le zero_le_one)
  finally show ?thesis by (simp only: count_le_distinct)
qed

section \<open>Property\<close>

text \<open>
  C8. The harness is exact. Whatever tables the audits were answered from: the checks return an empty
  list of violations if and only if no idempotency key has two ids, every audit was answered, every
  job has exactly one accepted commit (or none and a terminal transition), the fences of each job's
  leases ascend and none is above that of its accepted commit, and over all jobs the order of issue
  times is the order of the fences, all of them non-negative.
\<close>

theorem verify_exact:
  assumes "\<forall>(j, r) \<in> set rs. answered r \<or> refused r"
  shows "verify js (map (\<lambda>(j, r). (j, reply_json so j r)) rs) = Inr [] \<longleftrightarrow> run_ok js rs"
proof -
  let ?as = "map (\<lambda>(j, r). (j, reply_json so j r)) rs"
  let ?ps = "concat (map (\<lambda>(j, r). map (lease_point j) (reply_leases j r)) rs)"
  have map1: "smap f ?as = smap (\<lambda>(j, r). f (j, reply_json so j r)) rs"
    for f :: "string \<times> json \<Rightarrow> exn + 'b list"
    by (induction rs) auto
  have "smap (\<lambda>(jid, a). verify_one jid a) ?as = Inr (map (\<lambda>(j, r). found so j r) rs)"
    unfolding map1 by (rule smap_Inr) (use assms in \<open>auto simp: verify_one_reply\<close>)
  moreover have "smap (\<lambda>(jid, a). fence_points jid a) ?as = Inr (map (\<lambda>(j, r). map (lease_point j) (reply_leases j r)) rs)"
    unfolding map1 by (rule smap_Inr) (use assms in \<open>auto simp: fence_points_reply\<close>)
  ultimately have "verify js ?as = Inr [] \<longleftrightarrow> verify_dedup js = [] \<and>
      concat (map (\<lambda>(j, r). found so j r) rs) = [] \<and> global_scan (-1) (sort_key fst ?ps) = []"
    by (simp add: verify_def)
  moreover have "concat (map (\<lambda>(j, r). found so j r) rs) = [] \<longleftrightarrow> list_all (\<lambda>(j, r). trail_ok j r) rs"
    by (auto simp: found_nothing list_all_iff)
  moreover have "global_scan (-1) (sort_key fst ?ps) = [] \<longleftrightarrow>
      (\<forall>p \<in> set ?ps. - 1 < fst (snd p)) \<and> sorted_wrt times_agree (concat (map (\<lambda>(j, r). reply_leases j r) rs))"
    unfolding global_scan_iff scan_points by (simp add: sorted_wrt_map)
  moreover have "(\<forall>p \<in> set ?ps. - 1 < fst (snd p)) \<longleftrightarrow>
      (\<forall>l \<in> set (concat (map (\<lambda>(j, r). reply_leases j r) rs)). 0 \<le> l_fence l)"
    by (fastforce simp: lease_point_def)
  ultimately show ?thesis by (simp add: run_ok_def verify_dedup_iff Let_def)
qed

text \<open>A finished job passes; with a second job whose audit got no answer the checks find something.\<close>

theorem verify_exact_witness:
  "verify [(''j'', ''k''), (''i'', ''l'')]
     (map (\<lambda>(j, r). (j, reply_json (\<lambda>_. []) j r)) [(''j'', Answered committed_db committed_db committed_db)]) = Inr [] \<and>
   verify [(''j'', ''k''), (''i'', ''l'')]
     (map (\<lambda>(j, r). (j, reply_json (\<lambda>_. []) j r)) [(''j'', Answered committed_db committed_db committed_db),
        (''i'', NotAnswered (HttpRaised []))]) \<noteq> Inr []"
proof -
  have "run_ok [(''j'', ''k''), (''i'', ''l'')] [(''j'', Answered committed_db committed_db committed_db)]"
    by code_simp
  then show ?thesis
    using verify_exact [of "[(''j'', Answered committed_db committed_db committed_db)]" "[(''j'', ''k''), (''i'', ''l'')]" "\<lambda>_. []"]
      verify_exact [of "[(''j'', Answered committed_db committed_db committed_db), (''i'', NotAnswered (HttpRaised []))]"
        "[(''j'', ''k''), (''i'', ''l'')]" "\<lambda>_. []"]
    by (simp add: run_ok_def)
qed

end
