(* ===== verification/Process.thy ===== *)
theory Process
  imports Workers
begin

text \<open>
  The life of a coordinator process: \<open>Database\<close> of \<open>coordinator/db.py\<close> from its configuration to
  its end, \<open>make_app\<close>, \<open>on_startup\<close> and \<open>on_cleanup\<close> of \<open>coordinator/app.py\<close>, and the background
  tasks, among them the wakeup subscription and the loop of the dispatcher and the loop of the
  reaper. What connecting, applying the schema and reaching Redis did is an argument.
\<close>

section \<open>The database object\<close>

record dbase =
  pg_dsn :: string
  pg_pool :: bool
  pg_part_until :: int

text \<open>\<open>from_env\<close>: an empty \<open>DATABASE_URL\<close> counts as not set.\<close>

definition from_env :: "(string \<Rightarrow> string option) \<Rightarrow> exn + dbase" where
  "from_env env =
     (case env ''DATABASE_URL'' of
        None \<Rightarrow> Inl ConfigError
      | Some dsn \<Rightarrow> if dsn = [] then Inl ConfigError
                    else Inr \<lparr>pg_dsn = dsn, pg_pool = False, pg_part_until = 0\<rparr>)"

definition db_connect :: "bool \<Rightarrow> dbase \<Rightarrow> exn + dbase" where
  "db_connect ok db = (if ok then Inr (db\<lparr>pg_pool := True\<rparr>) else Inl ConnectError)"

definition db_close :: "dbase \<Rightarrow> dbase" where
  "db_close db = (if pg_pool db then db\<lparr>pg_pool := False\<rparr> else db)"

text \<open>\<open>apply_schema\<close>: without a pool there is nothing to call \<open>acquire\<close> on.\<close>

definition apply_schema :: "bool \<Rightarrow> dbase \<Rightarrow> exn + unit" where
  "apply_schema ok db =
     (if \<not> pg_pool db then Inl AttributeError else if ok then Inr () else Inl SchemaError)"

section \<open>The application object\<close>

text \<open>
  The dispatcher's subscription task: listening, or asleep before it tries again.
\<close>

datatype sub = Listening | Retrying

text \<open>
  The entries of \<open>app\<close> that start-up and clean-up handle. A task entry tells whether the task still
  runs; \<open>ap_dispatch\<close> has the loop and the subscription. \<open>ap_pools\<close> counts the pools that are open
  in the process, whether or not an entry refers to them.
\<close>

record app =
  ap_id :: string
  ap_ttl :: int
  ap_start :: int
  ap_db :: "dbase option"
  ap_pools :: nat
  ap_redis :: bool
  ap_rates :: bool
  ap_dispatch :: "(bool \<times> sub) option"
  ap_reaper :: "bool option"
  ap_chaos :: "bool option"
  ap_conc :: "bool option"

definition make_app :: "(string \<Rightarrow> string option) \<Rightarrow> int \<Rightarrow> exn + app" where
  "make_app env mt =
     (case py_int_of_str (getenv env ''LEASE_TTL_MS'' ''10000'') of
        None \<Rightarrow> Inl ValueError
      | Some ttl \<Rightarrow>
          Inr \<lparr>ap_id = getenv env ''COORD_ID'' ''c?'', ap_ttl = ttl, ap_start = mt,
            ap_db = None, ap_pools = 0, ap_redis = False, ap_rates = False, ap_dispatch = None,
            ap_reaper = None, ap_chaos = None, ap_conc = None\<rparr>)"

text \<open>
  \<open>start\<close> and \<open>stop\<close> of the dispatcher, with its loop and its subscription, and of the reaper. A task
  that was cancelled and awaited does not run any more.
\<close>

definition dispatcher_start :: "app \<Rightarrow> app" where
  "dispatcher_start a = a\<lparr>ap_dispatch := Some (True, Retrying)\<rparr>"

definition dispatcher_stop :: "bool \<times> sub \<Rightarrow> bool \<times> sub" where
  "dispatcher_stop t = (False, snd t)"

definition reaper_start :: "app \<Rightarrow> app" where
  "reaper_start a = a\<lparr>ap_reaper := Some True\<rparr>"

definition reaper_stop :: "bool \<Rightarrow> bool" where
  "reaper_stop t = False"

lemmas task_defs = dispatcher_start_def dispatcher_stop_def reaper_start_def reaper_stop_def

text \<open>
  What the outside answers during start-up: the pool connects, the schema applies, the Redis client
  accepts its URL (it raises \<open>ValueError\<close> for an unknown scheme; it does not connect yet).
\<close>

record outside =
  ou_pool :: bool
  ou_schema :: bool
  ou_redis :: bool

text \<open>
  \<open>on_startup\<close>: the exception it ends with, if any, and the application as it then is. The entry
  \<open>db\<close> is made only after the schema was applied. The answer to \<open>ping\<close> is only
  logged.
\<close>

definition on_startup :: "(string \<Rightarrow> string option) \<Rightarrow> outside \<Rightarrow> app \<Rightarrow> exn option \<times> app" where
  "on_startup env ou a =
     (case from_env env of
        Inl x \<Rightarrow> (Some x, a)
      | Inr db0 \<Rightarrow>
          (case db_connect (ou_pool ou) db0 of
             Inl x \<Rightarrow> (Some x, a)
           | Inr db \<Rightarrow>
               (let a1 = a\<lparr>ap_pools := ap_pools a + 1\<rparr>
                in case apply_schema (ou_schema ou) db of
                     Inl x \<Rightarrow> (Some x, a1)
                   | Inr _ \<Rightarrow>
                       (let a2 = a1\<lparr>ap_db := Some db\<rparr>
                        in if \<not> ou_redis ou then (Some ValueError, a2) else
                       (let a3 = a2\<lparr>ap_redis := True\<rparr>;
                            a4 = a3\<lparr>ap_rates := True\<rparr>;
                            a5 = dispatcher_start a4;
                            a6 = reaper_start a5
                        in (None, a6\<lparr>ap_chaos := Some True, ap_conc := Some True\<rparr>))))))"

text \<open>\<open>on_cleanup\<close>, each entry only if it is there; and the order in which things were stopped.\<close>

definition on_cleanup :: "app \<Rightarrow> app \<times> string list" where
  "on_cleanup a =
     (a\<lparr>ap_chaos := map_option (\<lambda>_. False) (ap_chaos a), ap_conc := map_option (\<lambda>_. False) (ap_conc a),
        ap_reaper := map_option reaper_stop (ap_reaper a),
        ap_dispatch := map_option dispatcher_stop (ap_dispatch a),
        ap_db := map_option db_close (ap_db a),
        ap_pools := (case ap_db a of None \<Rightarrow> ap_pools a
                     | Some db \<Rightarrow> if pg_pool db then ap_pools a - 1 else ap_pools a),
        ap_redis := False\<rparr>,
      (if ap_chaos a = None then [] else [''chaos'']) @ (if ap_conc a = None then [] else [''concurrency'']) @
      (if ap_reaper a = None then [] else [''reaper'']) @ (if ap_dispatch a = None then [] else [''dispatch'']) @
      (if ap_db a = None then [] else [''db'']) @ (if ap_redis a then [''redis''] else []))"

section \<open>The background tasks\<close>

text \<open>
  What happens to the tasks while the process serves: the Redis connection of the subscriptions
  drops, Redis is back and the dispatcher's retry succeeds, a peer's message makes one of the
  other two subscribers raise.
\<close>

datatype life = RedisDrop | Resubscribed | ChaosRaises | ConcRaises

fun live_on :: "life \<Rightarrow> app \<Rightarrow> app" where
  "live_on RedisDrop a = a\<lparr>ap_dispatch := map_option (\<lambda>(r, _). (r, Retrying)) (ap_dispatch a),
     ap_chaos := map_option (\<lambda>_. False) (ap_chaos a), ap_conc := map_option (\<lambda>_. False) (ap_conc a)\<rparr>"
| "live_on Resubscribed a = a\<lparr>ap_dispatch := map_option (\<lambda>(r, _). (r, Listening)) (ap_dispatch a)\<rparr>"
| "live_on ChaosRaises a = a\<lparr>ap_chaos := map_option (\<lambda>_. False) (ap_chaos a)\<rparr>"
| "live_on ConcRaises a = a\<lparr>ap_conc := map_option (\<lambda>_. False) (ap_conc a)\<rparr>"

text \<open>
  One turn of \<open>_subscribe\<close>: \<open>None\<close> when subscribing raised, else the number of messages before
  \<open>listen\<close> ended or raised. Every message sets the wakeup flag; then the task sleeps.
\<close>

definition sub_retry_ms :: int where "sub_retry_ms = 1000"

definition subscribe_turn :: "nat option \<Rightarrow> coord \<Rightarrow> coord \<times> int" where
  "subscribe_turn outcome co =
     (case outcome of
        None \<Rightarrow> (co, sub_retry_ms)
      | Some n \<Rightarrow> (if n = 0 then co else co\<lparr>co_wake := True\<rparr>, sub_retry_ms))"

text \<open>The wait at the head of \<open>_run\<close>: until the flag is set, at most the poll interval.\<close>

definition poll_interval_ms :: int where "poll_interval_ms = 200"

definition dispatch_wait :: "int option \<Rightarrow> coord \<Rightarrow> int" where
  "dispatch_wait woken_after co =
     (if co_wake co then 0
      else case woken_after of None \<Rightarrow> poll_interval_ms | Some t \<Rightarrow> min (max 0 t) poll_interval_ms)"

text \<open>One turn of the reaper's \<open>_run\<close> after its sleep: no exception of the round gets out.\<close>

definition reap_interval_ms :: int where "reap_interval_ms = 1000"

definition reaper_turn :: "(nat \<Rightarrow> env) \<Rightarrow> coord \<Rightarrow> db \<Rightarrow> coord \<times> db" where
  "reaper_turn es co d = (case reap_round es co d of (r, co', d') \<Rightarrow> (co', d'))"

section \<open>The process the other theories start from\<close>

text \<open>The coordinator that a successful start-up leaves; see \<open>boot\<close>.\<close>

definition serving :: "app \<Rightarrow> coord" where
  "serving a = (boot (ap_id a) (ap_ttl a))\<lparr>co_pool := (case ap_db a of None \<Rightarrow> False | Some db \<Rightarrow> pg_pool db),
     co_part_until := (case ap_db a of None \<Rightarrow> 0 | Some db \<Rightarrow> pg_part_until db)\<rparr>"

section \<open>Lemmas\<close>

lemma on_startup_cases:
  obtains (config) "env ''DATABASE_URL'' = None \<or> env ''DATABASE_URL'' = Some []" "on_startup env ou a = (Some ConfigError, a)"
  | (connect) "\<not> ou_pool ou" "on_startup env ou a = (Some ConnectError, a)"
  | (schema) "ou_pool ou" "\<not> ou_schema ou" "on_startup env ou a = (Some SchemaError, a\<lparr>ap_pools := ap_pools a + 1\<rparr>)"
  | (redis) dsn where "ou_pool ou" "ou_schema ou" "\<not> ou_redis ou"
      "on_startup env ou a = (Some ValueError, a\<lparr>ap_pools := ap_pools a + 1,
         ap_db := Some \<lparr>pg_dsn = dsn, pg_pool = True, pg_part_until = 0\<rparr>\<rparr>)"
  | (up) dsn where "ou_pool ou" "ou_schema ou" "ou_redis ou" "env ''DATABASE_URL'' = Some dsn" "dsn \<noteq> []"
      "on_startup env ou a = (None, a\<lparr>ap_pools := ap_pools a + 1,
         ap_db := Some \<lparr>pg_dsn = dsn, pg_pool = True, pg_part_until = 0\<rparr>, ap_redis := True, ap_rates := True,
         ap_dispatch := Some (True, Retrying), ap_reaper := Some True, ap_chaos := Some True, ap_conc := Some True\<rparr>)"
proof (cases "env ''DATABASE_URL'' = None \<or> env ''DATABASE_URL'' = Some []")
  case True
  then show ?thesis by (intro config) (auto simp: on_startup_def from_env_def)
next
  case False
  then obtain dsn where d: "env ''DATABASE_URL'' = Some dsn" "dsn \<noteq> []" by (cases "env ''DATABASE_URL''") auto
  note s = task_defs on_startup_def from_env_def db_connect_def apply_schema_def Let_def d
  show ?thesis
    by (cases "ou_pool ou"; cases "ou_schema ou"; cases "ou_redis ou")
      (simp_all add: s connect schema redis [of dsn] up [of dsn])
qed

text \<open>Life goes on with the tasks there are; the pool stays.\<close>

lemma live_on_fields:
  "ap_db (fold live_on evs a) = ap_db a" "ap_pools (fold live_on evs a) = ap_pools a"
  "ap_id (fold live_on evs a) = ap_id a" "ap_ttl (fold live_on evs a) = ap_ttl a"
proof (induction evs arbitrary: a)
  case (Cons ev evs)
  {
    case 1
    then show ?case using Cons.IH [of "live_on ev a"] by (cases ev) simp_all
  next
    case 2
    then show ?case using Cons.IH [of "live_on ev a"] by (cases ev) simp_all
  next
    case 3
    then show ?case using Cons.IH [of "live_on ev a"] by (cases ev) simp_all
  next
    case 4
    then show ?case using Cons.IH [of "live_on ev a"] by (cases ev) simp_all
  }
qed simp_all

lemma live_on_deaf:
  "ap_chaos a \<noteq> Some True \<Longrightarrow> ap_chaos (fold live_on evs a) \<noteq> Some True"
  "ap_conc a \<noteq> Some True \<Longrightarrow> ap_conc (fold live_on evs a) \<noteq> Some True"
proof (induction evs arbitrary: a)
  case (Cons ev evs)
  {
    case 1
    then show ?case using Cons.IH(1) [of "live_on ev a"] by (cases ev) (auto simp: map_option_case split: option.splits)
  next
    case 2
    then show ?case using Cons.IH(2) [of "live_on ev a"] by (cases ev) (auto simp: map_option_case split: option.splits)
  }
qed simp_all

definition demo_env :: "string \<Rightarrow> string option" where
  "demo_env k = (if k = ''DATABASE_URL'' then Some ''postgres://db'' else if k = ''COORD_ID'' then Some ''c1'' else None)"

definition demo_app :: app where
  "demo_app = (case make_app demo_env 0 of Inl _ \<Rightarrow> undefined | Inr a \<Rightarrow> a)"

lemma demo_app_made: "make_app demo_env 0 = Inr demo_app"
proof -
  have "make_app demo_env 0 \<noteq> Inl ValueError" by code_simp
  then show ?thesis unfolding demo_app_def by (cases "make_app demo_env 0") (auto simp: make_app_def split: option.splits)
qed

section \<open>Properties\<close>

text \<open>
  A coordinator serves exactly when its database does. Start-up succeeds if and only if
  \<open>DATABASE_URL\<close> is set, the pool connects and the schema applies (and the Redis URL is well formed;
  whether Redis is there has no say in it). It then
  leaves the process the rest of this development starts from (\<open>boot\<close>) with every background task
  running.
\<close>

theorem startup_serves:
  assumes "make_app env mt = Inr a" and "on_startup env ou a = (x, a')"
  shows "(x = None \<longleftrightarrow> (\<exists>dsn. env ''DATABASE_URL'' = Some dsn \<and> dsn \<noteq> []) \<and> ou_pool ou \<and> ou_schema ou \<and> ou_redis ou) \<and>
    (x = None \<longrightarrow> serving a' = boot (ap_id a) (ap_ttl a) \<and>
       ap_dispatch a' = Some (True, Retrying) \<and> ap_reaper a' = Some True \<and>
       ap_chaos a' = Some True \<and> ap_conc a' = Some True)"
  using assms(2) by (cases rule: on_startup_cases [of env ou a]) (auto simp: serving_def boot_def)

theorem startup_serves_witness:
  "fst (on_startup demo_env \<lparr>ou_pool = True, ou_schema = True, ou_redis = True\<rparr> demo_app) = None \<and>
   serving (snd (on_startup demo_env \<lparr>ou_pool = True, ou_schema = True, ou_redis = True\<rparr> demo_app)) = boot ''c1'' 10000"
proof -
  let ?r = "on_startup demo_env \<lparr>ou_pool = True, ou_schema = True, ou_redis = True\<rparr> demo_app"
  have "ap_id demo_app = ''c1'' \<and> ap_ttl demo_app = 10000" by code_simp
  then show ?thesis
    using startup_serves [OF demo_app_made, of "\<lparr>ou_pool = True, ou_schema = True, ou_redis = True\<rparr>" "fst ?r" "snd ?r"]
    by (simp add: demo_env_def)
qed

text \<open>
  Clean-up, called on what any start-up left, complete or not, and after whatever happened to Redis in
  between, leaves no background task running and no pool open; except that a pool whose schema could
  not be applied is never closed, because the entry that clean-up looks for is made after the schema.
\<close>

theorem cleanup_stops_all:
  assumes "make_app env mt = Inr a" and "on_startup env ou a = (x, a')"
    and "on_cleanup (fold live_on evs a') = (a'', stopped)"
  shows "ap_pools a'' = (if x = Some SchemaError then 1 else 0) \<and>
    (\<forall>db. ap_db a'' = Some db \<longrightarrow> \<not> pg_pool db) \<and> ap_reaper a'' \<noteq> Some True \<and> ap_chaos a'' \<noteq> Some True \<and>
    ap_conc a'' \<noteq> Some True \<and> (\<forall>s. ap_dispatch a'' \<noteq> Some (True, s))"
proof -
  have a: "ap_db a = None" "ap_pools a = 0"
    using assms(1) by (auto simp: make_app_def split: option.splits)
  have p: "ap_pools a'' = (if x = Some SchemaError then 1 else 0) \<and> (\<forall>db. ap_db a'' = Some db \<longrightarrow> \<not> pg_pool db)"
    using assms(2,3) a
    by (cases rule: on_startup_cases [of env ou a])
      (auto simp: on_cleanup_def live_on_fields db_close_def)
  show ?thesis
    using p assms(3) by (auto simp: on_cleanup_def task_defs map_option_case split: option.splits prod.splits)
qed

theorem cleanup_stops_all_witness:
  "ap_pools (fst (on_cleanup (snd (on_startup demo_env \<lparr>ou_pool = True, ou_schema = False, ou_redis = True\<rparr> demo_app)))) = 1 \<and>
   ap_pools (fst (on_cleanup (live_on RedisDrop (snd (on_startup demo_env \<lparr>ou_pool = True, ou_schema = True, ou_redis = True\<rparr> demo_app))))) = 0"
proof -
  let ?bad = "on_startup demo_env \<lparr>ou_pool = True, ou_schema = False, ou_redis = True\<rparr> demo_app"
  let ?good = "on_startup demo_env \<lparr>ou_pool = True, ou_schema = True, ou_redis = True\<rparr> demo_app"
  have x: "fst ?bad = Some SchemaError" "fst ?good = None" by code_simp+
  have "ap_pools (fst (on_cleanup (fold live_on [] (snd ?bad)))) = 1"
    using cleanup_stops_all [OF demo_app_made prod.collapse [symmetric] prod.collapse [symmetric],
        where evs = "[]" and ou = "\<lparr>ou_pool = True, ou_schema = False, ou_redis = True\<rparr>"] x(1) by simp
  moreover have "ap_pools (fst (on_cleanup (fold live_on [RedisDrop] (snd ?good)))) = 0"
    using cleanup_stops_all [OF demo_app_made prod.collapse [symmetric] prod.collapse [symmetric],
        where evs = "[RedisDrop]" and ou = "\<lparr>ou_pool = True, ou_schema = True, ou_redis = True\<rparr>"] x(2) by simp
  ultimately show ?thesis by simp
qed

text \<open>
  Only the dispatcher survives a Redis restart. After the connection dropped once, the
  subscriptions to peers' faults and to peers' concurrency changes are never made again, whatever
  happens later; the wakeup subscription is, as soon as a retry succeeds.
\<close>

theorem peers_unheard_after_redis_drop:
  "ap_chaos (fold live_on (before @ RedisDrop # after) a) \<noteq> Some True \<and>
   ap_conc (fold live_on (before @ RedisDrop # after) a) \<noteq> Some True \<and>
   (ap_dispatch a = Some (True, s) \<longrightarrow>
      ap_dispatch (live_on Resubscribed (live_on RedisDrop a)) = Some (True, Listening))"
proof -
  let ?b = "live_on RedisDrop (fold live_on before a)"
  have "ap_chaos ?b \<noteq> Some True" "ap_conc ?b \<noteq> Some True" by (auto simp: map_option_case split: option.splits)
  then have "ap_chaos (fold live_on after ?b) \<noteq> Some True" "ap_conc (fold live_on after ?b) \<noteq> Some True"
    using live_on_deaf by blast+
  then show ?thesis by simp
qed

theorem peers_unheard_after_redis_drop_witness:
  "ap_dispatch (live_on Resubscribed (live_on RedisDrop
     (snd (on_startup demo_env \<lparr>ou_pool = True, ou_schema = True, ou_redis = True\<rparr> demo_app)))) = Some (True, Listening)"
proof -
  have "ap_dispatch (snd (on_startup demo_env \<lparr>ou_pool = True, ou_schema = True, ou_redis = True\<rparr> demo_app)) = Some (True, Retrying)"
    by code_simp
  then show ?thesis using peers_unheard_after_redis_drop by blast
qed

end
