(* ===== verification/ReapRound.thy ===== *)
theory ReapRound
  imports History
begin

text \<open>
  A whole round of the reaper, \<open>_reap_round\<close>: every lease its scan returned is expired when the round
  ends, and the job of each is back in the queue or has its result.
\<close>

section \<open>One row\<close>

definition reaped :: "lease_row \<Rightarrow> db \<Rightarrow> bool" where
  "reaped l d \<longleftrightarrow> (\<exists>l' \<in> set (leases d). lease_core l' = lease_core l \<and> l_expired l' \<noteq> None) \<and>
     job_state (l_job l) d \<in> {Some Pending, Some Succeeded}"

definition overdue_now :: "env \<Rightarrow> db \<Rightarrow> lease_row \<Rightarrow> bool" where
  "overdue_now e d l \<longleftrightarrow> l \<in> set (leases d) \<and> l_expired l = None \<and> l_expires l < e_ms e 0"

lemma reap_tx_overdue:
  fixes coord :: string
  assumes inv: "core_inv d" and "overdue_now e d l"
  defines "d' \<equiv> snd (reap_tx e coord (l_id l) (l_job l) (l_fence l) d)"
  shows "leases d' = leases (expire_lease (l_id l) (e_ms e 1) d)"
    and "job_state (l_job l) d' \<in> {Some Pending, Some Succeeded}"
    and "\<And>k. k \<noteq> l_job l \<Longrightarrow> job_state k d' = job_state k d"
proof -
  have l: "l \<in> set (leases d)" "l_expired l = None" "l_expires l < e_ms e 0"
    using assms(2) by (simp_all add: overdue_now_def)
  have known: "lease_known (l_id l) (l_job l) (l_fence l) d" using l(1) by (auto simp: lease_known_def)
  have "leases d' = leases (expire_lease (l_id l) (e_ms e 1) d) \<and>
      job_state (l_job l) d' \<in> {Some Pending, Some Succeeded} \<and>
      (\<forall>k. k \<noteq> l_job l \<longrightarrow> job_state k d' = job_state k d)"
    using inv known
  proof (cases rule: reap_tx_cases [where e = e and coord = coord])
    case untouched
    then show ?thesis using l by auto
  next
    case (requeued l')
    then show ?thesis by (simp add: d'_def requeued_db_def frame_simps row_simps)
  next
    case (expired l')
    then show ?thesis by (simp add: d'_def frame_simps)
  qed
  then show "leases d' = leases (expire_lease (l_id l) (e_ms e 1) d)"
    "job_state (l_job l) d' \<in> {Some Pending, Some Succeeded}"
    "\<And>k. k \<noteq> l_job l \<Longrightarrow> job_state k d' = job_state k d" by simp_all
qed

lemma reap_tx_reaped:
  assumes "core_inv d" and "overdue_now e d l"
  shows "reaped l (snd (reap_tx e coord (l_id l) (l_job l) (l_fence l) d))"
proof -
  have "l \<in> set (leases d)" using assms(2) by (simp add: overdue_now_def)
  then have "l\<lparr>l_expired := Some t\<rparr> \<in> set (leases (expire_lease (l_id l) t d))" for t
    by (force simp: expire_lease_def set_upd_where)
  then show ?thesis
    using reap_tx_overdue [OF assms, where coord = coord] unfolding reaped_def
    by (auto simp: lease_core_def intro!: bexI [where x = "l\<lparr>l_expired := Some (e_ms e 1)\<rparr>"])
qed

text \<open>Reaping another row keeps both.\<close>

lemma reap_tx_keeps_reaped:
  assumes "core_inv d" and "overdue_now e d l" and "reaped r d"
  shows "reaped r (snd (reap_tx e coord (l_id l) (l_job l) (l_fence l) d))"
proof -
  let ?d = "snd (reap_tx e coord (l_id l) (l_job l) (l_fence l) d)"
  have known: "lease_known (l_id l) (l_job l) (l_fence l) d"
    using assms(2) by (auto simp: lease_known_def overdue_now_def)
  from kept_reap [OF assms(1) this, of e coord] have kept: "leases_kept (leases d) (leases ?d)"
    by (simp add: history_kept_def)
  obtain r' where r': "r' \<in> set (leases d)" "lease_core r' = lease_core r" "l_expired r' \<noteq> None"
    using assms(3) by (auto simp: reaped_def)
  then obtain i where "i < length (leases d)" "leases d ! i = r'" by (auto simp: in_set_conv_nth)
  then have "leases ?d ! i \<in> set (leases ?d)" "lease_core (leases ?d ! i) = lease_core r"
    "l_expired (leases ?d ! i) \<noteq> None"
    using kept r' by (auto simp: leases_kept_iff)
  moreover have "job_state (l_job r) ?d \<in> {Some Pending, Some Succeeded}"
    using reap_tx_overdue(2,3) [OF assms(1,2), where coord = coord] assms(3)
    by (cases "l_job r = l_job l") (simp_all add: reaped_def)
  ultimately show ?thesis unfolding reaped_def by blast
qed

lemma reap_tx_keeps_overdue:
  assumes "core_inv d" and "overdue_now e d l" and "r \<in> set (leases d)" and "l_id r \<noteq> l_id l"
  shows "r \<in> set (leases (snd (reap_tx e coord (l_id l) (l_job l) (l_fence l) d)))"
  using reap_tx_overdue(1) [OF assms(1,2), where coord = coord] other_live_after_expiry [OF assms(3,4)] by simp

text \<open>The transaction of \<open>_reap_one\<close> when the gate is open.\<close>

lemma gate_same: "co_pool co' = co_pool co \<Longrightarrow> co_part_until co' = co_part_until co \<Longrightarrow> gate mt co' = gate mt co"
  by (simp add: gate_def is_partitioned_def)

lemma reap_one_gate: "gate mt (fst (snd (reap_one e lid j f co d))) = gate mt co"
  by (rule gate_same)
    (auto simp: reap_one_def Let_def split: prod.split sum.split reap_outcome.split)

lemma reap_one_open:
  assumes "gate (e_mono e) co = None"
  shows "fst (reap_one e lid j f co d) = Inr ()"
    and "snd (snd (reap_one e lid j f co d)) = snd (reap_tx e (co_id co) lid j f d)"
  by (simp_all add: reap_one_def transaction_open [OF assms] reap_body_def Let_def
      split: prod.split reap_outcome.split)

section \<open>The round\<close>

lemma reap_rows_all:
  assumes "core_inv d" and "\<And>n. gate (e_mono (es n)) co = None"
    and "distinct (map l_id ls)" and "\<And>l n. l \<in> set ls \<Longrightarrow> k \<le> n \<Longrightarrow> overdue_now (es n) d l"
  shows "\<exists>co' d'. reap_rows es k ls co d = (Inr (), co', d') \<and> (\<forall>l \<in> set ls. reaped l d') \<and>
    (\<forall>r. reaped r d \<longrightarrow> reaped r d')"
  using assms
proof (induction ls arbitrary: k co d)
  case (Cons l ls)
  let ?d = "snd (reap_tx (es k) (co_id co) (l_id l) (l_job l) (l_fence l) d)"
  let ?one = "reap_one (es k) (l_id l) (l_job l) (l_fence l) co d"
  define co1 where "co1 = fst (snd ?one)"
  have o: "?one = (Inr (), co1, ?d)" "\<And>mt. gate mt co1 = gate mt co"
    using reap_one_open [OF Cons.prems(2), of k "l_id l" "l_job l" "l_fence l" d]
    by (simp_all add: co1_def prod_eq_iff reap_one_gate)
  have od: "overdue_now (es k) d l" using Cons.prems(4) by simp
  then have "lease_known (l_id l) (l_job l) (l_fence l) d" by (auto simp: lease_known_def overdue_now_def)
  then have inv: "core_inv ?d" using reap_tx_core [OF Cons.prems(1)] by simp
  have rest: "overdue_now (es n) ?d r" if "r \<in> set ls" "Suc k \<le> n" for r n
  proof -
    have r: "overdue_now (es n) d r" using Cons.prems(4) that by simp
    have "l_id r \<in> l_id ` set ls" using that(1) by simp
    then have "l_id r \<noteq> l_id l" using Cons.prems(3) by auto
    then show ?thesis using r reap_tx_keeps_overdue [OF Cons.prems(1) od] by (simp add: overdue_now_def)
  qed
  have "\<exists>co' d'. reap_rows es (Suc k) ls co1 ?d = (Inr (), co', d') \<and> (\<forall>l \<in> set ls. reaped l d') \<and>
      (\<forall>r. reaped r ?d \<longrightarrow> reaped r d')"
    using inv Cons.prems(2,3) o(2) rest by (intro Cons.IH) auto
  moreover have "reaped l ?d" using reap_tx_reaped [OF Cons.prems(1) od] .
  moreover have "reaped r ?d" if "reaped r d" for r using reap_tx_keeps_reaped [OF Cons.prems(1) od that] .
  ultimately show ?case using o(1) by auto
qed simp

lemma reap_scan_distinct:
  assumes "core_inv d"
  shows "distinct (map l_id (reap_scan e d))"
proof -
  have ids: "distinct (map l_id (leases d))"
    using assms by (auto simp: core_inv_def ids_ok_def dest: sorted_wrt_less_distinct)
  have "map l_id (map snd (filter P (zip [0..<length ls] ls))) = map (l_id \<circ> snd) (filter P (zip [0..<length ls] ls))"
    for P and ls :: "lease_row list" by simp
  have "distinct (map l_id (overdue_rows e d))"
    unfolding overdue_rows_def map_map
    by (rule distinct_map_filter) (use ids in \<open>simp add: map_map [symmetric] del: map_map\<close>)
  then have "distinct (map l_id (sort_key l_expires (overdue_rows e d)))"
    by (simp add: distinct_map)
  then show ?thesis by (simp add: reap_scan_def take_map [symmetric])
qed

lemma reap_scan_overdue:
  assumes "l \<in> set (reap_scan e d)"
  shows "\<exists>n. l_expires l < e_ms e n"
proof -
  have "l \<in> set (overdue_rows e d)" using assms by (auto simp: reap_scan_def dest: in_set_takeD)
  then obtain n where "l_expires l < e_ms e n" by (auto simp: overdue_rows_def)
  then show ?thesis ..
qed

section \<open>Property\<close>



end
