(* ===== verification/StatsPage.thy ===== *)
theory StatsPage
  imports Interleaving
begin

text \<open>
  The operator's page: the snapshot of queue and leases and the workers line of
  \<open>coordinator/stats.py\<close>, and \<open>format_uptime\<close> and \<open>handle_stats\<close> of \<open>coordinator/app.py\<close>.
\<close>

section \<open>The snapshot\<close>

record snapshot =
  sn_pending :: nat
  sn_in_flight :: nat
  sn_stuck :: nat
  sn_active :: nat
  sn_expiring :: nat

text \<open>The rows of a table with the clock readings made for them.\<close>

definition at_rows :: "(nat \<Rightarrow> int) \<Rightarrow> 'a list \<Rightarrow> (int \<times> 'a) list" where
  "at_rows clock xs = map (\<lambda>(n, x). (clock n, x)) (zip [0..<length xs] xs)"

definition count_state :: "jstate \<Rightarrow> db \<Rightarrow> nat" where
  "count_state s d = length (filter (\<lambda>r. j_state r = s) (jobs d))"

definition is_live :: "lease_row \<Rightarrow> bool" where
  "is_live l \<longleftrightarrow> l_expired l = None"

text \<open>
  \<open>db_snapshot\<close>: one query. The clock is read anew for every row: at even indices for the
  column \<open>stuck\<close>, at odd ones for \<open>expiring\<close>.
\<close>

definition db_snapshot :: "env \<Rightarrow> db \<Rightarrow> snapshot" where
  "db_snapshot e d = \<lparr>
     sn_pending = count_state Pending d,
     sn_in_flight = count_state Leased d,
     sn_stuck = length (filter (\<lambda>(t, l). is_live l \<and> t - l_issued l > 30000 \<and>
         list_ex (\<lambda>r. j_id r = l_job l \<and> j_state r = Leased) (jobs d))
         (at_rows (\<lambda>n. e_ms e (2 * n)) (leases d))),
     sn_active = length (filter is_live (leases d)),
     sn_expiring = length (filter (\<lambda>(t, l). is_live l \<and> l_expires l - t < 5000)
         (at_rows (\<lambda>n. e_ms e (2 * n + 1)) (leases d)))\<rparr>"

section \<open>Text\<close>

text \<open>\<open>format_uptime\<close> of a number of whole seconds.\<close>

definition format_uptime :: "nat \<Rightarrow> string" where
  "format_uptime secs =
     (let h = secs div 3600; rem = secs mod 3600; m = rem div 60; s = rem mod 60
      in if h \<noteq> 0 then nat_str h @ ''h'' @ nat_str m @ ''m''
         else if m \<noteq> 0 then nat_str m @ ''m'' @ nat_str s @ ''s''
         else nat_str s @ ''s'')"

text \<open>One worker of the line, \<open>w1:3/8\<close>, with a star when it is at its limit.\<close>

definition worker_part :: "conn \<Rightarrow> string" where
  "worker_part s =
     w_id s @ '':'' @ nat_str (length (w_inflight s)) @ ''/'' @ int_str (w_limit s) @
     (if int (length (w_inflight s)) \<ge> w_limit s then ''*'' else [])"

fun join_sp :: "string list \<Rightarrow> string" where
  "join_sp [] = []"
| "join_sp [x] = x"
| "join_sp (x # y # ys) = x @ '' '' @ join_sp (y # ys)"

definition render_workers_line :: "coord \<Rightarrow> string" where
  "render_workers_line co =
     (let states = sort_key w_id (map (co_conns co) (reg_all co));
          parts = map worker_part states;
          inner = (if parts \<noteq> [] then '' '' @ join_sp parts @ '' '' else '' '')
      in ''workers: '' @ nat_str (length states) @ '' connected ('' @ inner @ '')'')"

definition queue_line :: "snapshot \<Rightarrow> string" where
  "queue_line sn = ''queue: '' @ nat_str (sn_pending sn) @ '' pending  '' @ nat_str (sn_in_flight sn) @
     '' in-flight  '' @ nat_str (sn_stuck sn) @ '' stuck>30s''"

definition lease_line :: "snapshot \<Rightarrow> string" where
  "lease_line sn = ''leases: '' @ nat_str (sn_active sn) @ '' active  '' @ nat_str (sn_expiring sn) @
     '' expiring<5s''"

definition rate_of :: "string \<Rightarrow> (string \<times> int) list \<Rightarrow> int" where
  "rate_of ev rates = (case map_of rates ev of None \<Rightarrow> 0 | Some n \<Rightarrow> n)"

text \<open>
  \<open>handle_stats\<close>. \<open>start\<close> is the monotonic time of the start; the uptime shown is shifted by the
  clock skew and never negative. A closed gate gives the degraded lines, except that a pool
  that was never connected raises.
\<close>

definition display_seconds :: "env \<Rightarrow> int \<Rightarrow> coord \<Rightarrow> nat" where
  "display_seconds e start co = nat ((e_mono e - start + 1000 * co_skew co) div 1000)"

definition handle_stats ::
    "env \<Rightarrow> int \<Rightarrow> (string \<Rightarrow> int option list option) \<Rightarrow> coord \<Rightarrow> db \<Rightarrow> (exn + (int \<times> string)) \<times> coord" where
  "handle_stats e start reply co d =
     (let page = (\<lambda>q l. let (rates, co') = window_counts (e_sec e) reply co in
        (Inr (200,
           ''coordinator: '' @ co_id co @ ''  uptime: '' @ format_uptime (display_seconds e start co) @
             ''  leader_term: n/a'' @ [CHR 0x0A] @
           render_workers_line co @ [CHR 0x0A] @ q @ [CHR 0x0A] @ l @ [CHR 0x0A] @
           ''last 60s: '' @ int_str (rate_of ''submitted'' rates) @ '' submitted  '' @
             int_str (rate_of ''completed'' rates) @ '' completed  '' @
             int_str (rate_of ''failed'' rates) @ '' failed  0 lost'' @ [CHR 0x0A]), co'))
      in case fetch (e_mono e) co (\<lambda>d. Inr (db_snapshot e d)) d of
           Inl DBPartitioned \<Rightarrow> page ''queue: (db partitioned)'' ''leases: (db partitioned)''
         | Inl x \<Rightarrow> (Inl x, co)
         | Inr sn \<Rightarrow> page (queue_line sn) (lease_line sn))"

section \<open>Lemmas\<close>

lemma at_rows_live:
  "length (filter (\<lambda>(t, l). is_live l \<and> P t l) (at_rows clock ls)) \<le> length (filter is_live ls)"
proof -
  have "length (filter (\<lambda>(t, l). is_live l \<and> P t l) ps) \<le> length (filter is_live (map snd ps))"
    for ps :: "(int \<times> lease_row) list"
    by (induction ps) auto
  moreover have "map snd (at_rows clock ls) = ls"
    by (simp add: at_rows_def o_def case_prod_unfold)
  ultimately show ?thesis by metis
qed

text \<open>Every leased job has a live lease of its own.\<close>

lemma in_flight_le_active:
  assumes "core_inv d"
  shows "count_state Leased d \<le> length (filter is_live (leases d))"
proof -
  let ?J = "set (map j_id (filter (\<lambda>r. j_state r = Leased) (jobs d)))"
  have "distinct (map j_id (filter (\<lambda>r. j_state r = Leased) (jobs d)))"
    using core_invD(1) [OF assms] by (simp add: keys_ok_def distinct_map_filter)
  then have "count_state Leased d = card ?J"
    by (metis count_state_def distinct_card length_map)
  also have "?J \<subseteq> l_job ` set (filter is_live (leases d))"
  proof
    fix j assume "j \<in> ?J"
    then obtain r where "r \<in> set (jobs d)" "j_id r = j" "j_state r = Leased" by auto
    then have "job_state j d = Some Leased" using job_state_of_row core_invD(1) [OF assms] by metis
    then show "j \<in> l_job ` set (filter is_live (leases d))"
      using core_invD(6) [OF assms] by (force simp: live_ok_def is_live_def)
  qed
  then have "card ?J \<le> card (l_job ` set (filter is_live (leases d)))"
    by (intro card_mono) auto
  also have "\<dots> \<le> length (filter is_live (leases d))"
    by (meson card_image_le card_length finite_set le_trans)
  finally show ?thesis .
qed

lemma nat_str_digits: "set (nat_str n) \<subseteq> digit_char ` {0..9}"
proof (induction n rule: nat_str.induct)
  case (1 n)
  show ?case
  proof (cases "n < 10")
    case False
    then show ?thesis using 1 by (subst nat_str.simps) auto
  qed (subst nat_str.simps, auto)
qed

section \<open>Reading a numeral back\<close>

definition digit_of :: "char \<Rightarrow> nat" where
  "digit_of c = of_char c - 48"

definition read_nat :: "string \<Rightarrow> nat" where
  "read_nat s = foldl (\<lambda>acc c. 10 * acc + digit_of c) 0 s"

lemma digit_of_char [simp]: "n < 10 \<Longrightarrow> digit_of (digit_char n) = n"
  by (simp add: digit_of_def digit_char_def)

lemma read_nat_str [simp]: "read_nat (nat_str n) = n"
proof (induction n rule: nat_str.induct)
  case (1 n)
  show ?case
  proof (cases "n < 10")
    case True
    then show ?thesis by (subst nat_str.simps) (simp add: read_nat_def)
  next
    case False
    then have "read_nat (nat_str (n div 10)) = n div 10" using 1 by simp
    then show ?thesis using False by (subst nat_str.simps) (simp add: read_nat_def)
  qed
qed

lemma nat_str_inj: "nat_str a = nat_str b \<Longrightarrow> a = b"
  by (metis read_nat_str)

lemma nat_str_nonempty [simp]: "nat_str n \<noteq> []"
  by (subst nat_str.simps) simp

lemma digit_char_eq: "n < 10 \<Longrightarrow> digit_char n = c \<Longrightarrow> (48 :: nat) \<le> of_char c \<and> of_char c < (58 :: nat)"
  by (auto simp: digit_char_def)

lemma not_in_nat_str:
  assumes "(58 :: nat) \<le> of_char c \<or> of_char c < (48 :: nat)"
  shows "c \<notin> set (nat_str n)"
proof
  assume "c \<in> set (nat_str n)"
  then obtain k where "c = digit_char k" "k \<le> 9" using nat_str_digits [of n] by auto
  then show False using digit_char_eq [of k c] assms by simp
qed

lemma split_at_mark:
  assumes "xs @ c # ys = xs' @ c # ys'" and "c \<notin> set xs" and "c \<notin> set xs'"
  shows "xs = xs' \<and> ys = ys'"
  using assms by (induction xs arbitrary: xs') (auto simp: Cons_eq_append_conv)

lemma marked_numerals:
  assumes "nat_str a @ c # nat_str b @ [e] = nat_str a' @ c # nat_str b' @ [e]"
    and "(58 :: nat) \<le> of_char c"
  shows "a = a' \<and> b = b'"
  using split_at_mark [OF assms(1)] not_in_nat_str assms(2) nat_str_inj by auto

lemma last_int_str: "last (int_str i) \<noteq> CHR ''*''"
proof -
  have "CHR ''*'' \<notin> set (nat_str n)" for n by (rule not_in_nat_str) simp
  then show ?thesis by (metis int_str_def last.simps last_in_set nat_str_nonempty)
qed

lemma format_uptime_short: "n < 60 \<Longrightarrow> format_uptime n = nat_str n @ ''s''"
  by (simp add: format_uptime_def Let_def)

lemma format_uptime_mid:
  assumes "60 \<le> n" and "n < 3600"
  shows "format_uptime n = nat_str (n div 60) @ CHR ''m'' # nat_str (n mod 60) @ ''s''"
proof -
  have "n div 60 \<noteq> 0" "n div 3600 = 0" "n mod 3600 = n" using assms by auto
  then show ?thesis by (simp add: format_uptime_def Let_def)
qed

lemma format_uptime_long:
  assumes "3600 \<le> n"
  shows "format_uptime n = nat_str (n div 60 div 60) @ CHR ''h'' # nat_str (n div 60 mod 60) @ ''m''"
proof -
  have "n div 3600 \<noteq> 0" using assms by (simp add: div_eq_0_iff)
  moreover have "n div 3600 = n div 60 div 60" by (simp add: div_mult2_eq [symmetric])
  moreover have "n mod 3600 div 60 = n div 60 mod 60"
    using mod_mult2_eq [of n 60 60] by simp
  ultimately
  show ?thesis by (simp add: format_uptime_def Let_def)
qed

text \<open>The page stars exactly the workers the dispatch loop passes over for want of capacity.\<close>

lemma star_iff_full: "last (worker_part s) = CHR ''*'' \<longleftrightarrow> \<not> has_capacity s"
proof -
  have "int_str n \<noteq> []" for n by (simp add: int_str_def)
  then show ?thesis
    using last_int_str [of "w_limit s"]
    by (auto simp: worker_part_def has_capacity_def)
qed

section \<open>Properties\<close>

text \<open>
  The liveness probe always gets its answer: once the pool is connected, \<open>/stats\<close> answers 200
  whatever the database, the partition gate and Redis do.
\<close>

theorem stats_always_answers:
  assumes "co_pool co"
  shows "\<exists>text. fst (handle_stats e start reply co d) = Inr (200, text)"
  using assms by (auto simp: handle_stats_def fetch_def gate_def Let_def split: prod.split)

theorem stats_always_answers_witness:
  "\<exists>text. fst (handle_stats (env_at 50 []) 0 (\<lambda>_. None) (partition_db 40 100 (boot ''c1'' 10000)) empty_db) =
     Inr (200, text)"
  by (rule stats_always_answers) (simp add: partition_db_def boot_def)

text \<open>
  The counts of the page fit together in every reachable state, whatever transactions are
  open: the jobs in flight, the stuck leases and the expiring leases are each at most as many as
  the active leases.
\<close>

theorem snapshot_consistent:
  assumes "sys_step\<^sup>*\<^sup>* sys_start s"
  shows "sn_in_flight (db_snapshot e (s_db s)) \<le> sn_active (db_snapshot e (s_db s)) \<and>
    sn_stuck (db_snapshot e (s_db s)) \<le> sn_active (db_snapshot e (s_db s)) \<and>
    sn_expiring (db_snapshot e (s_db s)) \<le> sn_active (db_snapshot e (s_db s))"
  using in_flight_le_active [OF sys_reach_core [OF assms]]
  by (simp add: db_snapshot_def at_rows_live)

theorem snapshot_consistent_witness:
  "sn_in_flight (db_snapshot (env_at 40000 []) race_leased) = 1 \<and>
   sn_stuck (db_snapshot (env_at 40000 []) race_leased) \<le> sn_active (db_snapshot (env_at 40000 []) race_leased)"
proof
  show "sn_in_flight (db_snapshot (env_at 40000 []) race_leased) = 1" by code_simp
  show "sn_stuck (db_snapshot (env_at 40000 []) race_leased) \<le> sn_active (db_snapshot (env_at 40000 []) race_leased)"
    using snapshot_consistent [OF race_begin, of "env_at 40000 []"] by (simp add: race_sys_def)
qed

text \<open>
  The uptime is readable: below one hour the text determines the number of seconds, from one
  hour on it determines the number of minutes.
\<close>

theorem uptime_readable:
  "(a < 3600 \<and> b < 3600 \<longrightarrow> (format_uptime a = format_uptime b \<longleftrightarrow> a = b)) \<and>
   (3600 \<le> a \<and> 3600 \<le> b \<longrightarrow> (format_uptime a = format_uptime b \<longleftrightarrow> a div 60 = b div 60))"
proof (intro conjI impI; elim conjE)
  have m: "CHR ''m'' \<notin> set (nat_str n)" for n by (rule not_in_nat_str) simp
  show "format_uptime a = format_uptime b \<longleftrightarrow> a = b" if "a < 3600" "b < 3600"
  proof
    assume eq: "format_uptime a = format_uptime b"
    consider "a < 60" "b < 60" | "60 \<le> a" "60 \<le> b" | "a < 60" "60 \<le> b" | "60 \<le> a" "b < 60"
      by linarith
    then show "a = b"
    proof cases
      case 1
      then show ?thesis using eq by (simp add: format_uptime_short nat_str_inj)
    next
      case 2
      then have "a div 60 = b div 60 \<and> a mod 60 = b mod 60"
        using eq that
        by (intro marked_numerals [where c = "CHR ''m''" and e = "CHR ''s''"])
          (simp_all add: format_uptime_mid)
      then show ?thesis by (metis div_mult_mod_eq)
    next
      case 3
      then have "CHR ''m'' \<in> set (nat_str a @ ''s'')"
        using eq that by (simp add: format_uptime_short format_uptime_mid)
      then show ?thesis using m by simp
    next
      case 4
      then have "CHR ''m'' \<in> set (nat_str b @ ''s'')"
        using eq [symmetric] that by (simp add: format_uptime_short format_uptime_mid)
      then show ?thesis using m by simp
    qed
  qed simp
  show "format_uptime a = format_uptime b \<longleftrightarrow> a div 60 = b div 60" if "3600 \<le> a" "3600 \<le> b"
  proof
    assume "format_uptime a = format_uptime b"
    then have "a div 60 div 60 = b div 60 div 60 \<and> a div 60 mod 60 = b div 60 mod 60"
      using that
      by (intro marked_numerals [where c = "CHR ''h''" and e = "CHR ''m''"])
        (simp_all add: format_uptime_long)
    then show "a div 60 = b div 60" by (metis div_mult_mod_eq)
  qed (use that in \<open>simp add: format_uptime_long\<close>)
qed

theorem uptime_readable_witness:
  "format_uptime 3599 \<noteq> format_uptime 3539 \<and> format_uptime 3660 = format_uptime 3719"
  using uptime_readable [of 3599 3539] uptime_readable [of 3660 3719] by simp

text \<open>
  Losing Redis loses no count. An event counted in memory within the window raises the
  coordinator's own total for that event by exactly its number and leaves the other events
  alone, and reading the totals, which prunes the buffers, does not change what the next read
  in the same second returns.
\<close>

theorem fallback_counts_exact:
  assumes "distinct (map fst (mem_of ev co))" and "ev \<in> set events" and "now - 60 < sec" and "sec \<le> now"
  shows "fst (window_count now None ev (rates_incr False sec ev n co)) = fst (window_count now None ev co) + n \<and>
    (ev' \<noteq> ev \<longrightarrow> fst (window_count now None ev' (rates_incr False sec ev n co)) = fst (window_count now None ev' co)) \<and>
    fst (window_count now None ev (snd (window_count now None ev' co))) = fst (window_count now None ev co)"
proof (intro conjI impI)
  have tot: "fst (window_count now None x c) = mem_total now (mem_of x c)" for x c
    by (simp add: window_count_def Let_def mem_total_prune)
  show "fst (window_count now None ev (rates_incr False sec ev n co)) = fst (window_count now None ev co) + n"
    unfolding tot using assms by (simp add: rates_incr_def mem_of_add mem_total_update)
  show "fst (window_count now None ev' (rates_incr False sec ev n co)) = fst (window_count now None ev' co)"
    if "ev' \<noteq> ev"
    unfolding tot using assms(2) that by (simp add: rates_incr_def mem_of_add)
  have "mem_of ev (snd (window_count now None ev' co)) =
      (if ev = ev' then mem_prune now (mem_of ev co) else mem_of ev co)"
    by (simp add: window_count_def Let_def mem_of_def update_conv')
  then show "fst (window_count now None ev (snd (window_count now None ev' co))) = fst (window_count now None ev co)"
    unfolding tot by (simp add: mem_total_prune)
qed

theorem fallback_counts_exact_witness:
  "fst (window_count 130 None ''failed'' (rates_incr False 100 ''failed'' 2 (boot ''c1'' 1000))) = 2"
  using fallback_counts_exact [of "''failed''" "boot ''c1'' 1000" 130 100 2]
  by (simp add: events_def mem_of_def boot_def window_count_def mem_prune_def mem_total_def Let_def)

end
