(* ===== verification/Streams.thy ===== *)
theory Streams
  imports Handlers
begin

text \<open>
  Correctness of the event stream, \<open>handle_stream_job\<close>: the transition log only grows, so the
  polls of a stream together send every row of the job's log once, in order.
\<close>

section \<open>The log only grows\<close>

definition log_extends :: "db \<Rightarrow> db \<Rightarrow> bool" where
  "log_extends d d' \<longleftrightarrow> (\<exists>xs. transitions d' = transitions d @ xs)"

lemma log_extends_refl [simp]: "log_extends d d"
  by (simp add: log_extends_def)

lemma log_extends_trans: "log_extends a b \<Longrightarrow> log_extends b c \<Longrightarrow> log_extends a c"
  by (auto simp: log_extends_def)

lemma log_extends_same: "transitions d' = transitions d \<Longrightarrow> log_extends d d'"
  by (simp add: log_extends_def)

lemma log_extends_record:
  "transitions d1 = transitions d \<Longrightarrow> log_extends d (record_transition j fr to co t d1)"
  by (simp add: log_extends_def record_transition_def)

lemma tx_step_log: "tx_step d d' \<Longrightarrow> log_extends d d'"
proof (induction rule: tx_step.induct)
  case (submit d e key pl coord)
  then show ?case
    by (cases rule: create_tx_cases [of key d e pl coord])
      (auto intro: log_extends_record simp: frame_simps)
next
  case (claim d e ttl coord w)
  then show ?case
    by (auto simp: claim_tx_snd leased_db_def default_issue_def issue_fence_def Let_def frame_simps
        intro!: log_extends_record split: option.split)
next
  case (commit d e coord j f w res)
  then show ?case
    by (auto simp: commit_tx_def commit_writes_snd accepted_db_def frame_simps
        intro: log_extends_record log_extends_same split: option.split prod.split bool.split)
next
  case (reap lid j f d e coord)
  then show ?case
    by (auto simp: reap_tx_def Let_def frame_simps intro: log_extends_record log_extends_same
        split: option.split)
next
  case (renew d e ttl j f)
  then show ?case by (auto simp: renew_tx_def Let_def intro: log_extends_same)
qed (auto simp: cancel_tx_def frame_simps intro: log_extends_record log_extends_same)

lemma tx_steps_log: "tx_step\<^sup>*\<^sup>* d d' \<Longrightarrow> log_extends d d'"
  by (induction rule: rtranclp_induct) (auto intro: log_extends_trans tx_step_log)

section \<open>What the stream sends\<close>

definition log_rows :: "uuid \<Rightarrow> db \<Rightarrow> trans_row list" where
  "log_rows j d = filter (\<lambda>t. t_job t = j) (transitions d)"

definition has_terminal :: "uuid \<Rightarrow> db \<Rightarrow> bool" where
  "has_terminal j d \<longleftrightarrow> list_ex (\<lambda>t. terminal (t_to t)) (log_rows j d)"

text \<open>The database of the last poll the stream makes: the first with a terminal row, or the last.\<close>

fun last_seen :: "uuid \<Rightarrow> db \<Rightarrow> db option list \<Rightarrow> db" where
  "last_seen j d [] = d"
| "last_seen j d (None # ps) = last_seen j d ps"
| "last_seen j d (Some d' # ps) = (if has_terminal j d' then d' else last_seen j d' ps)"

text \<open>The ids of the log start at 1.\<close>

definition log_pos :: "db \<Rightarrow> bool" where
  "log_pos d \<longleftrightarrow> 0 \<le> tr_seq d \<and> (\<forall>t \<in> set (transitions d). 0 < t_id t)"

lemma log_pos_record: "log_pos d \<Longrightarrow> log_pos (record_transition j fr to co t d)"
  by (auto simp: log_pos_def record_transition_def)

lemma log_pos_same: "log_pos d \<Longrightarrow> tr_seq d' = tr_seq d \<Longrightarrow> transitions d' = transitions d \<Longrightarrow> log_pos d'"
  by (simp add: log_pos_def)

lemma log_pos_frames:
  assumes "log_pos d"
  shows "log_pos (insert_job r d)" "log_pos (set_job_state j s t d)" "log_pos (succeed_job j res t d)"
    "log_pos (insert_lease j f w a b d)" "log_pos (expire_lease lid t d)"
    "log_pos (insert_commit j f w acc t d)" "log_pos (d\<lparr>fence_clock := m, fence_seq := n\<rparr>)"
    "log_pos (d\<lparr>cm_seq := n\<rparr>)"
  by (rule log_pos_same [OF assms]; simp add: statement_defs)+

lemma tx_step_log_pos: "tx_step d d' \<Longrightarrow> log_pos d \<Longrightarrow> log_pos d'"
proof (induction rule: tx_step.induct)
  case (submit d e key pl coord)
  then show ?case
    by (cases rule: create_tx_cases [of key d e pl coord]) (auto intro: log_pos_record log_pos_frames)
next
  case (claim d e ttl coord w)
  then show ?case
    by (auto simp: claim_tx_snd leased_db_def default_issue_def issue_fence_def Let_def
        split: option.split) (intro log_pos_record log_pos_frames, assumption)+
next
  case (commit d e coord j f w res)
  then show ?case
    by (auto simp: commit_tx_def commit_writes_snd accepted_db_def
        intro: log_pos_record log_pos_frames split: option.split prod.split bool.split)
next
  case (reap lid j f d e coord)
  then show ?case
    by (auto simp: reap_tx_def Let_def intro: log_pos_record log_pos_frames split: option.split)
next
  case (renew d e ttl j f)
  then show ?case by (auto simp: renew_tx_def Let_def intro: log_pos_same)
next
  case (burn d a b c n)
  then show ?case by (auto simp: log_pos_def)
qed (auto simp: cancel_tx_def intro: log_pos_record log_pos_frames)

text \<open>The polls of one run of the system.\<close>

fun run_polls :: "db \<Rightarrow> db option list \<Rightarrow> bool" where
  "run_polls d [] = True"
| "run_polls d (None # ps) = run_polls d ps"
| "run_polls d (Some d' # ps) = (tx_step\<^sup>*\<^sup>* d d' \<and> run_polls d' ps)"

definition full_stream :: "uuid \<Rightarrow> db \<Rightarrow> sse list" where
  "full_stream j d = map sse_of (log_rows j d) @ (if has_terminal j d then [EvDone] else [])"

definition seen_id :: "uuid \<Rightarrow> db \<Rightarrow> int" where
  "seen_id j d = (if log_rows j d = [] then 0 else t_id (last (log_rows j d)))"

lemma sorted_wrt_last: "sorted_wrt (<) (map f xs) \<Longrightarrow> x \<in> set xs \<Longrightarrow> f x \<le> (f (last xs) :: int)"
  by (induction xs) (auto simp: order_less_imp_le)

lemma new_rows_split:
  assumes ids: "ids_ok d'" and pos: "log_pos d'" and ext: "log_extends d d'"
  shows "log_rows j d' = log_rows j d @ new_rows j (seen_id j d) d'"
proof -
  obtain xs where xs: "transitions d' = transitions d @ xs" using ext by (auto simp: log_extends_def)
  have srt: "sorted_wrt (<) (map t_id (transitions d'))" using ids by (simp add: ids_ok_def)
  have later: "t_id t < t_id u" if "t \<in> set (transitions d)" "u \<in> set xs" for t u
    using srt that by (auto simp: xs sorted_wrt_append)
  have "sorted_wrt (<) (map t_id (log_rows j d))"
    using srt by (simp add: log_rows_def xs sorted_wrt_append sorted_wrt_map sorted_wrt_filter)
  from sorted_wrt_last [OF this] have old: "\<forall>t \<in> set (log_rows j d). \<not> seen_id j d < t_id t"
    by (auto simp: seen_id_def not_less)
  have new: "\<forall>t \<in> set xs. seen_id j d < t_id t"
  proof
    fix t assume t: "t \<in> set xs"
    show "seen_id j d < t_id t"
    proof (cases "log_rows j d = []")
      case True
      then show ?thesis using pos t by (simp add: seen_id_def log_pos_def xs)
    next
      case False
      then have "last (log_rows j d) \<in> set (transitions d)"
        using last_in_set [OF False] by (auto simp: log_rows_def)
      then show ?thesis using later t False by (simp add: seen_id_def)
    qed
  qed
  have f1: "filter (\<lambda>t. t_job t = j \<and> seen_id j d < t_id t) (transitions d) = []"
    using old by (auto simp: filter_empty_conv log_rows_def)
  have f2: "filter (\<lambda>t. t_job t = j \<and> seen_id j d < t_id t) xs = filter (\<lambda>t. t_job t = j) xs"
    using new by (intro filter_cong) auto
  have "sorted (map t_id (transitions d'))" using srt by (auto elim: sorted_wrt_mono_rel [rotated])
  then have "sort_key t_id (filter (\<lambda>t. t_job t = j \<and> seen_id j d < t_id t) (transitions d')) =
      filter (\<lambda>t. t_job t = j \<and> seen_id j d < t_id t) (transitions d')"
    by (intro sort_key_id_if_sorted sorted_filter)
  then show ?thesis by (simp add: new_rows_def log_rows_def xs f1 f2)
qed

lemma stream_loop_full:
  assumes "run_polls d ps" and "db_inv d" and "log_pos d" and "\<not> has_terminal j d"
  shows "map sse_of (log_rows j d) @ stream_loop j (seen_id j d) ps = full_stream j (last_seen j d ps)"
  using assms
proof (induction j d ps rule: last_seen.induct)
  case (1 j d)
  then show ?case by (simp add: full_stream_def)
next
  case (2 j d ps)
  then show ?case by simp
next
  case (3 j d d' ps)
  have steps: "tx_step\<^sup>*\<^sup>* d d'" using 3(2) by simp
  have inv: "db_inv d'" using steps 3(3) by (rule txs.ok_steps)
  have pos: "log_pos d'" using steps 3(4) by (induction rule: rtranclp_induct) (auto intro: tx_step_log_pos)
  have split: "log_rows j d' = log_rows j d @ new_rows j (seen_id j d) d'"
    using inv by (intro new_rows_split pos tx_steps_log [OF steps]) (simp add: db_inv_def core_inv_def)
  have fin: "(\<exists>t \<in> set (new_rows j (seen_id j d) d'). terminal (t_to t)) \<longleftrightarrow> has_terminal j d'"
    using 3(5) by (auto simp: has_terminal_def list_ex_iff split)
  have seen: "(if new_rows j (seen_id j d) d' = [] then seen_id j d else t_id (last (new_rows j (seen_id j d) d'))) =
      seen_id j d'"
    by (simp add: seen_id_def [of j d'] split) (simp add: seen_id_def)
  show ?case
  proof (cases "has_terminal j d'")
    case True
    then show ?thesis using fin by (simp add: Let_def full_stream_def split)
  next
    case False
    then have "map sse_of (log_rows j d') @ stream_loop j (seen_id j d') ps = full_stream j (last_seen j d' ps)"
      using 3(1) [OF False] 3(2) inv pos by simp
    then show ?thesis using False fin seen by (simp add: Let_def split)
  qed
qed

section \<open>Properties\<close>

text \<open>
  C20. A stream is complete and ordered. Whatever the times of its polls and however many of them
  fall into a partition, a client that stays sees every transition of the job, each once and in
  order, up to the state of the last poll; \<open>done\<close> comes exactly when that state has a terminal
  transition, as the last event.
\<close>

theorem stream_complete:
  assumes "tx_step\<^sup>*\<^sup>* empty_db d" and "gate (e_mono e) co = None" and "e_uuid e s = Some j"
    and "job_state j d \<noteq> None" and "run_polls empty_db polls"
  shows "handle_stream_job e s co d polls = StreamEvents (full_stream j (last_seen j empty_db polls))"
proof -
  have "log_rows j empty_db = []" by (simp add: log_rows_def empty_db_def)
  then have start: "seen_id j empty_db = 0" "\<not> has_terminal j empty_db" "log_pos empty_db"
    by (simp_all add: seen_id_def has_terminal_def log_pos_def empty_db_def)
  have "stream_loop j 0 polls = full_stream j (last_seen j empty_db polls)"
    using stream_loop_full [OF assms(5) _ start(3,2)] start(1) \<open>log_rows j empty_db = []\<close>
    by (simp add: db_inv_def core_inv_empty hist_inv_empty)
  then show ?thesis
    using assms(2-4) by (auto simp: handle_stream_job_def fetch_def as_uuid_def)
qed

theorem stream_complete_witness:
  "handle_stream_job (env_at 150 []) ''j'' (boot ''c1'' 1000)
     (snd (create_tx (env_at 100 ''j'') ''k'' (JObj []) ''c1'' empty_db))
     [None, Some (snd (create_tx (env_at 100 ''j'') ''k'' (JObj []) ''c1'' empty_db)),
      Some (snd (cancel_tx (env_at 200 []) ''j'' ''c2''
             (snd (create_tx (env_at 100 ''j'') ''k'' (JObj []) ''c1'' empty_db))))] =
   StreamEvents [EvState None Pending 100 ''c1'', EvState (Some Pending) Cancelled 200 ''c2'', EvDone]"
proof -
  let ?d1 = "snd (create_tx (env_at 100 ''j'') ''k'' (JObj []) ''c1'' empty_db)"
  let ?d2 = "snd (cancel_tx (env_at 200 []) ''j'' ''c2'' ?d1)"
  have s: "tx_step empty_db ?d1" "tx_step ?d1 ?d2" by (rule tx_step.submit, rule tx_step.cancel)
  have st: "job_state ''j'' ?d1 = Some Pending" by code_simp
  have "handle_stream_job (env_at 150 []) ''j'' (boot ''c1'' 1000) ?d1 [None, Some ?d1, Some ?d2] =
      StreamEvents (full_stream ''j'' (last_seen ''j'' empty_db [None, Some ?d1, Some ?d2]))"
    using s st by (intro stream_complete) (auto simp: boot_gate)
  also have "full_stream ''j'' (last_seen ''j'' empty_db [None, Some ?d1, Some ?d2]) =
      [EvState None Pending 100 ''c1'', EvState (Some Pending) Cancelled 200 ''c2'', EvDone]"
    by code_simp
  finally show ?thesis .
qed

end
