(* ===== verification/WorkerRetry.thy ===== *)
theory WorkerRetry
  imports WorkerSends
begin

text \<open>
  The commit of a task in the composed worker (\<open>WorkerRun\<close>) refines the retry loop taken by itself
  (\<open>commit_with_retry\<close> of \<open>WorkerProc\<close>): what the loop does on given outcomes of its attempts the
  task does on the events that make up these attempts.
\<close>

section \<open>An attempt as events\<close>

text \<open>\<open>txt\<close> is the text of the confirmation.\<close>

fun attempt_events :: "string \<Rightarrow> nat \<Rightarrow> attempt \<Rightarrow> wevent list" where
  "attempt_events txt t SendFailed = [ESend t False]"
| "attempt_events txt t Confirmed = [ESend t True, EMessage (WText txt), EConfirmed t]"
| "attempt_events txt t TimedOut = [ESend t True, EElapse (nat ack_timeout_ms), ETimeout t]"

lemma wk_run_append:
  "wk_run loads (as @ bs) w = (case wk_run loads as w of None \<Rightarrow> None | Some w' \<Rightarrow> wk_run loads bs w')"
  by (induction as arbitrary: w) (simp_all split: option.split)

text \<open>Where the loop is, and that a confirmation of the job would reach the task.\<close>

definition at_attempt :: "(string \<Rightarrow> json option) \<Rightarrow> string \<Rightarrow> nat \<Rightarrow> nat \<Rightarrow> wproc \<Rightarrow> bool" where
  "at_attempt loads txt t n w \<longleftrightarrow> wk_up w \<and> t \<notin> set (wk_set w) \<and>
     (\<exists>k kvs key. wk_tasks w t = Some k \<and> tk_phase k = PSend n \<and> loads txt = Some (JObj kvs) \<and>
        dget (JObj kvs) ''type'' \<in> {JStr ''ack'', JStr ''commit_rejected''} \<and>
        hash_key (dget (JObj kvs) ''job_id'') = Inr key \<and> hash_key (dget (tk_data k) ''job_id'') = Inr key \<and>
        map_of (wk_acks w) key = Some t)"

definition retired :: "nat \<Rightarrow> wproc \<Rightarrow> bool" where
  "retired t w \<longleftrightarrow> wk_tasks w t = None \<and> t \<notin> set (sm_held (wk_sem w))"

lemma commits_of_sent:
  "commits_of t (w\<lparr>wk_sent := wk_sent w @ [(c, Some t, commit_msg jv fv res, ok)]\<rparr>) = commits_of t w + 1"
  by (simp add: commits_of_def is_commit_def commit_msg_def)

lemma commits_of_same: "wk_sent w' = wk_sent w \<Longrightarrow> commits_of t w' = commits_of t w"
  by (simp add: commits_of_def)

lemma finish_commit_retires:
  "commits_of t' (finish_commit t k w) = commits_of t' w" "wk_set (finish_commit t k w) = wk_set w"
  "retired t (finish_commit t k w)"
  by (auto simp: finish_commit_def wk_step_defs retired_def commits_of_def split: sum.split)

lemmas attempt_simps = task_send_def task_timeout_def Let_def finish_commit_retires commits_of_sent log_send_def

text \<open>What an attempt makes of the worker.\<close>

lemma run_failed:
  assumes "at_attempt loads txt t n w"
  obtains w' where "wk_run loads (attempt_events txt t SendFailed) w = Some w'" "retired t w'"
    "commits_of t w' = commits_of t w + 1" "t \<notin> set (wk_set w')"
proof -
  obtain k where k: "wk_tasks w t = Some k" "tk_phase k = PSend n" and nt: "t \<notin> set (wk_set w)"
    using assms by (auto simp: at_attempt_def)
  show ?thesis by (rule that [of "task_send False n t k w"]) (use k nt in \<open>simp_all add: attempt_simps\<close>)
qed

lemma run_sent:
  assumes "at_attempt loads txt t n w"
  obtains w1 k where "wk_do loads (ESend t True) w = Some w1" "wk_tasks w1 t = Some k"
    "tk_phase k = PAck n (wk_clock w + ack_timeout_ms)" "wk_clock w1 = wk_clock w" "wk_sem w1 = wk_sem w"
    "commits_of t w1 = commits_of t w + 1" "at_attempt loads txt t n (set_phase t (PSend n) w1)"
proof -
  obtain k where k: "wk_tasks w t = Some k" "tk_phase k = PSend n"
    using assms by (auto simp: at_attempt_def)
  let ?w = "task_send True n t k w"
  have f: "wk_tasks ?w t = Some (k\<lparr>tk_phase := PAck n (wk_clock w + ack_timeout_ms)\<rparr>)" "wk_clock ?w = wk_clock w"
    "wk_up ?w = wk_up w" "wk_set ?w = wk_set w" "wk_acks ?w = wk_acks w" "wk_sem ?w = wk_sem w"
    "commits_of t ?w = commits_of t w + 1"
    using k by (simp_all add: attempt_simps set_phase_def commits_of_def is_commit_def commit_msg_def)
  have "at_attempt loads txt t n (set_phase t (PSend n) ?w)"
    using assms k f by (auto simp: at_attempt_def set_phase_def)
  then show ?thesis using that [of ?w] k f by simp
qed

lemma run_timed_out:
  assumes "at_attempt loads txt t n w"
  obtains w' where "wk_run loads (attempt_events txt t TimedOut) w = Some w'"
    "commits_of t w' = commits_of t w + 1" "t \<notin> set (wk_set w')"
    "if n < commit_max_attempts then at_attempt loads txt t (n + 1) w' else retired t w'"
proof -
  obtain w1 k where w1: "wk_do loads (ESend t True) w = Some w1" "wk_tasks w1 t = Some k"
    "tk_phase k = PAck n (wk_clock w + ack_timeout_ms)" "wk_clock w1 = wk_clock w" "wk_sem w1 = wk_sem w"
    "commits_of t w1 = commits_of t w + 1" "at_attempt loads txt t n (set_phase t (PSend n) w1)"
    using run_sent [OF assms] .
  let ?w2 = "w1\<lparr>wk_clock := wk_clock w1 + ack_timeout_ms\<rparr>"
  have run: "wk_run loads (attempt_events txt t TimedOut) w = Some (task_timeout n t k ?w2)"
    using w1(1-4) by (simp add: ack_timeout_ms_def del: wk_do.simps(9))
  have nt: "t \<notin> set (wk_set w1)" using w1(7) by (auto simp: at_attempt_def set_phase_def)
  have "at_attempt loads txt t (n + 1) (set_phase t (PSend (n + 1)) ?w2)"
    using w1(2,7) by (auto simp: at_attempt_def set_phase_def)
  then show ?thesis
    using w1(6) nt
    by (intro that [OF run]) (auto simp: task_timeout_def finish_commit_retires, auto simp: set_phase_def commits_of_def)
qed

lemma run_confirmed:
  assumes "at_attempt loads txt t n w"
  obtains w' where "wk_run loads (attempt_events txt t Confirmed) w = Some w'" "retired t w'"
    "commits_of t w' = commits_of t w + 1" "t \<in> set (wk_set w')"
proof -
  obtain w1 k where w1: "wk_do loads (ESend t True) w = Some w1" "wk_tasks w1 t = Some k"
    "tk_phase k = PAck n (wk_clock w + ack_timeout_ms)" "wk_clock w1 = wk_clock w" "wk_sem w1 = wk_sem w"
    "commits_of t w1 = commits_of t w + 1" "at_attempt loads txt t n (set_phase t (PSend n) w1)"
    using run_sent [OF assms] .
  let ?w2 = "w1\<lparr>wk_set := List.insert t (wk_set w1)\<rparr>"
  have "wk_do loads (EMessage (WText txt)) w1 = Some ?w2"
    using w1(2,7) by (auto simp: at_attempt_def set_phase_def wk_message_def wk_handle_def Let_def)
  then have run: "wk_run loads (attempt_events txt t Confirmed) w = Some (finish_commit t k ?w2)"
    using w1(1-3) by (simp del: wk_do.simps) (simp add: w1(2,3))
  show ?thesis
    by (rule that [OF run]) (use w1(6) in \<open>simp_all add: finish_commit_retires, simp add: commits_of_def\<close>)
qed

section \<open>The loop\<close>

lemma retry_machine:
  assumes "commit_retry m (\<lambda>i. (os i, Suc i)) i = (res, j)" and "at_attempt loads txt t n w" and "n + m = commit_max_attempts + 1" and "0 < m"
  shows "i < j \<and> (\<exists>w'. wk_run loads (concat (map (attempt_events txt t \<circ> os) [i..<j])) w = Some w' \<and> retired t w' \<and>
    commits_of t w' = commits_of t w + (j - i) \<and> (t \<in> set (wk_set w') \<longleftrightarrow> res = Answered))"
  using assms
proof (induction m arbitrary: i n w)
  case (Suc m)
  show ?case
  proof (cases "os i")
    case SendFailed
    then have "res = SocketDead" "j = Suc i" using Suc.prems(1) by simp_all
    then show ?thesis using run_failed [OF Suc.prems(2)] SendFailed by (auto simp del: attempt_events.simps) 
  next
    case Confirmed
    then have "res = Answered" "j = Suc i" using Suc.prems(1) by simp_all
    then show ?thesis using run_confirmed [OF Suc.prems(2)] Confirmed by (auto simp del: attempt_events.simps)
  next
    case TimedOut
    obtain w1 where w1: "wk_run loads (attempt_events txt t TimedOut) w = Some w1"
      "commits_of t w1 = commits_of t w + 1" "t \<notin> set (wk_set w1)"
      "if n < commit_max_attempts then at_attempt loads txt t (n + 1) w1 else retired t w1"
      using run_timed_out [OF Suc.prems(2)] .
    show ?thesis
    proof (cases m)
      case 0
      then have "res = GaveUp" "j = Suc i" "\<not> n < commit_max_attempts" using Suc.prems TimedOut by simp_all
      then show ?thesis using w1 TimedOut by (auto simp del: attempt_events.simps)
    next
      case (Suc m')
      then have "n < commit_max_attempts" "n + 1 + m = commit_max_attempts + 1" "0 < m" using Suc.prems(3) by simp_all
      moreover have "commit_retry m (\<lambda>i. (os i, Suc i)) (Suc i) = (res, j)" using Suc.prems(1) TimedOut by simp
      ultimately have ih: "Suc i < j \<and> (\<exists>w'. wk_run loads (concat (map (attempt_events txt t \<circ> os) [Suc i..<j])) w1 = Some w' \<and>
          retired t w' \<and> commits_of t w' = commits_of t w1 + (j - Suc i) \<and> (t \<in> set (wk_set w') \<longleftrightarrow> res = Answered))"
        using w1(4) by (intro Suc.IH [where n = "n + 1"]) simp_all
      have "concat (map (attempt_events txt t \<circ> os) [i..<j]) =
          attempt_events txt t TimedOut @ concat (map (attempt_events txt t \<circ> os) [Suc i..<j])"
        using ih TimedOut by (simp add: upt_conv_Cons)
      moreover have "commits_of t w1 + (j - Suc i) = commits_of t w + (j - i)" using ih w1(2) by linarith
      ultimately show ?thesis
        using w1(1) ih by (simp only: wk_run_append option.case) (meson Suc_lessD)
    qed
  qed
qed simp

section \<open>Property\<close>

text \<open>
  C28. The composed worker refines the retry loop. From the moment a task of a connected worker
  starts to commit, attempts with given outcomes take it through exactly the sends that
  \<open>commit_with_retry\<close> makes on these outcomes: the task has then sent as many commits as the loop
  made attempts, has ended and given its slot back, and was confirmed when the loop was answered.
\<close>

theorem worker_refines_retry:
  assumes "(wk_step loads)\<^sup>*\<^sup>* (wk_new wid n) w" and "at_attempt loads txt t 1 w"
    and "commit_with_retry (\<lambda>i. (os i, Suc i)) 0 = (res, m)"
  shows "\<exists>w'. wk_run loads (concat (map (attempt_events txt t \<circ> os) [0..<m])) w = Some w' \<and>
    (wk_step loads)\<^sup>*\<^sup>* (wk_new wid n) w' \<and> commits_of t w' = m \<and> 0 < m \<and> m \<le> 8 \<and>
    wk_tasks w' t = None \<and> t \<notin> set (sm_held (wk_sem w')) \<and> (t \<in> set (wk_set w') \<longleftrightarrow> res = Answered)"
proof -
  have c: "commits_of t w = 0"
  proof -
    obtain k where "wk_tasks w t = Some k" "tk_phase k = PSend 1" using assms(2) by (auto simp: at_attempt_def)
    then show ?thesis using senders.ok_reachable [OF assms(1)] task_histD [of loads w t k] by (auto simp: task_hist_def)
  qed
  obtain w' where w': "0 < m" "wk_run loads (concat (map (attempt_events txt t \<circ> os) [0..<m])) w = Some w'" "retired t w'"
    "commits_of t w' = m" "t \<in> set (wk_set w') \<longleftrightarrow> res = Answered"
    using retry_machine [OF assms(3) [unfolded commit_with_retry_def] assms(2)] c by (auto simp: commit_max_attempts_def)
  have reach: "(wk_step loads)\<^sup>*\<^sup>* (wk_new wid n) w'"
    using assms(1) wk_run_steps [OF w'(2)] by (rule rtranclp_trans)
  then have "commits_of t w' \<le> 8"
    using senders.ok_reachable [OF reach] by (simp add: sends_ok_def commit_max_attempts_def)
  then show ?thesis using w' reach by (auto simp: retired_def)
qed

text \<open>The first commit is not answered, the second is.\<close>

definition about_to_commit :: wproc where
  "about_to_commit = the (wk_run demo_loads
     [EConnect True, EMessage (WText ''j1''), EBegin 0, EBeat 0 True] (wk_new ''w'' 1))"

theorem worker_refines_retry_witness:
  "\<exists>w'. wk_run demo_loads (concat (map (attempt_events ''no'' 0 \<circ> (\<lambda>i. if i = 0 then TimedOut else Confirmed)) [0..<2]))
       about_to_commit = Some w' \<and> commits_of 0 w' = 2 \<and> wk_tasks w' 0 = None \<and> 0 \<in> set (wk_set w')"
proof -
  let ?evs = "[EConnect True, EMessage (WText ''j1''), EBegin 0, EBeat 0 True]"
  have v: "map_option (\<lambda>w. (wk_up w, wk_set w, wk_tasks w 0, wk_acks w)) (wk_run demo_loads ?evs (wk_new ''w'' 1)) =
      Some (True, [], Some \<lparr>tk_data = demo_dispatch ''j'' 1, tk_phase = PSend 1, tk_ms = 0, tk_end = 0\<rparr>, [(JStr ''j'', 0)])"
    by code_simp
  then obtain w where w: "wk_run demo_loads ?evs (wk_new ''w'' 1) = Some w" "wk_up w" "wk_set w = []"
    "wk_tasks w 0 = Some \<lparr>tk_data = demo_dispatch ''j'' 1, tk_phase = PSend 1, tk_ms = 0, tk_end = 0\<rparr>"
    "wk_acks w = [(JStr ''j'', 0)]" by auto
  then have eq: "about_to_commit = w" by (simp add: about_to_commit_def)
  have "at_attempt demo_loads ''no'' 0 1 about_to_commit"
    using w(2-) by (simp add: eq at_attempt_def demo_loads_def demo_dispatch_def)
  moreover have "(wk_step demo_loads)\<^sup>*\<^sup>* (wk_new ''w'' 1) about_to_commit"
    unfolding eq using w(1) by (rule wk_run_steps)
  moreover have "commit_with_retry (\<lambda>i. (if i = 0 then TimedOut else Confirmed, Suc i)) 0 = (Answered, 2)"
    by (simp add: commit_with_retry_def commit_max_attempts_def eval_nat_numeral)
  ultimately show ?thesis
    using worker_refines_retry [of demo_loads "''w''" 1 about_to_commit "''no''" 0 "\<lambda>i. if i = 0 then TimedOut else Confirmed" Answered 2]
    by blast
qed

end
