(* ===== verification/Spec2Isabelle.thy ===== *)
theory Spec2Isabelle
  imports Answers Bootstrap Durable FleetSafety HarnessDrivers HarnessExact Process ReapRound StatsPage
    Streams WorkerRetry
begin

text \<open>
  Verification of the FarLabs job dispatcher (\<open>coordinator/\<close>, \<open>worker/\<close>, \<open>chaos_harness.py\<close>,
  \<open>db/schema.sql\<close>).

  \<^bold>\<open>The program.\<close> Clients submit jobs over HTTP to any of several coordinators. All durable state is
  in one Postgres database: jobs, an append-only transition log, leases with fencing tokens, and
  commit attempts. Each coordinator runs a dispatch loop that leases pending jobs to the workers
  connected to it over WebSockets, a reaper that expires overdue leases and requeues their jobs,
  and a commit handler that accepts a result only under the latest live lease. Workers run jobs
  under a resizable semaphore, renew their lease with heartbeats and resend a commit until it is
  answered. Faults (paused dispatch, swallowed acknowledgements, database partition, clock skew)
  can be injected. The harness submits jobs, kills and restarts containers, injects faults, then
  audits every job, checks the invariants and reports.

  \<^bold>\<open>The theories.\<close>
  \<^item> \<open>Prelude\<close>: exceptions, environment variables, \<open>UPDATE ... WHERE\<close> and \<open>ORDER BY ... LIMIT 1\<close> on lists of rows, the
    interfaces of dictionaries (\<open>py_dict\<close>) and of transition systems (\<open>step_system\<close>).
  \<^item> \<open>Json\<close>: JSON values with Python's dynamic checks.
  \<^item> \<open>Schema\<close>, \<open>Store\<close>: the tables, sequences and SQL statements; how each statement acts on every
    lookup; the fence source (\<open>fence_source\<close>, interpreted on \<open>issue_fence\<close>); the invariants.
  \<^item> \<open>Coordinator\<close>: process state, registry, partition gate and \<open>transaction()\<close> of \<open>db.py\<close>.
  \<^item> \<open>Rates\<close>: \<open>RateCounters\<close> of \<open>stats.py\<close>.
  \<^item> \<open>Jobs\<close>, \<open>Dispatch\<close>, \<open>Reaper\<close>, \<open>Commit\<close>: the endpoints of \<open>app.py\<close>, \<open>dispatch.py\<close>,
    \<open>reaper.py\<close> and \<open>commit.py\<close>. Each has its database transaction as a function (\<open>create_tx\<close>,
    \<open>cancel_tx\<close>, \<open>claim_tx\<close>, \<open>reap_tx\<close>, \<open>renew_tx\<close>, \<open>commit_tx\<close>) and around it the handler with gate,
    argument checks, process effects and answers.
  \<^item> \<open>Transactions\<close>: one step relation \<open>tx_step\<close> for all transactions run atomically, by any number
    of coordinators; its invariants and what no step can undo.
  \<^item> \<open>Lifecycle\<close>: the abstract life of a job and the simulation.
  \<^item> \<open>Handlers\<close>: every handler is a sequence of transactions and does nothing behind a closed gate
    (locale \<open>gated\<close>, interpreted on the five operations).
  \<^item> \<open>Interleaving\<close>: the commit handler split into its reads and its writes, with other transactions
    in between and coordinators killed before or after the reply (\<open>sys_step\<close>).
  \<^item> \<open>History\<close>: what no step takes away from the logs and the leases. \<open>ReapRound\<close>: a whole round of the
    reaper makes progress.
  \<^item> \<open>Faults\<close>, \<open>Workers\<close>: \<open>chaos.py\<close> and \<open>ws.py\<close>.
  \<^item> \<open>Cluster\<close>: the whole system, any number of coordinator processes over the database and Redis, run
    by a list of actions (\<open>cl_do\<close>, \<open>cl_run\<close>); its runs are runs of \<open>sys_step\<close>, and dispatch and reap
    rounds are runs of it. \<open>ClusterSafety\<close>: no message ends a subscriber. \<open>Pushes\<close>: dispatches and leases
    agree. \<open>Durable\<close>: no answered submission is lost.
  \<^item> \<open>Bootstrap\<close>: \<open>db/schema.sql\<close> applied by coordinators that boot together, \<open>apply_schema\<close> of
    \<open>db.py\<close>. \<open>Process\<close>: \<open>Database\<close> from its configuration to its end, \<open>make_app\<close>, \<open>on_startup\<close>,
    \<open>on_cleanup\<close>, the background tasks and the turns of the loops of \<open>dispatch.py\<close> and \<open>reaper.py\<close>.
  \<^item> \<open>WorkerProc\<close>: the parts of \<open>worker.py\<close>, each by itself: semaphore, frames, clamp, heartbeat
    loop, commit retry, back-off. \<open>WorkerRun\<close>: the whole worker as a state machine, its tasks cut at
    their awaits (\<open>wk_step\<close>). \<open>WorkerSlots\<close>, \<open>WorkerSends\<close>: its invariants (slots, acknowledgement
    events, what is sent). \<open>WorkerRetry\<close>: the tasks refine the retry loop.
  \<^item> \<open>Delivery\<close>: dispatch, recovery, acceptance, and the worker's retry loop run against the
    coordinator. \<open>Wire\<close>: the frames of each end as the other end reads them, and a run of both.
  \<^item> \<open>Fleet\<close>: the cluster with its workers (\<open>ft_do\<close>, \<open>ft_run\<close>): connections between the two, frames
    delivered in any order and any number of times, processes of both kinds killed at any point.
    \<open>Results\<close>: who writes commits and results. \<open>FleetSafety\<close>: every result comes from a lease.
  \<^item> \<open>Streams\<close>, \<open>StatsPage\<close>, \<open>AuditTrail\<close>: the event stream, \<open>/stats\<close> and \<open>/audit\<close>. \<open>Answers\<close>: the
    status codes and the types of the bodies of every endpoint.
  \<^item> \<open>Harness\<close>, \<open>HarnessSound\<close>: the records and checks of \<open>chaos_harness.py\<close> and what they can find;
    \<open>HarnessExact\<close>: on any tables they find nothing exactly when a specification holds.
    \<open>Report\<close>: report text, event file, exit status. \<open>HarnessRun\<close>: configuration, submitter, killers,
    fault injector and \<open>_main\<close> as a state machine (\<open>hr_step\<close>); \<open>HarnessDrivers\<close>: its invariants.

  \<^bold>\<open>How the state corresponds.\<close> \<^typ>\<open>db\<close> is the database; \<^typ>\<open>coord\<close> is one coordinator process
  (the \<open>app\<close> dictionary and the objects in it), with the connections (\<open>ConnState\<close>) in a store by
  address because the registry and the connection's handler share them; \<^typ>\<open>env\<close> gives one
  operation what it gets from outside: clock readings, locks held by others, whether sends and
  Redis calls work, the driver's reading of a uuid. \<^typ>\<open>wproc\<close> is the \<open>Worker\<close> object with its tasks,
  \<^typ>\<open>app\<close> the entries start-up and clean-up handle, \<^typ>\<open>hstate\<close> the globals of the harness and
  \<^typ>\<open>hrun\<close> its tasks and the containers. Nothing is assumed of the clocks; of the
  driver \<open>Fleet\<close> assumes that it reads the text of an id it has produced as that id (\<open>driver_ok\<close>). An
  exception is the left side of a sum.

  \<^bold>\<open>Two levels of concurrency.\<close> In \<open>tx_step\<close> every transaction is atomic. That is faithful for all
  of them but the commit: the others start with a conditional \<open>UPDATE\<close> or an \<open>INSERT\<close> with a unique
  key, which locks and re-checks what they depend on. The commit handler reads without a lock at
  READ COMMITTED, so \<open>sys_step\<close> lets anything happen between its reads and its writes. What is
  stated over \<open>sys_step\<close> holds however commits interleave (one accepted commit, fences in time
  order, one live lease, success is final, keys name one job); what is stated over \<open>tx_step\<close>
  only (the accepted fence is the latest, the log replays, a cancellation holds, the refinement)
  is violated by the runs in the last section of this theory. The writes of one commit, and the
  two statements of one reap, are one step. The actions of \<open>Cluster\<close> are the handlers themselves,
  with the commit handler in two halves (\<open>commit_open\<close>, \<open>commit_close\<close>; run back to back they are
  \<open>handle_commit\<close>) and with crashes before and after the reply; a restarted process cannot finish what
  an earlier life of it began. A published message may be delivered to any coordinator at any later
  time, any number of times and in any order, which covers what Redis does.

  \<^bold>\<open>Bounds and termination.\<close> \<open>claim_loop\<close> has fuel, one more than the number of pending jobs; every
  claim takes a job out of them, so it never runs out (\<open>claim_loop_fuel\<close>). The heartbeat loop has a
  termination proof; the retry loop recurses on its eight attempts. Integers of the schema are
  \<open>bigint\<close>; fences and times count up from small values and are unbounded here, and the one place
  where a client can send a number outside the range is checked (\<open>fits_bigint\<close>).

  \<^bold>\<open>The machines of the worker and of the harness.\<close> A coroutine runs undisturbed between two awaits,
  so a task is a phase and every step takes it from one await to the next; \<open>wk_do\<close> and \<open>hr_do\<close> say
  which steps are possible, in any order. Timers may fire late and never early. Concrete runs
  (\<open>wk_run\<close>, \<open>hr_run\<close>, \<open>bs_run\<close>) are lists of events, and reach only reachable states.

  \<^bold>\<open>Not modelled.\<close> HTTP framing and routing, the bytes of the WebSocket, the order of Redis
  delivery, docker (the outcome of a command is an
  argument), \<open>_load_dotenv\<close> (python-dotenv) and the command-line grammar of argparse (what it found is
  an argument), how the random draws are made and the order in which sleeping tasks wake up,
  floating-point rounding (times are whole milliseconds or rationals), job ids and worker ids
  that are not strings, the tests and the deployment files.
\<close>

section \<open>What holds however the transactions interleave\<close>

text \<open>
  C1. At most one commit of a job is ever accepted, and a job is succeeded exactly when it has an
  accepted commit: in every state the coordinators can reach, with any number of commit handlers
  between their reads and their writes, and coordinators killed at any point.
\<close>

theorem at_most_one_accepted:
  assumes "sys_step\<^sup>*\<^sup>* sys_start s"
  shows "length (filter (\<lambda>c. c_job c = j \<and> c_accepted c) (commits (s_db s))) =
    (if job_state j (s_db s) = Some Succeeded then 1 else 0)"
proof -
  have inv: "core_inv (s_db s)" using assms by (rule sys_reach_core)
  then show ?thesis
    using accepted_rows [of "s_db s" j] succeeded_iff_accepted [OF inv, of j]
    by (auto simp: core_inv_def)
qed

theorem at_most_one_accepted_witness:
  "length (filter (\<lambda>c. c_job c = ''j'' \<and> c_accepted c)
     (commits (snd (finish_tx (env_at 1500 []) race_open race_released)))) = 1"
proof -
  have "job_state ''j'' (snd (finish_tx (env_at 1500 []) race_open race_released)) = Some Succeeded" by code_simp
  then show ?thesis using at_most_one_accepted [OF race_stale_accept, of "''j''"] by simp
qed

text \<open>
  C4. Fencing tokens and issue times agree across the whole cluster: of any two leases ever
  issued, by whichever coordinators and whatever the database clock did, the one issued later
  has the higher token, and no two share a token or a time.
\<close>

theorem fences_follow_time:
  assumes "sys_step\<^sup>*\<^sup>* sys_start s" and "l \<in> set (leases (s_db s))" and "l' \<in> set (leases (s_db s))"
  shows "(l_issued l < l_issued l' \<longleftrightarrow> l_fence l < l_fence l') \<and>
    (l_fence l = l_fence l' \<or> l_issued l = l_issued l' \<longrightarrow> l = l')"
proof -
  have inv: "core_inv (s_db s)" using assms(1) by (rule sys_reach_core)
  have "sorted_wrt (\<lambda>a b. l_fence a < l_fence b) (leases (s_db s))"
    "sorted_wrt (\<lambda>a b. l_issued a < l_issued b) (leases (s_db s))"
    using core_invD(2) [OF inv] by (simp_all add: fences_ok_def sorted_wrt_map)
  then have "l = l' \<or> l_fence l < l_fence l' \<and> l_issued l < l_issued l' \<or>
      l_fence l' < l_fence l \<and> l_issued l' < l_issued l"
    using lease_time_order [OF core_invD(2) [OF inv] assms(2,3)]
      lease_time_order [OF core_invD(2) [OF inv] assms(3,2)] sorted_wrt_pairs [OF _ assms(2,3)]
    by (metis (no_types, lifting) linorder_not_le order_less_imp_not_less)
  then show ?thesis by auto
qed

theorem fences_follow_time_witness:
  "list_all (\<lambda>l. list_all (\<lambda>l'. l_issued l < l_issued l' \<longleftrightarrow> l_fence l < l_fence l') (leases race_released))
     (leases race_released) \<and> length (leases race_released) = 2"
proof
  show "list_all (\<lambda>l. list_all (\<lambda>l'. l_issued l < l_issued l' \<longleftrightarrow> l_fence l < l_fence l') (leases race_released))
     (leases race_released)"
    using fences_follow_time [OF race_to_released] by (simp add: list_all_iff race_sys_def)
  show "length (leases race_released) = 2" by code_simp
qed

text \<open>
  C5. No job is stuck and none is held twice: in every reachable state a leased job has a live
  lease, so the reaper will find it; a job has at most one live lease; and a job that is not
  leased and not succeeded has none.
\<close>

theorem one_live_lease:
  assumes "sys_step\<^sup>*\<^sup>* sys_start s"
  shows "(job_state j (s_db s) = Some Leased \<longrightarrow>
      (\<exists>!l. l \<in> set (leases (s_db s)) \<and> l_job l = j \<and> l_expired l = None)) \<and>
    (l \<in> set (leases (s_db s)) \<and> l_job l = j \<and> l_expired l = None \<longrightarrow>
      job_state j (s_db s) = Some Leased \<or> job_state j (s_db s) = Some Succeeded)"
proof (intro conjI impI)
  have inv: "core_inv (s_db s)" using assms by (rule sys_reach_core)
  have uniq: "l = l'"
    if "l \<in> set (leases (s_db s))" "l_expired l = None" "l' \<in> set (leases (s_db s))" "l_expired l' = None"
      "l_job l = l_job l'" for l l'
    using live_lease_latest [OF inv that(1,2)] live_lease_latest [OF inv that(3,4)] that(5)
      lease_unique_fence [OF inv that(1,3)] by simp
  show "\<exists>!l. l \<in> set (leases (s_db s)) \<and> l_job l = j \<and> l_expired l = None"
    if "job_state j (s_db s) = Some Leased"
    using core_invD(6) [OF inv] that uniq by (auto simp: live_ok_def)
  show "job_state j (s_db s) = Some Leased \<or> job_state j (s_db s) = Some Succeeded"
    if "l \<in> set (leases (s_db s)) \<and> l_job l = j \<and> l_expired l = None"
    using live_lease_state [OF inv, of l] that by simp
qed

theorem one_live_lease_witness:
  "\<exists>!l. l \<in> set (leases race_released) \<and> l_job l = ''j'' \<and> l_expired l = None"
proof -
  have "job_state ''j'' race_released = Some Leased" by code_simp
  then show ?thesis using one_live_lease [OF race_to_released, of "''j''"] by (simp add: race_sys_def)
qed

text \<open>
  C6. Success is final: from the moment a job is succeeded, no step of any coordinator changes its
  state, its result or the fence of its accepted commit.
\<close>

theorem success_is_final:
  assumes "sys_step\<^sup>*\<^sup>* sys_start s" and "sys_step\<^sup>*\<^sup>* s t" and "job_state j (s_db s) = Some Succeeded"
  shows "job_state j (s_db t) = Some Succeeded \<and> job_result j (s_db t) = job_result j (s_db s) \<and>
    accepted_fence j (s_db t) = accepted_fence j (s_db s)"
  using sys_steps_settled [OF assms(2) sysm.ok_reachable [OF assms(1)], of j "job_result j (s_db s)" "accepted_fence j (s_db s)"]
    assms(3) by (simp add: settled_def)

theorem success_is_final_witness:
  "job_state ''j'' (snd (finish_tx (env_at 1500 []) race_open race_released)) = Some Succeeded"
proof -
  have "job_state ''j'' (snd (finish_tx (env_at 1500 []) race_open race_released)) = Some Succeeded" by code_simp
  then show ?thesis
    using success_is_final [OF race_stale_accept rtranclp.rtrancl_refl, of "''j''"] by simp
qed

text \<open>
  C11. An idempotency key names one job for ever: once a submission created job \<open>j\<close> for a key,
  every later submission with that key, at any coordinator whose gate is open and after any steps
  of the system, is answered 200 with \<open>j\<close> and changes neither the database nor the coordinator.
\<close>

theorem key_names_one_job:
  assumes "job_of_key key (s_db s) = Some j" and "sys_step\<^sup>*\<^sup>* s t"
    and "gate (e_mono e) co = None" and "parse_submit body = Inr (key, pl)"
  shows "handle_create_job e (Some body) co (s_db t) = (Inr (200, JObj [(''job_id'', JStr j)]), co, s_db t)"
proof -
  have "job_of_key key (s_db t) = Some j"
    using assms(2,1) by (induction rule: rtranclp_induct) (auto intro: sys_step_key)
  then show ?thesis
    using assms(3,4)
    by (simp add: handle_create_job_def transaction_open create_tx_def created_response_def)
qed

theorem key_names_one_job_witness:
  "handle_create_job (env_at 2000 ''x'') (Some (submit_body ''k'' (JObj []))) (boot ''c3'' 1000) race_released =
     (Inr (200, JObj [(''job_id'', JStr ''j'')]), boot ''c3'' 1000, race_released)"
proof -
  have "job_of_key ''k'' (s_db (race_sys race_released)) = Some ''j''" by code_simp
  from key_names_one_job [OF this rtranclp.rtrancl_refl, of "env_at 2000 ''x''" "boot ''c3'' 1000" "submit_body ''k'' (JObj [])" "JObj []"]
  show ?thesis by (simp add: boot_gate submit_body_def parse_submit_def max_key_len_def race_sys_def)
qed

section \<open>What holds when commits do not interleave\<close>





text \<open>
  C27. A cancellation that was answered with 200 holds: the job is cancelled, and no later
  transaction of any coordinator changes that, so it is never dispatched and never succeeds.
\<close>

theorem cancelled_is_final:
  assumes "tx_step\<^sup>*\<^sup>* empty_db d" and "e_uuid e s = Some j"
    and "handle_cancel_job e e2 between s co d = (Inr (200, body), d1)" and "tx_step\<^sup>*\<^sup>* d1 d2"
  shows "job_state j d2 = Some Cancelled"
proof -
  have c: "transaction (e_mono e) co (cancel_body e s (co_id co)) d = (Inr True, d1)"
  proof -
    obtain r d' where t: "transaction (e_mono e) co (cancel_body e s (co_id co)) d = (r, d')" by (metis surj_pair)
    consider x where "r = Inl x" | "r = Inr True" | "r = Inr False" by (cases r) auto
    then show ?thesis
    proof cases
      case (1 x)
      then show ?thesis using assms(3) t by (cases x) (simp_all add: handle_cancel_job_def err_def)
    next
      case 2
      then show ?thesis using assms(3) t by (simp add: handle_cancel_job_def)
    next
      case 3
      then show ?thesis
        using assms(3) t
        by (auto simp: handle_cancel_job_def Let_def err_def split: sum.splits exn.splits option.splits)
    qed
  qed
  have inv: "db_inv d" using assms(1) by (rule txs.ok_reachable)
  from transaction_ok [OF c] have "cancel_tx e j (co_id co) d = (True, d1)"
    using assms(2) by (simp add: cancel_body_def as_uuid_def split: prod.splits)
  then have st: "job_state j d1 = Some Cancelled" and s: "tx_step d d1"
    using tx_step.cancel [of d e j "co_id co"]
    by (auto simp: cancel_tx_def frame_simps row_simps split: if_splits)
  have "db_inv d1" using inv s by (rule txs.ok_step)
  from txs.stable_steps [where P = "\<lambda>d. job_state j d = Some Cancelled", OF assms(4) this st]
  show ?thesis by (auto simp: db_inv_def intro: tx_step_cancelled)
qed

theorem cancelled_is_final_witness:
  "job_state ''j'' (snd (handle_cancel_job (env_at 150 []) (env_at 160 []) id ''j'' (boot ''c1'' 1000) queued)) = Some Cancelled"
proof -
  have "fst (handle_cancel_job (env_at 150 []) (env_at 160 []) id ''j'' (boot ''c1'' 1000) queued) =
      Inr (200, JObj [(''job_id'', JStr ''j''), (''state'', JStr ''cancelled'')])" by code_simp
  then have "handle_cancel_job (env_at 150 []) (env_at 160 []) id ''j'' (boot ''c1'' 1000) queued =
      (Inr (200, JObj [(''job_id'', JStr ''j''), (''state'', JStr ''cancelled'')]),
       snd (handle_cancel_job (env_at 150 []) (env_at 160 []) id ''j'' (boot ''c1'' 1000) queued))"
    by (metis prod.collapse)
  moreover have "tx_step\<^sup>*\<^sup>* empty_db queued" using queued_step by (rule r_into_rtranclp)
  ultimately show ?thesis
    using cancelled_is_final [of queued "env_at 150 []" "''j''" "''j''" "env_at 160 []" id "boot ''c1'' 1000"] by simp
qed

section \<open>What an interleaved commit can do\<close>

text \<open>
  C33. The worker can be told that its commit was accepted when another worker's was: in a
  reachable state the accepted commit of job \<open>j\<close> has fence 2 and the result of \<open>w2\<close>, and the
  reply sent to \<open>w1\<close> for fence 1 was an acknowledgement.
\<close>

theorem lost_race_is_acknowledged:
  "\<exists>s. sys_step\<^sup>*\<^sup>* sys_start s \<and> accepted_fence ''j'' (s_db s) = Some 2 \<and>
     job_result ''j'' (s_db s) = Some (JInt 2) \<and> (''w1'', ''j'', 1, True) \<in> set (s_replies s)"
proof -
  let ?d = "snd (commit_tx (env_at 1450 []) ''c2'' ''j'' 2 ''w2'' (JInt 2) race_released)"
  let ?out = "finish_tx (env_at 1500 []) race_open ?d"
  have "sys_step\<^sup>*\<^sup>* sys_start (race_sys ?d)"
    by (rule race_other [OF race_to_released]) (rule tx_step.commit)
  from race_end [OF this, of "env_at 1500 []" "fst ?out" "snd ?out"]
  have "sys_step\<^sup>*\<^sup>* sys_start \<lparr>s_db = snd ?out, s_open = (\<lambda>_. None), s_replies = reply_of race_open (fst ?out)\<rparr>"
    by simp
  moreover have "accepted_fence ''j'' (snd ?out) = Some 2" "job_result ''j'' (snd ?out) = Some (JInt 2)"
    "reply_of race_open (fst ?out) = [(''w1'', ''j'', 1, True)]"
    by code_simp+
  ultimately show ?thesis by force
qed

text \<open>
  C34. A cancelled job can succeed: the job is reaped and cancelled between the reads and the
  writes of a commit, whose update of the job has no condition on its state; in the state
  reached the log has both the cancellation and, after it, a move from leased to succeeded.
\<close>

theorem cancelled_job_can_succeed:
  "\<exists>s. sys_step\<^sup>*\<^sup>* sys_start s \<and> job_state ''j'' (s_db s) = Some Succeeded \<and>
     job_log ''j'' (s_db s) = [(None, Pending), (Some Pending, Leased), (Some Leased, Pending),
       (Some Pending, Cancelled), (Some Leased, Succeeded)]"
proof -
  let ?d = "snd (cancel_tx (env_at 1350 []) ''j'' ''c3'' race_reaped)"
  let ?out = "finish_tx (env_at 1500 []) race_open ?d"
  have "sys_step\<^sup>*\<^sup>* sys_start (race_sys ?d)"
    by (rule race_other [OF race_to_reaped]) (rule tx_step.cancel)
  from race_end [OF this, of "env_at 1500 []" "fst ?out" "snd ?out"]
  have "sys_step\<^sup>*\<^sup>* sys_start \<lparr>s_db = snd ?out, s_open = (\<lambda>_. None), s_replies = reply_of race_open (fst ?out)\<rparr>"
    by simp
  moreover have "job_state ''j'' (snd ?out) = Some Succeeded"
    "job_log ''j'' (snd ?out) = [(None, Pending), (Some Pending, Leased), (Some Leased, Pending),
       (Some Pending, Cancelled), (Some Leased, Succeeded)]"
    by code_simp+
  ultimately show ?thesis by force
qed

text \<open>
  C35. An acknowledgement can be sent for a commit that is lost: the reply goes out inside the
  transaction, so a coordinator killed after it and before the commit leaves a worker that was
  told \<open>ack\<close> and a job that is still leased, with no accepted commit.
\<close>

theorem acknowledged_before_durable:
  "\<exists>s. sys_step\<^sup>*\<^sup>* sys_start s \<and> (''w1'', ''j'', 1, True) \<in> set (s_replies s) \<and>
     accepted_fence ''j'' (s_db s) = None \<and> job_state ''j'' (s_db s) = Some Leased"
proof -
  let ?out = "finish_tx (env_at 1150 []) race_open race_leased"
  let ?s = "\<lparr>s_db = roll_back race_leased (snd ?out), s_open = (\<lambda>_. None),
    s_replies = reply_of race_open (fst ?out)\<rparr>"
  have "sys_step (race_sys race_leased) ?s"
    using sys_step.killed_after_reply [of "race_sys race_leased" 0 race_open "env_at 1150 []" "fst ?out" "snd ?out"]
    by (simp add: race_sys_def)
  with race_begin have "sys_step\<^sup>*\<^sup>* sys_start ?s" by (rule rtranclp.rtrancl_into_rtrancl)
  moreover have "accepted_fence ''j'' (roll_back race_leased (snd ?out)) = None"
    "job_state ''j'' (roll_back race_leased (snd ?out)) = Some Leased"
    "reply_of race_open (fst ?out) = [(''w1'', ''j'', 1, True)]"
    by code_simp+
  ultimately show ?thesis by force
qed

end
